(* ===== verification/Prelude.thy ===== *)
theory Prelude
  imports Main "HOL-Library.AList" "HOL-Library.Word" "HOL-Library.Multiset"
begin

text \<open>
  Shared vocabulary of the development.

  Strings are char lists (UTF-8 bytes where the source handles bytes).  A Rust
  \<^verbatim>\<open>HashMap\<close> is an association list with distinct keys, read with \<^term>\<open>map_of\<close>
  and written with \<^term>\<open>AList.update\<close>: the position of a key stands for
  nothing, and every operation of the source whose result depends on the
  iteration order of a hash table takes that order as a parameter.
\<close>

named_theorems hm_simps "reading and writing hash maps"

type_synonym ('k, 'v) hmap = "('k \<times> 'v) list"

abbreviation hget :: "('k, 'v) hmap \<Rightarrow> 'k \<Rightarrow> 'v option" where
  "hget m k \<equiv> map_of m k"

abbreviation hput :: "'k \<Rightarrow> 'v \<Rightarrow> ('k, 'v) hmap \<Rightarrow> ('k, 'v) hmap" where
  "hput k v m \<equiv> AList.update k v m"

abbreviation hkeys :: "('k, 'v) hmap \<Rightarrow> 'k list" where
  "hkeys m \<equiv> map fst m"

abbreviation hvals :: "('k, 'v) hmap \<Rightarrow> 'v list" where
  "hvals m \<equiv> map snd m"

lemma hget_hput [simp, hm_simps]: "hget (hput k v m) k' = (if k' = k then Some v else hget m k')"
  by (simp add: update_conv')

lemma hput_distinct [simp, intro]: "distinct (hkeys m) \<Longrightarrow> distinct (hkeys (hput k v m))"
  by (rule distinct_update)

lemma hput_keys [simp]: "fst ` set (hput k v m) = insert k (fst ` set m)"
  by (metis dom_map_of_conv_image_fst dom_fun_upd option.distinct(1) update_conv')

lemma hvals_all_iff:
  assumes "distinct (hkeys m)"
  shows "list_all P (hvals m) \<longleftrightarrow> (\<forall>k v. hget m k = Some v \<longrightarrow> P v)"
  using assms by (auto simp: list_all_iff)

lemma hvals_ex_iff:
  assumes "distinct (hkeys m)"
  shows "list_ex P (hvals m) \<longleftrightarrow> (\<exists>k v. hget m k = Some v \<and> P v)"
  using assms by (force simp: list_ex_iff)

text \<open>An iteration order of a hash table: some rearrangement of its elements.\<close>

definition iteration_order :: "('a list \<Rightarrow> 'a list) \<Rightarrow> bool" where
  "iteration_order ord \<longleftrightarrow> (\<forall>xs. mset (ord xs) = mset xs)"

lemma iteration_order_set [simp]: "iteration_order ord \<Longrightarrow> set (ord xs) = set xs"
  unfolding iteration_order_def by (metis set_mset_mset)

lemma iteration_order_distinct [simp]:
  "iteration_order ord \<Longrightarrow> distinct (ord xs) = distinct xs"
  unfolding iteration_order_def by (metis mset_eq_imp_distinct_iff)

lemma iteration_order_id [simp]: "iteration_order (\<lambda>xs. xs)"
  by (simp add: iteration_order_def)

lemma iteration_order_rev [simp]: "iteration_order rev"
  by (simp add: iteration_order_def)

text \<open>Inserting into a hash set, kept as a list without repetitions.\<close>

definition set_insert :: "'a \<Rightarrow> 'a list \<Rightarrow> 'a list" where
  "set_insert x xs = (if x \<in> set xs then xs else xs @ [x])"

lemma set_set_insert [simp]: "set (set_insert x xs) = insert x (set xs)"
  by (auto simp: set_insert_def)

lemma distinct_set_insert [simp]: "distinct (set_insert x xs) = distinct xs"
  by (auto simp: set_insert_def)

lemma in_set_map_filter: "x \<in> set (List.map_filter f xs) \<longleftrightarrow> (\<exists>n\<in>set xs. f n = Some x)"
  by (induction xs) (auto split: option.splits)

end
