(* ===== verification/Hub_Dag.thy ===== *)
theory Hub_Dag
  imports Prelude
begin

text \<open>
  The hub's in-memory task graph (src/crates/hub/src/dag.rs): task states, the
  ready queue, and the operations the gRPC server calls under its lock.
  The iteration order of the \<^verbatim>\<open>HashSet\<close> of dependents and of the \<^verbatim>\<open>HashMap\<close> of
  states is the parameter \<^verbatim>\<open>ord\<close>.
\<close>

section \<open>Data\<close>

datatype TaskState =
    Pending
  | Ready
  | Dispatched string
  | Completed
  | Failed string

record TaskNode =
  task_id :: string
  package_name :: string
  script_name :: string
  tn_command :: string
  package_path :: string
  depends_on :: "string list"

record DagStats =
  st_pending :: nat
  st_ready :: nat
  st_dispatched :: nat
  st_completed :: nat
  st_failed :: nat

record HubDag =
  tasks :: "(string, TaskNode) hmap"
  states :: "(string, TaskState) hmap"
  rdeps :: "(string, string list) hmap"
  ready_queue :: "string list"

fun is_failed :: "TaskState \<Rightarrow> bool" where
  "is_failed (Failed _) = True"
| "is_failed _ = False"

fun is_settled :: "TaskState \<Rightarrow> bool" where
  "is_settled Completed = True"
| "is_settled (Failed _) = True"
| "is_settled _ = False"

section \<open>Construction\<close>

definition rdeps_of :: "(string, string list) hmap \<Rightarrow> string \<Rightarrow> string list" where
  "rdeps_of rd k = (case hget rd k of Some xs \<Rightarrow> xs | None \<Rightarrow> [])"

definition rdeps_touch :: "string \<Rightarrow> (string, string list) hmap \<Rightarrow> (string, string list) hmap" where
  "rdeps_touch k rd = (case hget rd k of None \<Rightarrow> hput k [] rd | Some _ \<Rightarrow> rd)"

definition rdeps_add :: "string \<Rightarrow> string \<Rightarrow> (string, string list) hmap \<Rightarrow> (string, string list) hmap" where
  "rdeps_add tid dep rd = hput dep (set_insert tid (rdeps_of rd dep)) rd"

fun rdeps_task :: "TaskNode \<Rightarrow> (string, string list) hmap \<Rightarrow> (string, string list) hmap" where
  "rdeps_task t rd = fold (rdeps_add (task_id t)) (depends_on t) (rdeps_touch (task_id t) rd)"

definition initial_state :: "TaskNode \<Rightarrow> TaskState" where
  "initial_state t = (if depends_on t = [] then Ready else Pending)"

fun insert_node :: "TaskNode \<Rightarrow> HubDag \<Rightarrow> HubDag" where
  "insert_node t d = d\<lparr>
     ready_queue := (if depends_on t = [] then ready_queue d @ [task_id t] else ready_queue d),
     states := hput (task_id t) (initial_state t) (states d),
     tasks := hput (task_id t) t (tasks d)\<rparr>"

definition dag_new :: "TaskNode list \<Rightarrow> HubDag" where
  "dag_new ts = fold insert_node ts
     \<lparr>tasks = [], states = [], rdeps = fold rdeps_task ts [], ready_queue = []\<rparr>"

section \<open>Operations\<close>

definition dispatch_next :: "string \<Rightarrow> HubDag \<Rightarrow> TaskNode option \<times> HubDag" where
  "dispatch_next w d = (case ready_queue d of
      [] \<Rightarrow> (None, d)
    | t # q \<Rightarrow> (hget (tasks d) t,
               d\<lparr>ready_queue := q, states := hput t (Dispatched w) (states d)\<rparr>))"

text \<open>The test of \<^verbatim>\<open>unblock_dependents\<close> on one dependent.\<close>

definition all_deps_completed :: "(string, TaskState) hmap \<Rightarrow> TaskNode \<Rightarrow> bool" where
  "all_deps_completed st t = list_all (\<lambda>dep. hget st dep = Some Completed) (depends_on t)"

fun unblock_loop :: "string list \<Rightarrow> HubDag \<Rightarrow> string list \<Rightarrow> string list \<times> HubDag" where
  "unblock_loop [] d newly = (newly, d)"
| "unblock_loop (x # xs) d newly =
    (if hget (states d) x \<noteq> Some Pending then unblock_loop xs d newly
     else (case hget (tasks d) x of
        None \<Rightarrow> unblock_loop xs d newly
      | Some t \<Rightarrow>
          if all_deps_completed (states d) t
          then unblock_loop xs
                 (d\<lparr>states := hput x Ready (states d), ready_queue := ready_queue d @ [x]\<rparr>)
                 (newly @ [x])
          else unblock_loop xs d newly))"

definition unblock_dependents ::
    "(string list \<Rightarrow> string list) \<Rightarrow> string \<Rightarrow> HubDag \<Rightarrow> string list \<times> HubDag" where
  "unblock_dependents ord c d = unblock_loop (ord (rdeps_of (rdeps d) c)) d []"

definition mark_complete ::
    "(string list \<Rightarrow> string list) \<Rightarrow> string \<Rightarrow> HubDag \<Rightarrow> string list \<times> HubDag" where
  "mark_complete ord t d = unblock_dependents ord t (d\<lparr>states := hput t Completed (states d)\<rparr>)"

definition dep_failed_msg :: "string \<Rightarrow> string" where
  "dep_failed_msg c = ''dependency '' @ c @ '' failed''"

text \<open>Whether \<^verbatim>\<open>mark_failed\<close> skips a dependent: it has settled already.\<close>

definition settled_at :: "(string, TaskState) hmap \<Rightarrow> string \<Rightarrow> bool" where
  "settled_at st x = (case hget st x of Some s \<Rightarrow> is_settled s | None \<Rightarrow> False)"

fun cascade_deps :: "string \<Rightarrow> string list \<Rightarrow> (string, TaskState) hmap \<Rightarrow> string list \<Rightarrow> string list
    \<Rightarrow> (string, TaskState) hmap \<times> string list \<times> string list" where
  "cascade_deps c [] st newly fr = (st, newly, fr)"
| "cascade_deps c (x # xs) st newly fr =
    (if settled_at st x then cascade_deps c xs st newly fr
     else cascade_deps c xs (hput x (Failed (dep_failed_msg c)) st) (newly @ [x]) (fr @ [x]))"

definition cascade_univ ::
    "(string list \<Rightarrow> string list) \<Rightarrow> (string, string list) hmap \<Rightarrow> string set" where
  "cascade_univ ord rd = (\<Union>c. set (ord (rdeps_of rd c)))"

definition unsettled_in :: "(string, TaskState) hmap \<Rightarrow> string set \<Rightarrow> string set" where
  "unsettled_in st U = {x \<in> U. \<not> settled_at st x}"

lemma rdeps_of_range: "rdeps_of rd c \<in> insert [] (snd ` set rd)"
  by (force simp: rdeps_of_def dest: map_of_SomeD split: option.splits)

lemma finite_cascade_univ: "finite (cascade_univ ord rd)"
proof -
  have "cascade_univ ord rd \<subseteq> (\<Union>xs\<in>insert [] (snd ` set rd). set (ord xs))"
    unfolding cascade_univ_def using rdeps_of_range by blast
  then show ?thesis by (rule finite_subset) simp
qed

lemma finite_unsettled_in: "finite U \<Longrightarrow> finite (unsettled_in st U)"
  by (simp add: unsettled_in_def)

lemma settled_at_put_Failed [simp]: "settled_at (hput x (Failed e) st) y \<longleftrightarrow> y = x \<or> settled_at st y"
  by (simp add: settled_at_def)

lemma cascade_deps_measure:
  assumes "cascade_deps c xs st newly fr = (st', newly', fr')" "finite U" "set xs \<subseteq> U"
  shows "2 * card (unsettled_in st' U) + length fr' \<le> 2 * card (unsettled_in st U) + length fr"
  using assms
proof (induction c xs st newly fr rule: cascade_deps.induct)
  case (2 c x xs st newly fr)
  show ?case
  proof (cases "settled_at st x")
    case False
    let ?st = "hput x (Failed (dep_failed_msg c)) st"
    have "unsettled_in ?st U = unsettled_in st U - {x}" "x \<in> unsettled_in st U"
      using False 2 by (auto simp: unsettled_in_def)
    then have "card (unsettled_in ?st U) + 1 = card (unsettled_in st U)"
      using finite_unsettled_in[OF \<open>finite U\<close>, of st]
      by (metis Suc_eq_plus1 card.remove)
    then show ?thesis using 2 False by fastforce
  qed (use 2 in auto)
qed simp

function cascade :: "(string list \<Rightarrow> string list) \<Rightarrow> (string, string list) hmap
    \<Rightarrow> (string, TaskState) hmap \<Rightarrow> string list \<Rightarrow> string list
    \<Rightarrow> (string, TaskState) hmap \<times> string list" where
  "cascade ord rd st newly [] = (st, newly)"
| "cascade ord rd st newly (c # fr) =
    (case cascade_deps c (ord (rdeps_of rd c)) st newly fr of
       (st', newly', fr') \<Rightarrow> cascade ord rd st' newly' fr')"
  by pat_completeness auto
termination
proof (relation "measure (\<lambda>(ord, rd, st, newly, fr).
    2 * card (unsettled_in st (cascade_univ ord rd)) + length fr)", goal_cases)
  case (2 ord rd st newly c fr)
  have "set (ord (rdeps_of rd c)) \<subseteq> cascade_univ ord rd"
    by (auto simp: cascade_univ_def)
  note m = cascade_deps_measure[OF _ finite_cascade_univ this]
  show ?case using 2 by (auto dest!: m split: prod.splits)
qed simp

definition mark_failed :: "(string list \<Rightarrow> string list) \<Rightarrow> string \<Rightarrow> string \<Rightarrow> HubDag
    \<Rightarrow> string list \<times> HubDag" where
  "mark_failed ord t err d =
    (case cascade ord (rdeps d) (hput t (Failed err) (states d)) [] [t] of
       (st, newly) \<Rightarrow>
         (newly, d\<lparr>states := st,
                    ready_queue := filter (\<lambda>x. \<not> (case hget st x of Some s \<Rightarrow> is_failed s | None \<Rightarrow> False))
                                     (ready_queue d)\<rparr>))"

definition is_done :: "HubDag \<Rightarrow> bool" where
  "is_done d = list_all is_settled (hvals (states d))"

definition has_failure :: "HubDag \<Rightarrow> bool" where
  "has_failure d = list_ex is_failed (hvals (states d))"

fun first_failure_in :: "(string \<times> TaskState) list \<Rightarrow> (string \<times> string) option" where
  "first_failure_in [] = None"
| "first_failure_in ((x, s) # xs) =
    (case s of Failed e \<Rightarrow> Some (x, e) | _ \<Rightarrow> first_failure_in xs)"

definition first_failure ::
    "((string \<times> TaskState) list \<Rightarrow> (string \<times> TaskState) list) \<Rightarrow> HubDag \<Rightarrow> (string \<times> string) option" where
  "first_failure ord d = first_failure_in (ord (states d))"

definition has_ready :: "HubDag \<Rightarrow> bool" where
  "has_ready d = (ready_queue d \<noteq> [])"

fun count_state :: "TaskState \<Rightarrow> DagStats \<Rightarrow> DagStats" where
  "count_state Pending s = s\<lparr>st_pending := st_pending s + 1\<rparr>"
| "count_state Ready s = s\<lparr>st_ready := st_ready s + 1\<rparr>"
| "count_state (Dispatched _) s = s\<lparr>st_dispatched := st_dispatched s + 1\<rparr>"
| "count_state Completed s = s\<lparr>st_completed := st_completed s + 1\<rparr>"
| "count_state (Failed _) s = s\<lparr>st_failed := st_failed s + 1\<rparr>"

definition dag_stats :: "HubDag \<Rightarrow> DagStats" where
  "dag_stats d = fold count_state (hvals (states d))
     \<lparr>st_pending = 0, st_ready = 0, st_dispatched = 0, st_completed = 0, st_failed = 0\<rparr>"

definition total_tasks :: "HubDag \<Rightarrow> nat" where
  "total_tasks d = length (tasks d)"

section \<open>What the two loops compute\<close>

definition becomes_ready :: "HubDag \<Rightarrow> string \<Rightarrow> bool" where
  "becomes_ready d x \<longleftrightarrow> hget (states d) x = Some Pending \<and>
     (case hget (tasks d) x of None \<Rightarrow> False | Some t \<Rightarrow> all_deps_completed (states d) t)"

lemma all_deps_completed_put_Ready:
  "hget st x = Some Pending \<Longrightarrow> all_deps_completed (hput x Ready st) t = all_deps_completed st t"
  by (auto simp: all_deps_completed_def list_all_iff)

abbreviation make_ready :: "string \<Rightarrow> HubDag \<Rightarrow> HubDag" where
  "make_ready x d \<equiv> d\<lparr>states := hput x Ready (states d), ready_queue := ready_queue d @ [x]\<rparr>"

lemma unblock_loop_Cons:
  "unblock_loop (x # xs) d newly =
    (if becomes_ready d x then unblock_loop xs (make_ready x d) (newly @ [x])
     else unblock_loop xs d newly)"
  by (auto simp: becomes_ready_def split: option.splits)

lemma becomes_ready_make_ready:
  "becomes_ready d x \<Longrightarrow> y \<noteq> x \<Longrightarrow> becomes_ready (make_ready x d) y = becomes_ready d y"
  by (auto simp: becomes_ready_def all_deps_completed_put_Ready split: option.splits)

lemma becomes_ready_key: "becomes_ready d x \<Longrightarrow> x \<in> fst ` set (states d)"
  by (metis becomes_ready_def domI dom_map_of_conv_image_fst)

definition unblock_post :: "string list \<Rightarrow> HubDag \<Rightarrow> string list \<Rightarrow> string list \<times> HubDag \<Rightarrow> bool" where
  "unblock_post xs d newly r \<longleftrightarrow> (let R = filter (becomes_ready d) xs in
     fst r = newly @ R \<and> ready_queue (snd r) = ready_queue d @ R \<and>
     tasks (snd r) = tasks d \<and> rdeps (snd r) = rdeps d \<and>
     (\<forall>y. hget (states (snd r)) y = (if y \<in> set R then Some Ready else hget (states d) y)) \<and>
     (distinct (hkeys (states d)) \<longrightarrow> distinct (hkeys (states (snd r)))) \<and>
     fst ` set (states (snd r)) = fst ` set (states d))"

lemma unblock_loop_post: "distinct xs \<Longrightarrow> unblock_post xs d newly (unblock_loop xs d newly)"
proof (induction xs arbitrary: d newly)
  case Nil
  then show ?case by (simp add: unblock_post_def)
next
  case (Cons x xs)
  show ?case
  proof (cases "becomes_ready d x")
    case True
    have f: "filter (becomes_ready (make_ready x d)) xs = filter (becomes_ready d) xs"
      using Cons.prems becomes_ready_make_ready[OF True]
      by (intro filter_cong refl) (metis distinct.simps(2))
    have "unblock_post xs (make_ready x d) (newly @ [x])
            (unblock_loop xs (make_ready x d) (newly @ [x]))"
      using Cons by simp
    then show ?thesis
      using True becomes_ready_key[OF True]
      by (simp add: unblock_loop_Cons unblock_post_def Let_def f insert_absorb
               del: unblock_loop.simps)
  next
    case False
    then show ?thesis using Cons
      by (simp add: unblock_loop_Cons unblock_post_def del: unblock_loop.simps)
  qed
qed

lemma cascade_deps_spec:
  assumes "cascade_deps c xs st newly fr = (st', newly', fr')"
  obtains N where "newly' = newly @ N" "fr' = fr @ N" "distinct N"
    "set N = {x \<in> set xs. \<not> settled_at st x}"
    "\<And>y. hget st' y = (if y \<in> set N then Some (Failed (dep_failed_msg c)) else hget st y)"
    "distinct (hkeys st) \<Longrightarrow> distinct (hkeys st')"
    "fst ` set st' = fst ` set st \<union> set N"
proof -
  have "\<exists>N. newly' = newly @ N \<and> fr' = fr @ N \<and> distinct N \<and>
    set N = {x \<in> set xs. \<not> settled_at st x} \<and>
    (\<forall>y. hget st' y = (if y \<in> set N then Some (Failed (dep_failed_msg c)) else hget st y)) \<and>
    (distinct (hkeys st) \<longrightarrow> distinct (hkeys st')) \<and> fst ` set st' = fst ` set st \<union> set N"
    using assms
  proof (induction c xs st newly fr rule: cascade_deps.induct)
    case (2 c x xs st newly fr)
    show ?case
    proof (cases "settled_at st x")
      case True
      with 2 show ?thesis by auto
    next
      case False
      with 2 obtain N where "newly' = newly @ x # N" "fr' = fr @ x # N" "distinct N"
        "set N = {y \<in> set xs. \<not> settled_at (hput x (Failed (dep_failed_msg c)) st) y}"
        "\<forall>y. hget st' y = (if y \<in> set N then Some (Failed (dep_failed_msg c))
                           else hget (hput x (Failed (dep_failed_msg c)) st) y)"
        "distinct (hkeys (hput x (Failed (dep_failed_msg c)) st)) \<longrightarrow> distinct (hkeys st')"
        "fst ` set st' = insert x (fst ` set st) \<union> set N"
        by auto
      with False show ?thesis by (intro exI[of _ "x # N"]) auto
    qed
  qed auto
  with that show thesis by blast
qed

text \<open>
  One edge of the failure cascade: a dependent that had not settled when the
  cascade started.  The invariant of the worklist says that the newly failed
  tasks are reachable over such edges, and that only tasks still in the
  frontier may have unsettled dependents.
\<close>

definition cascade_edges ::
    "(string, string list) hmap \<Rightarrow> (string, TaskState) hmap \<Rightarrow> (string \<times> string) set" where
  "cascade_edges rd st = {(a, b). b \<in> set (rdeps_of rd a) \<and> \<not> settled_at st b}"

definition cascade_inv :: "string \<Rightarrow> (string, string list) hmap \<Rightarrow> (string, TaskState) hmap
    \<Rightarrow> (string, TaskState) hmap \<Rightarrow> string list \<Rightarrow> string list \<Rightarrow> bool" where
  "cascade_inv t rd st0 st newly fr \<longleftrightarrow>
     distinct newly \<and> set fr \<subseteq> insert t (set newly) \<and>
     set newly \<subseteq> (cascade_edges rd st0)\<^sup>+ `` {t} \<and>
     (\<forall>y. y \<notin> set newly \<longrightarrow> hget st y = hget st0 y) \<and>
     (\<forall>y\<in>set newly. \<not> settled_at st0 y \<and>
        (\<exists>c\<in>insert t (set newly). y \<in> set (rdeps_of rd c) \<and>
           hget st y = Some (Failed (dep_failed_msg c)))) \<and>
     (\<forall>a\<in>insert t (set newly) - set fr. \<forall>b\<in>set (rdeps_of rd a). settled_at st b) \<and>
     (distinct (hkeys st0) \<longrightarrow> distinct (hkeys st)) \<and>
     fst ` set st = fst ` set st0 \<union> set newly"

lemma cascade_invD:
  assumes "cascade_inv t rd st0 st newly fr"
  shows "distinct newly"
    "y \<notin> set newly \<Longrightarrow> hget st y = hget st0 y"
    "y \<in> set newly \<Longrightarrow> \<exists>c\<in>insert t (set newly). y \<in> set (rdeps_of rd c) \<and>
        hget st y = Some (Failed (dep_failed_msg c))"
    "distinct (hkeys st0) \<Longrightarrow> distinct (hkeys st)"
    "fst ` set st = fst ` set st0 \<union> set newly"
  using assms unfolding cascade_inv_def by blast+

lemma settled_at_cong: "hget st x = hget st' x \<Longrightarrow> settled_at st x = settled_at st' x"
  by (simp add: settled_at_def)

lemma settled_at_Failed: "hget st x = Some (Failed e) \<Longrightarrow> settled_at st x"
  by (simp add: settled_at_def)

lemma cascade_inv_step:
  assumes inv: "cascade_inv t rd st0 st newly (c # fr)"
    and run: "cascade_deps c xs st newly fr = (st', newly', fr')"
    and xs: "set xs = set (rdeps_of rd c)"
  shows "cascade_inv t rd st0 st' newly' fr'"
proof -
  let ?E = "(cascade_edges rd st0)\<^sup>+ `` {t}"
  obtain N where N: "newly' = newly @ N" "fr' = fr @ N" "distinct N"
    "set N = {x \<in> set xs. \<not> settled_at st x}"
    "\<And>y. hget st' y = (if y \<in> set N then Some (Failed (dep_failed_msg c)) else hget st y)"
    "distinct (hkeys st) \<Longrightarrow> distinct (hkeys st')" "fst ` set st' = fst ` set st \<union> set N"
    using run by (rule cascade_deps_spec) blast
  have set_newly: "\<And>y. y \<in> set newly \<Longrightarrow> settled_at st y"
    using inv settled_at_Failed unfolding cascade_inv_def by blast
  have disj: "set newly \<inter> set N = {}" using set_newly N(4) by auto
  have unN: "\<not> settled_at st0 y" if "y \<in> set N" for y
  proof -
    from that disj have "y \<notin> set newly" by auto
    then have "hget st y = hget st0 y" using inv by (auto simp: cascade_inv_def)
    then have "settled_at st y = settled_at st0 y" by (rule settled_at_cong)
    then show ?thesis using that N(4) by simp
  qed
  have c: "c \<in> insert t (set newly)" using inv by (simp add: cascade_inv_def)
  have edge: "(c, y) \<in> cascade_edges rd st0" if "y \<in> set N" for y
    using that N(4) xs unN[OF that] by (simp add: cascade_edges_def)
  have reach: "set N \<subseteq> ?E"
  proof
    fix y assume y: "y \<in> set N"
    from c show "y \<in> ?E"
    proof
      assume "c = t" then show ?thesis using edge[OF y] by auto
    next
      assume "c \<in> set newly"
      then have "(t, c) \<in> (cascade_edges rd st0)\<^sup>+" using inv by (auto simp: cascade_inv_def)
      then show ?thesis using edge[OF y] by auto
    qed
  qed
  have keep: "settled_at st' b" if "settled_at st b" for b
    using that N(5)[of b] by (auto simp: settled_at_def)
  have done_c: "settled_at st' b" if "b \<in> set (rdeps_of rd c)" for b
    using that xs N(4) N(5)[of b] by (cases "settled_at st b") (auto simp: keep settled_at_def)
  show ?thesis
    unfolding cascade_inv_def
  proof (intro conjI)
    show "distinct newly'" using inv N disj by (auto simp: cascade_inv_def)
    show "set fr' \<subseteq> insert t (set newly')" using inv N by (auto simp: cascade_inv_def)
    show "set newly' \<subseteq> ?E" using inv N reach by (auto simp: cascade_inv_def)
    show "\<forall>y. y \<notin> set newly' \<longrightarrow> hget st' y = hget st0 y"
      using inv N by (auto simp: cascade_inv_def)
    show "\<forall>y\<in>set newly'. \<not> settled_at st0 y \<and> (\<exists>c\<in>insert t (set newly').
        y \<in> set (rdeps_of rd c) \<and> hget st' y = Some (Failed (dep_failed_msg c)))"
    proof
      fix y assume "y \<in> set newly'"
      then consider "y \<in> set newly" "y \<notin> set N" | "y \<in> set N" using N disj by auto
      then show "\<not> settled_at st0 y \<and> (\<exists>c\<in>insert t (set newly').
          y \<in> set (rdeps_of rd c) \<and> hget st' y = Some (Failed (dep_failed_msg c)))"
      proof cases
        case 1
        then show ?thesis using inv N by (auto simp: cascade_inv_def)
      next
        case 2
        then have "y \<in> set (rdeps_of rd c)" using N(4) xs by simp
        moreover have "hget st' y = Some (Failed (dep_failed_msg c))" using 2 N(5) by simp
        moreover have "c \<in> insert t (set newly')" using c N(1) by auto
        ultimately show ?thesis using unN[OF 2] by blast
      qed
    qed
    show "\<forall>a\<in>insert t (set newly') - set fr'. \<forall>b\<in>set (rdeps_of rd a). settled_at st' b"
    proof (intro ballI)
      fix a b assume a: "a \<in> insert t (set newly') - set fr'" and b: "b \<in> set (rdeps_of rd a)"
      show "settled_at st' b"
      proof (cases "a = c")
        case False
        then have "a \<in> insert t (set newly) - set (c # fr)" using a N by auto
        then have "settled_at st b" using inv b by (auto simp: cascade_inv_def)
        then show ?thesis by (rule keep)
      qed (use b done_c in auto)
    qed
    show "distinct (hkeys st0) \<longrightarrow> distinct (hkeys st')" using inv N by (simp add: cascade_inv_def)
    show "fst ` set st' = fst ` set st0 \<union> set newly'" using inv N by (auto simp: cascade_inv_def)
  qed
qed

lemma cascade_inv_run:
  assumes "iteration_order ord" "cascade_inv t rd st0 st newly fr"
  shows "cascade_inv t rd st0 (fst (cascade ord rd st newly fr)) (snd (cascade ord rd st newly fr)) []"
  using assms
proof (induction ord rd st newly fr rule: cascade.induct)
  case (2 ord rd st newly c fr)
  obtain st' newly' fr' where r: "cascade_deps c (ord (rdeps_of rd c)) st newly fr = (st', newly', fr')"
    by (metis prod_cases3)
  from cascade_inv_step[OF "2.prems"(2) r] "2.prems"(1)
  have "cascade_inv t rd st0 st' newly' fr'" by simp
  from "2.IH"[OF r[symmetric] refl "2.prems"(1) this] show ?case by (simp add: r)
qed simp

lemma cascade_result:
  assumes ord: "iteration_order ord" and t: "settled_at st0 t"
    and run: "cascade ord rd st0 [] [t] = (st, newly)"
  shows "cascade_inv t rd st0 st newly []" and "set newly = (cascade_edges rd st0)\<^sup>+ `` {t}"
proof -
  have "cascade_inv t rd st0 st0 [] [t]" by (auto simp: cascade_inv_def)
  from cascade_inv_run[OF ord this] run show inv: "cascade_inv t rd st0 st newly []" by simp
  have "(t, y) \<in> (cascade_edges rd st0)\<^sup>+ \<Longrightarrow> y \<in> set newly" for y
  proof (induction rule: trancl_induct)
    case (base y)
    then have "\<not> settled_at st0 y" "settled_at st y"
      using inv by (auto simp: cascade_inv_def cascade_edges_def)
    then show ?case using inv settled_at_cong unfolding cascade_inv_def by metis
  next
    case (step y z)
    then have "\<not> settled_at st0 z" "settled_at st z"
      using inv by (auto simp: cascade_inv_def cascade_edges_def)
    then show ?case using inv settled_at_cong unfolding cascade_inv_def by metis
  qed
  then show "set newly = (cascade_edges rd st0)\<^sup>+ `` {t}"
    using inv by (auto simp: cascade_inv_def)
qed

end
