(* ===== verification/Hub_Invariant.thy ===== *)
theory Hub_Invariant
  imports Hub_Dag
begin

text \<open>
  The invariant of the hub's task graph and its preservation by the operations
  of Hub_Dag, when a completion is reported for a dispatched task: states are
  kept for exactly the submitted tasks, the ready queue lists the Ready tasks,
  only tasks whose dependencies have completed get ready, and failures have
  reached all dependents.
\<close>

definition graph_wf :: "HubDag \<Rightarrow> bool" where
  "graph_wf d \<longleftrightarrow> distinct (hkeys (tasks d)) \<and>
     (\<forall>k n. hget (tasks d) k = Some n \<longrightarrow> task_id n = k) \<and>
     (\<forall>k dep. k \<in> set (rdeps_of (rdeps d) dep) \<longleftrightarrow>
        (\<exists>n. hget (tasks d) k = Some n \<and> dep \<in> set (depends_on n))) \<and>
     (\<forall>dep. distinct (rdeps_of (rdeps d) dep))"

definition dep_rel :: "HubDag \<Rightarrow> (string \<times> string) set" where
  "dep_rel d = {(k, dep). \<exists>n. hget (tasks d) k = Some n \<and> dep \<in> set (depends_on n)}"

definition completed :: "HubDag \<Rightarrow> string \<Rightarrow> bool" where
  "completed d k \<longleftrightarrow> hget (states d) k = Some Completed"

definition failed :: "HubDag \<Rightarrow> string \<Rightarrow> bool" where
  "failed d k \<longleftrightarrow> (\<exists>e. hget (states d) k = Some (Failed e))"

definition state_ok :: "HubDag \<Rightarrow> string \<Rightarrow> TaskState \<Rightarrow> bool" where
  "state_ok d k s \<longleftrightarrow>
     (case s of
        Pending \<Rightarrow> \<exists>dep. (k, dep) \<in> dep_rel d \<and> \<not> completed d dep
      | Failed _ \<Rightarrow> True
      | _ \<Rightarrow> \<forall>dep. (k, dep) \<in> dep_rel d \<longrightarrow> completed d dep)"

definition dag_inv :: "HubDag \<Rightarrow> bool" where
  "dag_inv d \<longleftrightarrow> graph_wf d \<and>
     distinct (hkeys (states d)) \<and> fst ` set (states d) = fst ` set (tasks d) \<and>
     distinct (ready_queue d) \<and>
     set (ready_queue d) = {k. hget (states d) k = Some Ready} \<and>
     (\<forall>k s. hget (states d) k = Some s \<longrightarrow> state_ok d k s) \<and>
     (\<forall>k dep. (k, dep) \<in> dep_rel d \<longrightarrow> failed d dep \<longrightarrow> failed d k)"

lemma dag_invD:
  assumes "dag_inv d"
  shows "graph_wf d" "distinct (hkeys (states d))" "fst ` set (states d) = fst ` set (tasks d)"
    "distinct (ready_queue d)" "set (ready_queue d) = {k. hget (states d) k = Some Ready}"
    "\<And>k s. hget (states d) k = Some s \<Longrightarrow> state_ok d k s"
    "\<And>k dep. (k, dep) \<in> dep_rel d \<Longrightarrow> failed d dep \<Longrightarrow> failed d k"
  using assms by (auto simp: dag_inv_def)

lemma state_ok_simps [simp]:
  "state_ok d k Pending \<longleftrightarrow> (\<exists>dep. (k, dep) \<in> dep_rel d \<and> \<not> completed d dep)"
  "state_ok d k Ready \<longleftrightarrow> (\<forall>dep. (k, dep) \<in> dep_rel d \<longrightarrow> completed d dep)"
  "state_ok d k (Dispatched w) \<longleftrightarrow> (\<forall>dep. (k, dep) \<in> dep_rel d \<longrightarrow> completed d dep)"
  "state_ok d k Completed \<longleftrightarrow> (\<forall>dep. (k, dep) \<in> dep_rel d \<longrightarrow> completed d dep)"
  "state_ok d k (Failed e)"
  by (auto simp: state_ok_def)

lemma key_has_state: "dag_inv d \<Longrightarrow> hget (tasks d) k = Some n \<Longrightarrow> \<exists>s. hget (states d) k = Some s"
  using dag_invD(3) by (metis domD domI dom_map_of_conv_image_fst)

lemma state_has_task: "dag_inv d \<Longrightarrow> hget (states d) k = Some s \<Longrightarrow> \<exists>n. hget (tasks d) k = Some n"
  using dag_invD(3) by (metis domD domI dom_map_of_conv_image_fst)

lemma rdeps_dep_rel: "graph_wf d \<Longrightarrow> k \<in> set (rdeps_of (rdeps d) dep) \<longleftrightarrow> (k, dep) \<in> dep_rel d"
  by (auto simp: graph_wf_def dep_rel_def)

text \<open>A dependent of an unfinished task is Pending or has failed.\<close>

lemma dependent_pending:
  assumes "dag_inv d" "(k, dep) \<in> dep_rel d" "\<not> completed d dep" "hget (states d) k = Some s"
  shows "s = Pending \<or> (\<exists>e. s = Failed e)"
  using dag_invD(6)[OF assms(1,4)] assms(2,3) by (cases s) (auto simp: state_ok_def)

section \<open>The initial graph\<close>

definition wf_nodes :: "TaskNode list \<Rightarrow> bool" where
  "wf_nodes ts \<longleftrightarrow> distinct (map task_id ts)"

lemma update_new_key: "k \<notin> fst ` set m \<Longrightarrow> hput k v m = m @ [(k, v)]"
  by (induction m) auto

lemma rdeps_of_hput [simp]: "rdeps_of (hput k v rd) x = (if x = k then v else rdeps_of rd x)"
  by (simp add: rdeps_of_def)

lemma rdeps_of_add:
  "rdeps_of (rdeps_add t dep rd) x =
     (if x = dep then set_insert t (rdeps_of rd x) else rdeps_of rd x)"
  by (simp add: rdeps_add_def)

lemma rdeps_of_touch [simp]: "rdeps_of (rdeps_touch t rd) x = rdeps_of rd x"
  by (simp add: rdeps_touch_def rdeps_of_def split: option.splits)

lemma rdeps_of_fold_add:
  "set (rdeps_of (fold (rdeps_add t) deps rd) x) =
     (if x \<in> set deps then insert t (set (rdeps_of rd x)) else set (rdeps_of rd x))"
  by (induction deps arbitrary: rd) (auto simp: rdeps_of_add)

lemma rdeps_of_fold_add_distinct:
  "(\<And>y. distinct (rdeps_of rd y)) \<Longrightarrow> distinct (rdeps_of (fold (rdeps_add t) deps rd) x)"
  by (induction deps arbitrary: rd) (auto simp: rdeps_of_add)

lemma rdeps_new:
  "set (rdeps_of (fold rdeps_task ts []) x) = {task_id t | t. t \<in> set ts \<and> x \<in> set (depends_on t)}"
  "distinct (rdeps_of (fold rdeps_task ts []) x)"
proof (induction ts arbitrary: x rule: rev_induct)
  case (snoc t ts)
  {
    case 1
    show ?case using snoc(1) by (auto simp: rdeps_of_fold_add)
  next
    case 2
    show ?case using snoc(2) by (simp add: rdeps_of_fold_add_distinct)
  }
qed (simp_all add: rdeps_of_def)

lemma insert_nodes_fold:
  assumes "distinct (map task_id ts)"
  shows "fold insert_node ts \<lparr>tasks = [], states = [], rdeps = rd, ready_queue = []\<rparr> =
    \<lparr>tasks = map (\<lambda>t. (task_id t, t)) ts, states = map (\<lambda>t. (task_id t, initial_state t)) ts,
     rdeps = rd, ready_queue = map task_id (filter (\<lambda>t. depends_on t = []) ts)\<rparr>"
  using assms
proof (induction ts rule: rev_induct)
  case (snoc t ts)
  then have "task_id t \<notin> fst ` set (map (\<lambda>t. (task_id t, t)) ts)"
    "task_id t \<notin> fst ` set (map (\<lambda>t. (task_id t, initial_state t)) ts)" by force+
  with snoc show ?case by (simp add: update_new_key)
qed simp

lemma dag_new_eq:
  "wf_nodes ts \<Longrightarrow> dag_new ts =
    \<lparr>tasks = map (\<lambda>t. (task_id t, t)) ts, states = map (\<lambda>t. (task_id t, initial_state t)) ts,
     rdeps = fold rdeps_task ts [], ready_queue = map task_id (filter (\<lambda>t. depends_on t = []) ts)\<rparr>"
  unfolding dag_new_def wf_nodes_def by (rule insert_nodes_fold)

lemma map_of_keyed:
  "distinct (map f ts) \<Longrightarrow> map_of (map (\<lambda>t. (f t, g t)) ts) k = Some v \<longleftrightarrow> (\<exists>t\<in>set ts. f t = k \<and> g t = v)"
  by (subst map_of_eq_Some_iff) (auto simp: o_def)

lemma dag_new_tasks:
  "wf_nodes ts \<Longrightarrow> hget (tasks (dag_new ts)) k = Some n \<longleftrightarrow> n \<in> set ts \<and> task_id n = k"
  by (auto simp: dag_new_eq wf_nodes_def map_of_keyed)

lemma dag_new_states:
  "wf_nodes ts \<Longrightarrow> hget (states (dag_new ts)) k = Some s \<longleftrightarrow>
     (\<exists>n\<in>set ts. task_id n = k \<and> initial_state n = s)"
  by (auto simp: dag_new_eq wf_nodes_def map_of_keyed)

lemma dag_new_inv:
  assumes "wf_nodes ts"
  shows "dag_inv (dag_new ts)"
proof -
  let ?d = "dag_new ts"
  have rd: "rdeps ?d = fold rdeps_task ts []" by (simp add: dag_new_eq[OF assms])
  have wf: "graph_wf ?d"
    using assms by (auto simp: graph_wf_def dag_new_tasks rd rdeps_new)
       (auto simp: dag_new_eq wf_nodes_def o_def)
  have none: "\<not> completed ?d x" "\<not> failed ?d x" for x
    using assms by (auto simp: completed_def failed_def dag_new_states initial_state_def split: if_splits)
  have st: "state_ok ?d k s" if k: "hget (states ?d) k = Some s" for k s
  proof -
    from k assms obtain n where n: "n \<in> set ts" "task_id n = k" "s = initial_state n"
      by (auto simp: dag_new_states)
    then have "hget (tasks ?d) k = Some n" by (simp add: dag_new_tasks[OF assms])
    then have dep: "(k, dep) \<in> dep_rel ?d \<longleftrightarrow> dep \<in> set (depends_on n)" for dep
      by (simp add: dep_rel_def)
    show ?thesis
    proof (cases "depends_on n")
      case Nil
      then show ?thesis using n(3) dep by (simp add: initial_state_def)
    next
      case (Cons x xs)
      then have "(k, x) \<in> dep_rel ?d" using dep by simp
      then show ?thesis using n(3) Cons none(1)[of x] by (auto simp: initial_state_def)
    qed
  qed
  show ?thesis
    unfolding dag_inv_def
  proof (intro conjI)
    show "set (ready_queue ?d) = {k. hget (states ?d) k = Some Ready}"
      using assms by (auto simp: dag_new_states initial_state_def) (auto simp: dag_new_eq)
    show "distinct (ready_queue ?d)"
      using assms by (auto simp: dag_new_eq wf_nodes_def distinct_map inj_on_def)
  qed (use wf st none assms in \<open>auto simp: dag_new_eq wf_nodes_def o_def image_image\<close>)
qed

section \<open>Preservation\<close>

text \<open>The graph itself is fixed: an operation changes the states and the queue only.\<close>

definition same_graph :: "HubDag \<Rightarrow> HubDag \<Rightarrow> bool" where
  "same_graph d d' \<longleftrightarrow> tasks d' = tasks d \<and> rdeps d' = rdeps d"

lemma same_graph_refl [simp]: "same_graph d d" by (simp add: same_graph_def)

lemma same_graph_trans: "same_graph a b \<Longrightarrow> same_graph b c \<Longrightarrow> same_graph a c"
  by (simp add: same_graph_def)

lemma same_graph_dep_rel: "same_graph d d' \<Longrightarrow> dep_rel d' = dep_rel d"
  by (simp add: same_graph_def dep_rel_def)

lemma same_graph_wf: "same_graph d d' \<Longrightarrow> graph_wf d' = graph_wf d"
  by (simp add: same_graph_def graph_wf_def)

lemma dispatch_next_graph: "same_graph d (snd (dispatch_next w d))"
  by (simp add: dispatch_next_def same_graph_def split: list.splits)

lemma dispatch_next_states:
  assumes "ready_queue d = t # q"
  shows "hget (states (snd (dispatch_next w d))) k =
    (if k = t then Some (Dispatched w) else hget (states d) k)"
  using assms by (simp add: dispatch_next_def)

lemma dispatch_next_inv:
  assumes inv: "dag_inv d"
  shows "dag_inv (snd (dispatch_next w d))"
proof (cases "ready_queue d")
  case (Cons t q)
  let ?d = "snd (dispatch_next w d)"
  note D = dag_invD[OF inv]
  have st: "hget (states ?d) k = (if k = t then Some (Dispatched w) else hget (states d) k)" for k
    by (rule dispatch_next_states[OF Cons])
  have ready: "hget (states d) t = Some Ready" using D(5) Cons by auto
  have key: "t \<in> fst ` set (states d)" using ready by (metis domI dom_map_of_conv_image_fst)
  have rel [simp]: "dep_rel ?d = dep_rel d" by (rule same_graph_dep_rel[OF dispatch_next_graph])
  have c [simp]: "completed ?d k = completed d k" "failed ?d k = failed d k" for k
    using ready st by (auto simp: completed_def failed_def)
  have ok: "state_ok ?d k s = state_ok d k s" for k s
    by (cases s) simp_all
  have fields: "ready_queue ?d = q" "tasks ?d = tasks d" "states ?d = hput t (Dispatched w) (states d)"
    using Cons by (simp_all add: dispatch_next_def)
  show ?thesis
    unfolding dag_inv_def
  proof (intro conjI)
    show "graph_wf ?d" using D(1) same_graph_wf[OF dispatch_next_graph] by blast
    show "set (ready_queue ?d) = {k. hget (states ?d) k = Some Ready}"
      using D(4,5) Cons fields(1) by (auto simp: st)
    show "\<forall>k s. hget (states ?d) k = Some s \<longrightarrow> state_ok ?d k s"
      using D(6) D(6)[OF ready] by (auto simp: st ok split: if_splits)
    show "\<forall>k dep. (k, dep) \<in> dep_rel ?d \<longrightarrow> failed ?d dep \<longrightarrow> failed ?d k"
      using D(7) by simp
  qed (use D Cons key in \<open>auto simp: fields\<close>)
qed (use assms in \<open>simp add: dispatch_next_def\<close>)

lemma mark_complete_graph:
  assumes "iteration_order ord" "graph_wf d"
  shows "same_graph d (snd (mark_complete ord t d))"
  using unblock_loop_post[of "ord (rdeps_of (rdeps d) t)" "d\<lparr>states := hput t Completed (states d)\<rparr>" "[]"]
    assms by (simp add: same_graph_def mark_complete_def unblock_dependents_def unblock_post_def Let_def graph_wf_def)

text \<open>Which tasks \<^verbatim>\<open>mark_complete\<close> makes ready: the Pending dependents whose other dependencies
  have completed.\<close>

definition newly_ready :: "HubDag \<Rightarrow> string \<Rightarrow> string set" where
  "newly_ready d t = {k. (k, t) \<in> dep_rel d \<and> k \<noteq> t \<and> hget (states d) k = Some Pending \<and>
     (\<forall>dep. (k, dep) \<in> dep_rel d \<longrightarrow> dep = t \<or> completed d dep)}"

lemma becomes_ready_iff:
  assumes "graph_wf d"
  shows "becomes_ready (d\<lparr>states := hput t Completed (states d)\<rparr>) k \<and> k \<in> set (rdeps_of (rdeps d) t)
    \<longleftrightarrow> k \<in> newly_ready d t"
  using assms rdeps_dep_rel[OF assms, of k t]
  by (auto simp: becomes_ready_def newly_ready_def dep_rel_def completed_def all_deps_completed_def
        list_all_iff split: option.splits if_splits)

lemma mark_complete_effect:
  assumes ord: "iteration_order ord" and wf: "graph_wf d"
    and run: "mark_complete ord t d = (newly, d')"
  shows "set newly = newly_ready d t" "distinct newly"
    "ready_queue d' = ready_queue d @ newly"
    "hget (states d') k = (if k = t then Some Completed
       else if k \<in> newly_ready d t then Some Ready else hget (states d) k)"
    "distinct (hkeys (states d)) \<Longrightarrow> distinct (hkeys (states d'))"
    "fst ` set (states d') = insert t (fst ` set (states d))"
    "same_graph d d'"
proof -
  let ?d = "d\<lparr>states := hput t Completed (states d)\<rparr>"
  let ?xs = "ord (rdeps_of (rdeps d) t)"
  have dist: "distinct ?xs" using ord wf by (simp add: graph_wf_def)
  have post: "unblock_post ?xs ?d [] (newly, d')"
    using unblock_loop_post[OF dist] run by (metis mark_complete_def unblock_dependents_def
      HubDag.select_convs(3) HubDag.surjective HubDag.update_convs(2))
  have R: "set newly = newly_ready d t"
    using post becomes_ready_iff[OF wf, of t] ord by (auto simp: unblock_post_def Let_def)
  then show "set newly = newly_ready d t" .
  show "distinct newly" using post dist by (simp add: unblock_post_def Let_def)
  show "ready_queue d' = ready_queue d @ newly" using post by (simp add: unblock_post_def Let_def)
  have "t \<notin> newly_ready d t" by (simp add: newly_ready_def)
  then show "hget (states d') k = (if k = t then Some Completed
       else if k \<in> newly_ready d t then Some Ready else hget (states d) k)"
    using post R by (auto simp: unblock_post_def Let_def)
  show "distinct (hkeys (states d)) \<Longrightarrow> distinct (hkeys (states d'))"
    using post by (auto simp: unblock_post_def Let_def)
  show "fst ` set (states d') = insert t (fst ` set (states d))"
    using post by (simp add: unblock_post_def Let_def)
  show "same_graph d d'" using post by (simp add: unblock_post_def Let_def same_graph_def)
qed

lemma mark_complete_inv:
  assumes inv: "dag_inv d" and ord: "iteration_order ord"
    and t: "hget (states d) t = Some (Dispatched w)"
  shows "dag_inv (snd (mark_complete ord t d))"
proof -
  obtain newly d' where run: "mark_complete ord t d = (newly, d')" by fastforce
  note D = dag_invD[OF inv]
  note E = mark_complete_effect[OF ord D(1) run]
  have key: "t \<in> fst ` set (states d)" using t by (metis domI dom_map_of_conv_image_fst)
  have rel [simp]: "dep_rel d' = dep_rel d" by (rule same_graph_dep_rel[OF E(7)])
  have pend: "k \<in> newly_ready d t \<Longrightarrow> hget (states d) k = Some Pending" for k
    by (simp add: newly_ready_def)
  have c [simp]: "completed d' k \<longleftrightarrow> k = t \<or> completed d k" "failed d' k = failed d k" for k
    using pend[of k] t by (auto simp: completed_def failed_def E(4))
  have ok: "state_ok d' k s" if k: "hget (states d') k = Some s" for k s
  proof -
    consider (t) "k = t" "s = Completed" | (new) "k \<noteq> t" "k \<in> newly_ready d t" "s = Ready"
      | (old) "k \<noteq> t" "k \<notin> newly_ready d t" "hget (states d) k = Some s"
      using k by (auto simp: E(4) split: if_splits)
    then show ?thesis
    proof cases
      case t
      then show ?thesis using D(6)[OF assms(3)] by auto
    next
      case new
      then show ?thesis by (auto simp: newly_ready_def)
    next
      case old
      show ?thesis
      proof (cases s)
        case Pending
        then obtain dep where "(k, dep) \<in> dep_rel d" "\<not> completed d dep"
          using D(6)[OF old(3)] by auto
        then show ?thesis using old Pending by (auto simp: newly_ready_def)
      qed (use D(6)[OF old(3)] in auto)
    qed
  qed
  have "dag_inv d'"
    unfolding dag_inv_def
  proof (intro conjI)
    show "graph_wf d'" using D(1) same_graph_wf[OF E(7)] by blast
    show "distinct (hkeys (states d'))" using D E by blast
    show "fst ` set (states d') = fst ` set (tasks d')"
      using D(3) E(6,7) key by (auto simp: same_graph_def)
    show "distinct (ready_queue d')" using D(4,5) E(1,2,3) pend by auto
    show "set (ready_queue d') = {k. hget (states d') k = Some Ready}"
      using D(5) E(1,3,4) t pend[of t] by auto
    show "\<forall>k s. hget (states d') k = Some s \<longrightarrow> state_ok d' k s" using ok by blast
    show "\<forall>k dep. (k, dep) \<in> dep_rel d' \<longrightarrow> failed d' dep \<longrightarrow> failed d' k"
      using D(7) by simp
  qed
  then show ?thesis by (simp add: run)
qed

lemma is_failed_iff: "is_failed s \<longleftrightarrow> (\<exists>e. s = Failed e)"
  by (cases s) auto

text \<open>The tasks a failure of \<^verbatim>\<open>t\<close> takes down: its dependents, transitively, over tasks that
  had not settled.\<close>

definition cascade_set :: "HubDag \<Rightarrow> string \<Rightarrow> string set" where
  "cascade_set d t =
     {(a, b). (b, a) \<in> dep_rel d \<and> b \<noteq> t \<and> \<not> settled_at (states d) b}\<^sup>+ `` {t}"

lemma cascade_edges_start:
  assumes "graph_wf d"
  shows "cascade_edges (rdeps d) (hput t (Failed err) (states d)) =
    {(a, b). (b, a) \<in> dep_rel d \<and> b \<noteq> t \<and> \<not> settled_at (states d) b}"
  by (simp add: cascade_edges_def rdeps_dep_rel[OF assms])

lemma cascade_set_closed:
  assumes "a = t \<or> a \<in> cascade_set d t" "(b, a) \<in> dep_rel d" "b \<noteq> t" "\<not> settled_at (states d) b"
  shows "b \<in> cascade_set d t"
  using assms unfolding cascade_set_def by (auto intro: trancl_into_trancl)

lemma cascade_setD:
  assumes "b \<in> cascade_set d t"
  shows "b \<noteq> t" "\<not> settled_at (states d) b" "(b, t) \<in> (dep_rel d)\<^sup>+"
    "\<exists>a. (a = t \<or> a \<in> cascade_set d t) \<and> (b, a) \<in> dep_rel d"
proof -
  let ?E = "{(a, b). (b, a) \<in> dep_rel d \<and> b \<noteq> t \<and> \<not> settled_at (states d) b}"
  have tb: "(t, b) \<in> ?E\<^sup>+" using assms by (simp add: cascade_set_def)
  then have "b \<noteq> t \<and> \<not> settled_at (states d) b \<and> (b, t) \<in> (dep_rel d)\<^sup>+ \<and>
    (\<exists>a. (a = t \<or> a \<in> cascade_set d t) \<and> (b, a) \<in> dep_rel d)"
  proof (induction rule: trancl_induct)
    case (step y z)
    then have "y \<in> cascade_set d t" by (simp add: cascade_set_def)
    with step show ?case by (blast intro: trancl_into_trancl2)
  qed auto
  then show "b \<noteq> t" "\<not> settled_at (states d) b" "(b, t) \<in> (dep_rel d)\<^sup>+"
    "\<exists>a. (a = t \<or> a \<in> cascade_set d t) \<and> (b, a) \<in> dep_rel d" by auto
qed

lemma mark_failed_effect:
  assumes ord: "iteration_order ord" and wf: "graph_wf d"
    and run: "mark_failed ord t err d = (newly, d')"
  shows "set newly = cascade_set d t" "distinct newly"
    "k = t \<Longrightarrow> hget (states d') k = Some (Failed err)"
    "k \<in> cascade_set d t \<Longrightarrow> \<exists>c. (c = t \<or> c \<in> cascade_set d t) \<and> (k, c) \<in> dep_rel d \<and>
       hget (states d') k = Some (Failed (dep_failed_msg c))"
    "k \<noteq> t \<Longrightarrow> k \<notin> cascade_set d t \<Longrightarrow> hget (states d') k = hget (states d) k"
    "ready_queue d' = filter (\<lambda>x. \<not> failed d' x) (ready_queue d)"
    "distinct (hkeys (states d)) \<Longrightarrow> distinct (hkeys (states d'))"
    "fst ` set (states d') = insert t (fst ` set (states d) \<union> cascade_set d t)"
    "same_graph d d'"
proof -
  let ?st0 = "hput t (Failed err) (states d)"
  obtain st where c: "cascade ord (rdeps d) ?st0 [] [t] = (st, newly)"
    and d': "d' = d\<lparr>states := st, ready_queue := filter (\<lambda>x. \<not> (case hget st x of
        Some s \<Rightarrow> is_failed s | None \<Rightarrow> False)) (ready_queue d)\<rparr>"
    using run by (auto simp: mark_failed_def split: prod.splits)
  have t: "settled_at ?st0 t" by simp
  note R = cascade_result[OF ord t c]
  show set_newly: "set newly = cascade_set d t"
    using R(2) by (simp add: cascade_edges_start[OF wf] cascade_set_def)
  note I = cascade_invD[OF R(1)]
  show "distinct newly" by (rule I(1))
  have same: "hget st y = hget ?st0 y" if "y \<notin> cascade_set d t" for y
    using I(2) set_newly that by simp
  have notin: "t \<notin> cascade_set d t" using cascade_setD(1) by blast
  show "k = t \<Longrightarrow> hget (states d') k = Some (Failed err)"
    using same notin d' by simp
  show "k \<in> cascade_set d t \<Longrightarrow> \<exists>c. (c = t \<or> c \<in> cascade_set d t) \<and> (k, c) \<in> dep_rel d \<and>
       hget (states d') k = Some (Failed (dep_failed_msg c))"
  proof -
    assume "k \<in> cascade_set d t"
    then have "k \<in> set newly" using set_newly by simp
    then obtain c where "c \<in> insert t (set newly)" "k \<in> set (rdeps_of (rdeps d) c)"
        "hget st k = Some (Failed (dep_failed_msg c))"
      using I(3) by blast
    then show ?thesis using set_newly d' rdeps_dep_rel[OF wf, of k c] by (intro exI[of _ c]) simp
  qed
  show "k \<noteq> t \<Longrightarrow> k \<notin> cascade_set d t \<Longrightarrow> hget (states d') k = hget (states d) k"
    using same d' by simp
  have "states d' = st" by (simp add: d')
  then have f: "failed d' x = (case hget st x of Some s \<Rightarrow> is_failed s | None \<Rightarrow> False)" for x
    by (cases "hget st x") (simp_all add: failed_def is_failed_iff)
  show "ready_queue d' = filter (\<lambda>x. \<not> failed d' x) (ready_queue d)"
    unfolding f by (simp add: d')
  show "distinct (hkeys (states d)) \<Longrightarrow> distinct (hkeys (states d'))"
    using I(4) d' by simp
  show "fst ` set (states d') = insert t (fst ` set (states d) \<union> cascade_set d t)"
    using I(5) set_newly d' by simp
  show "same_graph d d'" by (simp add: same_graph_def d')
qed

lemma mark_failed_inv:
  assumes inv: "dag_inv d" and ord: "iteration_order ord"
    and t: "hget (states d) t = Some (Dispatched w)"
  shows "dag_inv (snd (mark_failed ord t err d))"
proof -
  obtain newly d' where run: "mark_failed ord t err d = (newly, d')" by fastforce
  note D = dag_invD[OF inv]
  note E = mark_failed_effect[OF ord D(1) run]
  let ?R = "cascade_set d t"
  have key: "t \<in> fst ` set (states d)" using t by (metis domI dom_map_of_conv_image_fst)
  have rel [simp]: "dep_rel d' = dep_rel d" by (rule same_graph_dep_rel[OF E(9)])
  have Rkey: "?R \<subseteq> fst ` set (states d)"
    using cascade_setD(4) D(3) by (fastforce simp: dep_rel_def dom_map_of_conv_image_fst[symmetric])
  have act: "\<not> completed d a" if "a = t \<or> a \<in> ?R" for a
    using that t cascade_setD(2)[of a d t] by (auto simp: completed_def settled_at_def)
  have pend: "hget (states d) b = Some Pending" if b: "b \<in> ?R" for b
  proof -
    obtain a where a: "a = t \<or> a \<in> ?R" "(b, a) \<in> dep_rel d" using cascade_setD(4)[OF b] by auto
    obtain s where s: "hget (states d) b = Some s"
      using Rkey b by (metis domD dom_map_of_conv_image_fst subsetD)
    then show ?thesis
      using dependent_pending[OF inv a(2) act[OF a(1)] s] cascade_setD(2)[OF b]
      by (auto simp: settled_at_def)
  qed
  have c [simp]: "completed d' k = completed d k" for k
    using E(3)[of k] E(4)[of k] E(5)[of k] act[of k] by (fastforce simp: completed_def)
  have f: "failed d' k \<longleftrightarrow> k = t \<or> k \<in> ?R \<or> failed d k" for k
    using E(3)[of k] E(4)[of k] E(5)[of k] by (fastforce simp: failed_def)
  have ok: "state_ok d' k s" if k: "hget (states d') k = Some s" for k s
  proof (cases "failed d' k")
    case True
    then show ?thesis using k by (auto simp: failed_def)
  next
    case False
    then have "hget (states d) k = Some s" using f E(5)[of k] k by auto
    from D(6)[OF this] show ?thesis by (cases s) auto
  qed
  have "dag_inv d'"
    unfolding dag_inv_def
  proof (intro conjI)
    show "graph_wf d'" using D(1) same_graph_wf[OF E(9)] by blast
    show "distinct (hkeys (states d'))" using D E by blast
    show "fst ` set (states d') = fst ` set (tasks d')"
      using D(3) E(8,9) key Rkey by (auto simp: same_graph_def)
    show "distinct (ready_queue d')" using D(4) E(6) by simp
    have "hget (states d') k = Some Ready \<longleftrightarrow> hget (states d) k = Some Ready" for k
    proof (cases "k = t \<or> k \<in> ?R")
      case True
      then show ?thesis using t pend[of k] E(3)[of k] E(4)[of k] by auto
    qed (use E(5) in auto)
    moreover have "\<not> failed d' k" if "hget (states d) k = Some Ready" for k
      using that f[of k] t pend[of k] by (auto simp: failed_def)
    ultimately show "set (ready_queue d') = {k. hget (states d') k = Some Ready}"
      using D(5) E(6) by auto
    show "\<forall>k s. hget (states d') k = Some s \<longrightarrow> state_ok d' k s" using ok by blast
    show "\<forall>k dep. (k, dep) \<in> dep_rel d' \<longrightarrow> failed d' dep \<longrightarrow> failed d' k"
    proof (intro allI impI)
      fix k dep assume kd: "(k, dep) \<in> dep_rel d'" and fd: "failed d' dep"
      show "failed d' k"
      proof (cases "dep = t \<or> dep \<in> ?R")
        case True
        show ?thesis
        proof (cases "settled_at (states d) k")
          case s: True
          then have "completed d k \<or> failed d k"
            by (auto simp: settled_at_def completed_def failed_def split: option.splits elim: is_settled.elims)
          then show ?thesis
            using f D(6)[of k Completed] kd act[OF True] by (auto simp: completed_def)
        next
          case False
          then show ?thesis using cascade_set_closed[OF True] kd f by auto
        qed
      next
        case False
        then show ?thesis using fd f D(7) kd by auto
      qed
    qed
  qed
  then show ?thesis by (simp add: run)
qed

end
