(* ===== verification/Hub_Server.thy ===== *)
theory Hub_Server
  imports Hub_Invariant
begin

text \<open>
  The hub's gRPC handlers (src/crates/hub/src/server.rs), which hold the lock on
  the task graph while they run: subscribing to work, reporting a completion,
  submitting a build, the status stream, ping and the shutdown test; and the
  task nodes \<^verbatim>\<open>rage hub\<close> builds from the workspace
  (src/crates/cli/src/main.rs, \<^verbatim>\<open>cmd_hub\<close>).  A run of the hub is a sequence of
  handler calls in which spokes report only work they were given.
\<close>

section \<open>Messages and state\<close>

record WorkerInfo =
  in_worker_id :: string
  in_token :: string

record WorkItem =
  wi_task_id :: string
  wi_package_name :: string
  wi_script_name :: string
  wi_command :: string
  wi_workspace_root :: string
  wi_package_path :: string
  wi_input_refs :: "string list"
  wi_cache_backend_url :: string
  wi_env :: "(string \<times> string) list"

record CompletionReport =
  cr_task_id :: string
  cr_worker_id :: string
  cr_success :: bool
  cr_exit_code :: int
  cr_stdout_tail :: string
  cr_stderr_tail :: string
  cr_output_sf_hash :: string

record Ack =
  ack_accepted :: bool
  ack_reason :: string

record BuildRequest =
  br_build_id :: string
  br_token :: string
  br_tasks :: "TaskNode list"

datatype Status = Unauthenticated string

datatype BuildEvent =
    BuildDone "32 word"
  | BuildFailed string string

record PingResponse =
  connected_spokes :: "32 word"
  pending_tasks :: "32 word"
  ping_build_id :: string

record HubState =
  dag :: HubDag
  build_id :: string

record HubServer =
  srv_token :: string
  srv_workspace :: string

section \<open>Handlers\<close>

definition hub_state_new :: "TaskNode list \<Rightarrow> string \<Rightarrow> HubState" where
  "hub_state_new ts bid = \<lparr>dag = dag_new ts, build_id = bid\<rparr>"

definition build_work_item :: "HubServer \<Rightarrow> TaskNode \<Rightarrow> WorkItem" where
  "build_work_item srv t =
    \<lparr>wi_task_id = task_id t, wi_package_name = package_name t, wi_script_name = script_name t,
     wi_command = tn_command t, wi_workspace_root = srv_workspace srv,
     wi_package_path = package_path t, wi_input_refs = [], wi_cache_backend_url = [], wi_env = []\<rparr>"

definition subscribe_open :: "HubServer \<Rightarrow> WorkerInfo \<Rightarrow> Status + string" where
  "subscribe_open srv info =
     (if in_token info \<noteq> srv_token srv then Inl (Unauthenticated ''invalid token'')
      else Inr (in_worker_id info))"

datatype Poll = StreamEnd | Yield WorkItem | Wait

text \<open>One turn of the stream's loop up to its first suspension, under the lock; after a
  wait the loop tests \<^verbatim>\<open>is_done\<close> again before its next turn.\<close>

definition subscribe_poll :: "HubServer \<Rightarrow> string \<Rightarrow> HubState \<Rightarrow> Poll \<times> HubState" where
  "subscribe_poll srv worker s =
     (if is_done (dag s) then (StreamEnd, s)
      else case dispatch_next worker (dag s) of
        (Some t, d) \<Rightarrow> (Yield (build_work_item srv t), s\<lparr>dag := d\<rparr>)
      | (None, d) \<Rightarrow> (Wait, s\<lparr>dag := d\<rparr>))"

definition subscribe_recheck :: "HubState \<Rightarrow> Poll option" where
  "subscribe_recheck s = (if is_done (dag s) then Some StreamEnd else None)"

definition hub_complete ::
    "(string list \<Rightarrow> string list) \<Rightarrow> CompletionReport \<Rightarrow> HubState \<Rightarrow> Ack \<times> HubState" where
  "hub_complete ord r s =
     (\<lparr>ack_accepted = True, ack_reason = []\<rparr>,
      s\<lparr>dag := snd (if cr_success r then mark_complete ord (cr_task_id r) (dag s)
                    else mark_failed ord (cr_task_id r) (cr_stderr_tail r) (dag s))\<rparr>)"

definition submit_build :: "HubServer \<Rightarrow> BuildRequest \<Rightarrow> HubState \<Rightarrow> (Status + unit) \<times> HubState" where
  "submit_build srv req s =
     (if br_token req \<noteq> srv_token srv then (Inl (Unauthenticated ''invalid token''), s)
      else (Inr (), s\<lparr>dag := dag_new (br_tasks req), build_id := br_build_id req\<rparr>))"

type_synonym state_order = "(string \<times> TaskState) list \<Rightarrow> (string \<times> TaskState) list"

definition submit_poll :: "state_order \<Rightarrow> HubState \<Rightarrow> BuildEvent option" where
  "submit_poll sord s =
     (if is_done (dag s) then
        (if has_failure (dag s) then
           (case first_failure sord (dag s) of
              Some (i, e) \<Rightarrow> Some (BuildFailed i e)
            | None \<Rightarrow> Some (BuildFailed ''unknown'' ''build failed''))
         else Some (BuildDone (of_nat (total_tasks (dag s)))))
      else None)"

definition hub_ping :: "HubState \<Rightarrow> PingResponse" where
  "hub_ping s = (let st = dag_stats (dag s) in
     \<lparr>connected_spokes = 0,
      pending_tasks = of_nat (st_pending st + st_ready st + st_dispatched st),
      ping_build_id = build_id s\<rparr>)"

definition shutdown_ready :: "HubState \<Rightarrow> bool" where
  "shutdown_ready s = is_done (dag s)"

text \<open>The result of \<^verbatim>\<open>serve\<close> once the server has shut down.\<close>

definition serve_result :: "state_order \<Rightarrow> HubState \<Rightarrow> (string \<times> string) + unit" where
  "serve_result sord s =
     (if has_failure (dag s) then
        Inl (case first_failure sord (dag s) of Some f \<Rightarrow> f | None \<Rightarrow> (''unknown'', ''build failed''))
      else Inr ())"

section \<open>The task nodes of \<^verbatim>\<open>rage hub\<close>\<close>

record HubPackage =
  hp_name :: string
  hp_path :: string
  hp_dependencies :: "string list"

definition hub_task_id :: "string \<Rightarrow> string \<Rightarrow> string" where
  "hub_task_id pkg script = pkg @ ''#'' @ script"

text \<open>\<^verbatim>\<open>scripts\<close> reads the \<^verbatim>\<open>scripts\<close> object of the package's manifest (None: no readable
  manifest or no such object; a script that is not a string is absent); \<^verbatim>\<open>relative\<close> is
  \<^verbatim>\<open>strip_prefix(workspace)\<close>.\<close>

definition hub_node :: "(string \<Rightarrow> (string \<Rightarrow> string option) option) \<Rightarrow> (string \<Rightarrow> string option)
    \<Rightarrow> string \<Rightarrow> HubPackage \<Rightarrow> TaskNode option" where
  "hub_node scripts relative script pkg =
     (case scripts (hp_path pkg @ ''/package.json'') of
        None \<Rightarrow> None
      | Some ss \<Rightarrow> (case ss script of
          None \<Rightarrow> None
        | Some cmd \<Rightarrow> Some
            \<lparr>task_id = hub_task_id (hp_name pkg) script, package_name = hp_name pkg,
             script_name = script, tn_command = cmd,
             package_path = (case relative (hp_path pkg) of Some r \<Rightarrow> r | None \<Rightarrow> hp_path pkg),
             depends_on = map (\<lambda>dep. hub_task_id dep script) (hp_dependencies pkg)\<rparr>))"

definition hub_task_nodes :: "(string \<Rightarrow> (string \<Rightarrow> string option) option) \<Rightarrow> (string \<Rightarrow> string option)
    \<Rightarrow> string \<Rightarrow> HubPackage list \<Rightarrow> string + TaskNode list" where
  "hub_task_nodes scripts relative script pkgs =
     (let ns = List.map_filter (hub_node scripts relative script) pkgs in
      if ns = [] then Inl (''No packages have a '' @ CHR 39 # script @ CHR 39 # '' script'')
      else Inr ns)"

section \<open>Runs of the hub\<close>

inductive hub_run ::
    "(string list \<Rightarrow> string list) \<Rightarrow> HubServer \<Rightarrow> (string \<Rightarrow> bool) \<Rightarrow> HubState
      \<Rightarrow> nat \<Rightarrow> string list \<Rightarrow> HubState \<Rightarrow> bool"
  for ord srv ok s0 where
  start: "hub_run ord srv ok s0 0 [] s0"
| poll: "hub_run ord srv ok s0 n tr s \<Longrightarrow> subscribe_poll srv w s = (Yield item, s') \<Longrightarrow>
    hub_run ord srv ok s0 (Suc n) (tr @ [wi_task_id item]) s'"
| report: "hub_run ord srv ok s0 n tr s \<Longrightarrow>
    hget (states (dag s)) (cr_task_id r) = Some (Dispatched w) \<Longrightarrow>
    cr_success r = ok (cr_task_id r) \<Longrightarrow>
    hub_run ord srv ok s0 (Suc n) tr (snd (hub_complete ord r s))"

subsection \<open>Single steps\<close>

lemma has_key: "hget m k = Some v \<Longrightarrow> k \<in> fst ` set m"
  by (metis domI dom_map_of_conv_image_fst)

lemma is_done_iff:
  "distinct (hkeys (states d)) \<Longrightarrow> is_done d \<longleftrightarrow> (\<forall>k s. hget (states d) k = Some s \<longrightarrow> is_settled s)"
  unfolding is_done_def by (rule hvals_all_iff)

lemma poll_yieldE:
  assumes "subscribe_poll srv w s = (Yield item, s')" "dag_inv (dag s)"
  obtains n q where "ready_queue (dag s) = wi_task_id item # q"
    "hget (tasks (dag s)) (wi_task_id item) = Some n"
    "item = build_work_item srv n" "s' = s\<lparr>dag := snd (dispatch_next w (dag s))\<rparr>"
    "hget (states (dag s)) (wi_task_id item) = Some Ready"
proof -
  obtain t q where q: "ready_queue (dag s) = t # q"
    using assms(1) by (auto simp: subscribe_poll_def dispatch_next_def split: if_splits list.splits)
  then have r: "hget (states (dag s)) t = Some Ready" using dag_invD(5)[OF assms(2)] by auto
  then obtain n where n: "hget (tasks (dag s)) t = Some n" using state_has_task[OF assms(2)] by blast
  then have tid: "task_id n = t" using dag_invD(1)[OF assms(2)] by (auto simp: graph_wf_def)
  have "item = build_work_item srv n" "s' = s\<lparr>dag := snd (dispatch_next w (dag s))\<rparr>"
    using assms(1) q n by (auto simp: subscribe_poll_def dispatch_next_def split: if_splits)
  moreover have "wi_task_id (build_work_item srv n) = t" by (simp add: build_work_item_def tid)
  ultimately show thesis using that q n r by blast
qed

lemma poll_ready:
  assumes "dag_inv (dag s)" "hget (states (dag s)) k = Some Ready"
  shows "\<exists>item s'. subscribe_poll srv w s = (Yield item, s')"
proof -
  have "k \<in> set (ready_queue (dag s))" using assms dag_invD(5) by blast
  then obtain t q where q: "ready_queue (dag s) = t # q" by (cases "ready_queue (dag s)") auto
  then have r: "hget (states (dag s)) t = Some Ready" using dag_invD(5)[OF assms(1)] by auto
  then obtain n where n: "hget (tasks (dag s)) t = Some n" using state_has_task[OF assms(1)] by blast
  have "\<not> is_done (dag s)"
    using assms by (force simp: is_done_iff[OF dag_invD(2)])
  with q n show ?thesis by (simp add: subscribe_poll_def dispatch_next_def)
qed

lemma poll_step:
  assumes "subscribe_poll srv w s = (Yield item, s')" "dag_inv (dag s)"
  shows "dag_inv (dag s')" "same_graph (dag s) (dag s')"
    "hget (states (dag s')) k =
       (if k = wi_task_id item then Some (Dispatched w) else hget (states (dag s)) k)"
    "fst ` set (states (dag s')) = fst ` set (states (dag s))"
proof -
  obtain n q where q: "ready_queue (dag s) = wi_task_id item # q"
    and s': "s' = s\<lparr>dag := snd (dispatch_next w (dag s))\<rparr>"
    using poll_yieldE[OF assms] by metis
  show "dag_inv (dag s')" using dispatch_next_inv[OF assms(2)] s' by simp
  show g: "same_graph (dag s) (dag s')" using dispatch_next_graph s' by simp
  show "hget (states (dag s')) k =
       (if k = wi_task_id item then Some (Dispatched w) else hget (states (dag s)) k)"
    using dispatch_next_states[OF q] s' by simp
  show "fst ` set (states (dag s')) = fst ` set (states (dag s))"
    using \<open>dag_inv (dag s')\<close> assms(2) g dag_invD(3) by (auto simp: same_graph_def)
qed

lemma complete_step:
  assumes ord: "iteration_order ord" and inv: "dag_inv (dag s)"
    and t: "hget (states (dag s)) (cr_task_id r) = Some (Dispatched w)"
  shows "dag_inv (dag (snd (hub_complete ord r s)))"
    and "same_graph (dag s) (dag (snd (hub_complete ord r s)))"
proof -
  show i: "dag_inv (dag (snd (hub_complete ord r s)))"
    using mark_complete_inv[OF inv ord t] mark_failed_inv[OF inv ord t] by (simp add: hub_complete_def)
  show "same_graph (dag s) (dag (snd (hub_complete ord r s)))"
    using mark_complete_graph[OF ord dag_invD(1)[OF inv]]
      mark_failed_effect(9)[OF ord dag_invD(1)[OF inv]]
    by (simp add: hub_complete_def) (metis prod.collapse)
qed

lemma run_inv:
  assumes ord: "iteration_order ord" and inv: "dag_inv (dag s0)"
    and run: "hub_run ord srv ok s0 n tr s"
  shows "dag_inv (dag s)" and "same_graph (dag s0) (dag s)"
proof -
  from run have "dag_inv (dag s) \<and> same_graph (dag s0) (dag s)"
  proof induction
    case (poll n tr s w item s')
    then show ?case using poll_step(1,2) same_graph_trans by blast
  next
    case (report n tr s r w)
    then show ?case using complete_step[OF ord] same_graph_trans by blast
  qed (simp add: inv)
  then show "dag_inv (dag s)" and "same_graph (dag s0) (dag s)" by auto
qed

text \<open>What a report does to the state of each task.\<close>

lemma complete_states:
  assumes ord: "iteration_order ord" and wf: "graph_wf (dag s)" and succ: "cr_success r"
  shows "hget (states (dag (snd (hub_complete ord r s)))) k =
    (if k = cr_task_id r then Some Completed
     else if k \<in> newly_ready (dag s) (cr_task_id r) then Some Ready else hget (states (dag s)) k)"
  using mark_complete_effect(4)[OF ord wf] succ
  by (simp add: hub_complete_def) (metis prod.collapse)

lemma fail_states:
  assumes ord: "iteration_order ord" and wf: "graph_wf (dag s)" and fl: "\<not> cr_success r"
  shows "k = cr_task_id r \<or> k \<in> cascade_set (dag s) (cr_task_id r) \<Longrightarrow>
      failed (dag (snd (hub_complete ord r s))) k"
    and "k \<noteq> cr_task_id r \<Longrightarrow> k \<notin> cascade_set (dag s) (cr_task_id r) \<Longrightarrow>
      hget (states (dag (snd (hub_complete ord r s)))) k = hget (states (dag s)) k"
proof -
  obtain nw d' where m: "mark_failed ord (cr_task_id r) (cr_stderr_tail r) (dag s) = (nw, d')"
    by fastforce
  note E = mark_failed_effect[OF ord wf m]
  have d': "dag (snd (hub_complete ord r s)) = d'" using fl m by (simp add: hub_complete_def)
  show "k = cr_task_id r \<or> k \<in> cascade_set (dag s) (cr_task_id r) \<Longrightarrow>
      failed (dag (snd (hub_complete ord r s))) k"
    using E(3)[of k] E(4)[of k] by (auto simp: failed_def d')
  show "k \<noteq> cr_task_id r \<Longrightarrow> k \<notin> cascade_set (dag s) (cr_task_id r) \<Longrightarrow>
      hget (states (dag (snd (hub_complete ord r s)))) k = hget (states (dag s)) k"
    using E(5)[of k] by (simp add: d')
qed

subsection \<open>Outcome of a run\<close>

text \<open>The abstract outcome of a build: a task succeeds when it and everything it needs does.\<close>

definition should_succeed :: "(string \<Rightarrow> bool) \<Rightarrow> HubDag \<Rightarrow> string \<Rightarrow> bool" where
  "should_succeed ok d k \<longleftrightarrow> (\<forall>u. (k, u) \<in> (dep_rel d)\<^sup>* \<longrightarrow> ok u)"

lemma run_outcome:
  assumes ord: "iteration_order ord" and wf: "wf_nodes ts"
    and run: "hub_run ord srv ok (hub_state_new ts bid) n tr s"
  shows "completed (dag s) k \<Longrightarrow> ok k" and "failed (dag s) k \<Longrightarrow> \<not> should_succeed ok (dag s) k"
proof -
  note inv0 = dag_new_inv[OF wf, folded HubState.select_convs(1)[of _ bid, folded hub_state_new_def]]
  from run have "(completed (dag s) k \<longrightarrow> ok k) \<and> (failed (dag s) k \<longrightarrow> \<not> should_succeed ok (dag s) k)"
  proof (induction arbitrary: k)
    case start
    show ?case using wf by (auto simp: hub_state_new_def completed_def failed_def dag_new_states
        initial_state_def split: if_splits)
  next
    case (poll n tr s w item s')
    note inv = run_inv(1)[OF ord _ poll(1)] and st = poll_step[OF poll(2)]
    have i: "dag_inv (dag s)" using inv inv0 by (simp add: hub_state_new_def)
    have "completed (dag s') k \<longrightarrow> completed (dag s) k" "failed (dag s') k \<longrightarrow> failed (dag s) k"
      using st(3)[OF i, of k] by (auto simp: completed_def failed_def)
    then show ?case using poll.IH[of k] same_graph_dep_rel[OF st(2)[OF i]]
      by (auto simp: should_succeed_def)
  next
    case (report n tr s r w)
    let ?s = "snd (hub_complete ord r s)" and ?t = "cr_task_id r"
    have i: "dag_inv (dag s)"
      using run_inv(1)[OF ord _ report(1)] inv0 by (simp add: hub_state_new_def)
    note wfg = dag_invD(1)[OF i]
    have rel: "dep_rel (dag ?s) = dep_rel (dag s)"
      by (rule same_graph_dep_rel[OF complete_step(2)[OF ord i report(2)]])
    show ?case
    proof (cases "cr_success r")
      case True
      have "completed (dag ?s) k \<longrightarrow> k = ?t \<or> completed (dag s) k"
           "failed (dag ?s) k \<longrightarrow> failed (dag s) k"
        using complete_states[OF ord wfg True, of k] by (auto simp: completed_def failed_def split: if_splits)
      then show ?thesis using report.IH[of k] report(3) True rel by (auto simp: should_succeed_def)
    next
      case False
      note F = fail_states[OF ord wfg False, of k]
      have "completed (dag ?s) k \<longrightarrow> completed (dag s) k"
      proof (cases "k = ?t \<or> k \<in> cascade_set (dag s) ?t")
        case True
        then show ?thesis using F(1) by (auto simp: completed_def failed_def)
      qed (use F(2) in \<open>simp add: completed_def\<close>)
      moreover have "\<not> should_succeed ok (dag ?s) k" if f: "failed (dag ?s) k"
      proof (cases "k = ?t \<or> k \<in> cascade_set (dag s) ?t")
        case True
        then have "(k, ?t) \<in> (dep_rel (dag s))\<^sup>*"
          using cascade_setD(3)[of k] by (auto intro: trancl_into_rtrancl)
        then show ?thesis using report(3) False rel by (auto simp: should_succeed_def)
      next
        case False
        then show ?thesis using F(2) f report.IH[of k] rel by (auto simp: failed_def should_succeed_def)
      qed
      ultimately show ?thesis using report.IH[of k] by blast
    qed
  qed
  then show "completed (dag s) k \<Longrightarrow> ok k" and "failed (dag s) k \<Longrightarrow> \<not> should_succeed ok (dag s) k"
    by auto
qed

lemma completed_closed:
  assumes "dag_inv d" "completed d k" "(k, u) \<in> (dep_rel d)\<^sup>*"
  shows "completed d u"
  using assms(3,2)
proof (induction rule: rtrancl_induct)
  case (step y z)
  then have "hget (states d) y = Some Completed" by (simp add: completed_def)
  from dag_invD(6)[OF assms(1) this] step(2) show ?case by simp
qed

lemma new_dep_rel:
  "wf_nodes ts \<Longrightarrow> dep_rel (dag_new ts) = {(task_id n, dep) | n dep. n \<in> set ts \<and> dep \<in> set (depends_on n)}"
  by (auto simp: dep_rel_def dag_new_tasks)

lemma new_inv: "wf_nodes ts \<Longrightarrow> dag_inv (dag (hub_state_new ts bid))"
  by (simp add: hub_state_new_def dag_new_inv)

subsection \<open>Progress\<close>

fun weight :: "TaskState option \<Rightarrow> nat" where
  "weight (Some Pending) = 2"
| "weight (Some Ready) = 2"
| "weight (Some (Dispatched _)) = 1"
| "weight _ = 0"

definition hub_weight :: "HubDag \<Rightarrow> nat" where
  "hub_weight d = (\<Sum>k\<in>fst ` set (states d). weight (hget (states d) k))"

lemma hub_weight_less:
  assumes "fst ` set (states d') = fst ` set (states d)" "t \<in> fst ` set (states d)"
    "\<And>k. weight (hget (states d') k) \<le> weight (hget (states d) k)"
    "weight (hget (states d') t) < weight (hget (states d) t)"
  shows "hub_weight d' < hub_weight d"
  unfolding hub_weight_def assms(1)
  by (rule sum_strict_mono_ex1) (use assms in auto)

lemma weight_settled [simp]: "failed d k \<Longrightarrow> weight (hget (states d) k) = 0"
  by (auto simp: failed_def)

lemma poll_weight:
  assumes "subscribe_poll srv w s = (Yield item, s')" "dag_inv (dag s)"
  shows "hub_weight (dag s') < hub_weight (dag s)"
proof -
  have r: "hget (states (dag s)) (wi_task_id item) = Some Ready"
    using poll_yieldE[OF assms] by metis
  show ?thesis
    by (rule hub_weight_less[OF poll_step(4)[OF assms] has_key[OF r]])
       (use poll_step(3)[OF assms] r in auto)
qed

lemma complete_weight:
  assumes ord: "iteration_order ord" and inv: "dag_inv (dag s)"
    and t: "hget (states (dag s)) (cr_task_id r) = Some (Dispatched w)"
  shows "hub_weight (dag (snd (hub_complete ord r s))) < hub_weight (dag s)"
proof -
  let ?d = "dag (snd (hub_complete ord r s))"
  note wf = dag_invD(1)[OF inv]
  note st = complete_step[OF ord inv t]
  have keys: "fst ` set (states ?d) = fst ` set (states (dag s))"
    using dag_invD(3)[OF inv] dag_invD(3)[OF st(1)] st(2) by (simp add: same_graph_def)
  have "weight (hget (states ?d) k) \<le> weight (hget (states (dag s)) k) \<and>
        weight (hget (states ?d) (cr_task_id r)) = 0" for k
  proof (cases "cr_success r")
    case True
    then show ?thesis using complete_states[OF ord wf True] by (auto simp: newly_ready_def)
  next
    case False
    note F = fail_states[OF ord wf False]
    have "weight (hget (states ?d) k) \<le> weight (hget (states (dag s)) k)"
      by (cases "k = cr_task_id r \<or> k \<in> cascade_set (dag s) (cr_task_id r)")
         (use F weight_settled in auto)
    then show ?thesis using F(1)[of "cr_task_id r"] by simp
  qed
  then show ?thesis using hub_weight_less[OF keys has_key[OF t]] t by simp
qed

lemma run_weight:
  assumes "iteration_order ord" "dag_inv (dag s0)" "hub_run ord srv ok s0 n tr s"
  shows "n + hub_weight (dag s) \<le> hub_weight (dag s0)"
  using assms(3)
proof induction
  case (poll n tr s w item s')
  then show ?case using poll_weight[OF poll(2)] run_inv(1)[OF assms(1,2) poll(1)] by force
next
  case (report n tr s r w)
  then show ?case using complete_weight[OF assms(1) _ report(2)] run_inv(1)[OF assms(1,2) report(1)] by force
qed simp

lemma weight_le: "weight s \<le> 2"
  by (cases s rule: weight.cases) auto

lemma hub_weight_bound:
  assumes "distinct (hkeys (states d))"
  shows "hub_weight d \<le> 2 * length (states d)"
proof -
  have "hub_weight d \<le> (\<Sum>k\<in>fst ` set (states d). 2)"
    unfolding hub_weight_def by (rule sum_mono) (rule weight_le)
  also have "\<dots> = 2 * length (states d)"
    using distinct_card[OF assms] by simp
  finally show ?thesis .
qed

text \<open>Without a cycle and without a dangling dependency, an unfinished build has a task that
  is ready or in the hands of a spoke.\<close>

lemma active_task:
  assumes inv: "dag_inv d" and ac: "acyclic (dep_rel d)" and fin: "finite (dep_rel d)"
    and closed: "\<And>k dep. (k, dep) \<in> dep_rel d \<Longrightarrow> \<exists>n. hget (tasks d) dep = Some n"
    and nd: "\<not> is_done d"
  shows "\<exists>k. hget (states d) k = Some Ready \<or> (\<exists>w. hget (states d) k = Some (Dispatched w))"
proof -
  have pend: "hget (states d) k = Some Pending \<Longrightarrow>
    \<exists>k. hget (states d) k = Some Ready \<or> (\<exists>w. hget (states d) k = Some (Dispatched w))" for k
  proof (induction k rule: wf_induct_rule[OF finite_acyclic_wf_converse[OF fin ac]])
    case (1 k)
    then obtain dep where dep: "(k, dep) \<in> dep_rel d" "\<not> completed d dep"
      using dag_invD(6)[OF inv] by fastforce
    obtain s where s: "hget (states d) dep = Some s" using closed[OF dep(1)] key_has_state[OF inv] by blast
    have "\<not> failed d k" using 1 by (simp add: failed_def)
    then have "\<not> failed d dep" using dag_invD(7)[OF inv dep(1)] by blast
    then show ?case using s dep 1 by (cases s) (auto simp: completed_def failed_def)
  qed
  from nd obtain k s where "hget (states d) k = Some s" "\<not> is_settled s"
    using is_done_iff[OF dag_invD(2)[OF inv]] by blast
  then show ?thesis using pend by (cases s) auto
qed

end
