(* ===== verification/Hub_Properties.thy ===== *)
theory Hub_Properties
  imports Hub_Server
begin

text \<open>
  The properties of the hub: what a build computes, that it finishes, that work is
  handed out safely, how failures spread, and where the protocol loses progress.
\<close>

text \<open>A concrete graph and run for the witnesses: \<^verbatim>\<open>app\<close> needs \<^verbatim>\<open>lib\<close>.\<close>

definition ex_node :: "string \<Rightarrow> string list \<Rightarrow> TaskNode" where
  "ex_node i deps = \<lparr>task_id = i, package_name = i, script_name = ''build'', tn_command = ''tsc'',
     package_path = i, depends_on = deps\<rparr>"

definition ex_srv :: HubServer where
  "ex_srv = \<lparr>srv_token = ''tok'', srv_workspace = ''/w''\<rparr>"

definition ex_report :: "string \<Rightarrow> bool \<Rightarrow> CompletionReport" where
  "ex_report i b = \<lparr>cr_task_id = i, cr_worker_id = ''w1'', cr_success = b, cr_exit_code = 0,
     cr_stdout_tail = [], cr_stderr_tail = ''boom'', cr_output_sf_hash = []\<rparr>"

definition ex_ts :: "TaskNode list" where
  "ex_ts = [ex_node ''lib'' [], ex_node ''app'' [''lib'']]"

abbreviation ex_s0 :: HubState where "ex_s0 \<equiv> hub_state_new ex_ts ''b''"

definition ex_s1 :: HubState where "ex_s1 = snd (subscribe_poll ex_srv ''w1'' ex_s0)"
definition ex_s2 :: HubState where "ex_s2 = snd (hub_complete (\<lambda>xs. xs) (ex_report ''lib'' True) ex_s1)"
definition ex_s2f :: HubState where "ex_s2f = snd (hub_complete (\<lambda>xs. xs) (ex_report ''lib'' False) ex_s1)"

lemmas ex_defs = ex_node_def ex_srv_def ex_report_def ex_ts_def hub_state_new_def

lemma ex_wf: "wf_nodes ex_ts"
  by (simp add: wf_nodes_def ex_defs)

lemma ex_s0_eq: "ex_s0 = \<lparr>dag = \<lparr>tasks = [(''lib'', ex_node ''lib'' []), (''app'', ex_node ''app'' [''lib''])],
    states = [(''lib'', Ready), (''app'', Pending)],
    rdeps = [(''lib'', [''app'']), (''app'', [])], ready_queue = [''lib'']\<rparr>, build_id = ''b''\<rparr>"
  by (simp add: ex_defs dag_new_def initial_state_def rdeps_touch_def rdeps_add_def rdeps_of_def set_insert_def)

lemma ex_poll: "subscribe_poll ex_srv ''w1'' ex_s0 = (Yield (build_work_item ex_srv (ex_node ''lib'' [])), ex_s1)"
  by (simp add: ex_s1_def ex_s0_eq subscribe_poll_def is_done_def dispatch_next_def)

lemma ex_s1_eq: "ex_s1 = \<lparr>dag = \<lparr>tasks = [(''lib'', ex_node ''lib'' []), (''app'', ex_node ''app'' [''lib''])],
    states = [(''lib'', Dispatched ''w1''), (''app'', Pending)],
    rdeps = [(''lib'', [''app'']), (''app'', [])], ready_queue = []\<rparr>, build_id = ''b''\<rparr>"
  by (simp add: ex_s1_def ex_s0_eq subscribe_poll_def is_done_def dispatch_next_def)

lemma ex_s2_eq: "ex_s2 = \<lparr>dag = \<lparr>tasks = [(''lib'', ex_node ''lib'' []), (''app'', ex_node ''app'' [''lib''])],
    states = [(''lib'', Completed), (''app'', Ready)],
    rdeps = [(''lib'', [''app'']), (''app'', [])], ready_queue = [''app'']\<rparr>, build_id = ''b''\<rparr>"
  by (simp add: ex_s2_def ex_s1_eq hub_complete_def mark_complete_def unblock_dependents_def
      rdeps_of_def all_deps_completed_def ex_report_def ex_node_def)

lemma ex_s2f_eq: "ex_s2f = \<lparr>dag = \<lparr>tasks = [(''lib'', ex_node ''lib'' []), (''app'', ex_node ''app'' [''lib''])],
    states = [(''lib'', Failed ''boom''), (''app'', Failed ''dependency lib failed'')],
    rdeps = [(''lib'', [''app'']), (''app'', [])], ready_queue = []\<rparr>, build_id = ''b''\<rparr>"
  by (simp add: ex_s2f_def ex_s1_eq hub_complete_def mark_failed_def
      rdeps_of_def settled_at_def dep_failed_msg_def ex_report_def ex_node_def)

lemma ex_run1: "hub_run (\<lambda>xs. xs) ex_srv ok ex_s0 1 [''lib''] ex_s1"
  using hub_run.poll[OF hub_run.start ex_poll] by (simp add: build_work_item_def ex_node_def)

lemma ex_run2: "hub_run (\<lambda>xs. xs) ex_srv (\<lambda>_. True) ex_s0 2 [''lib''] ex_s2"
  using hub_run.report[OF ex_run1, of "ex_report ''lib'' True" "''w1''"]
  by (simp add: ex_s1_eq ex_s2_def ex_report_def numeral_2_eq_2)

lemma ex_run2f: "hub_run (\<lambda>xs. xs) ex_srv (\<lambda>k. k \<noteq> ''lib'') ex_s0 2 [''lib''] ex_s2f"
  using hub_run.report[OF ex_run1, of "ex_report ''lib'' False" "''w1''"]
  by (simp add: ex_s1_eq ex_s2f_def ex_report_def numeral_2_eq_2)

section \<open>What a build computes\<close>

lemma run_dep_rel:
  assumes "iteration_order ord" "wf_nodes ts" "hub_run ord srv ok (hub_state_new ts bid) n tr s"
  shows "dag_inv (dag s)" "dep_rel (dag s) = dep_rel (dag_new ts)" "tasks (dag s) = tasks (dag_new ts)"
  using run_inv[OF assms(1) new_inv[OF assms(2)] assms(3)]
  by (simp_all add: same_graph_dep_rel hub_state_new_def) (simp_all add: same_graph_def)

text \<open>C1. The outcome of a distributed build does not depend on the schedule: whatever spokes take
  which task in which order, and whatever order the hash tables iterate in, when the hub is done a
  task is Completed exactly if it and all its transitive dependencies succeed, and Failed otherwise.\<close>
theorem hub_outcome:
  assumes "iteration_order ord" "wf_nodes ts"
    "hub_run ord srv ok (hub_state_new ts bid) n tr s" "is_done (dag s)" "t \<in> set ts"
  shows "(hget (states (dag s)) (task_id t) = Some Completed \<longleftrightarrow> should_succeed ok (dag_new ts) (task_id t)) \<and>
    ((\<exists>e. hget (states (dag s)) (task_id t) = Some (Failed e)) \<longleftrightarrow> \<not> should_succeed ok (dag_new ts) (task_id t))"
proof -
  note R = run_dep_rel[OF assms(1-3)]
  have same: "should_succeed ok (dag s) = should_succeed ok (dag_new ts)"
    by (simp add: fun_eq_iff should_succeed_def R(2))
  have "hget (tasks (dag s)) (task_id t) = Some t" using assms(2,5) by (simp add: R(3) dag_new_tasks)
  then obtain st where st: "hget (states (dag s)) (task_id t) = Some st" using key_has_state[OF R(1)] by blast
  then have settled: "is_settled st" using assms(4) is_done_iff[OF dag_invD(2)[OF R(1)]] by blast
  have c: "completed (dag s) (task_id t) \<Longrightarrow> should_succeed ok (dag s) (task_id t)"
    using completed_closed[OF R(1)] run_outcome(1)[OF assms(1-3)] by (auto simp: should_succeed_def)
  have f: "failed (dag s) (task_id t) \<Longrightarrow> \<not> should_succeed ok (dag s) (task_id t)"
    by (rule run_outcome(2)[OF assms(1-3)])
  show ?thesis using st settled c f same
    by (cases st) (auto simp: completed_def failed_def)
qed

theorem hub_outcome_witness:
  "hget (states (dag ex_s2f)) ''app'' = Some (Failed ''dependency lib failed'') \<and>
   \<not> should_succeed (\<lambda>k. k \<noteq> ''lib'') (dag_new ex_ts) ''app''"
  using hub_outcome[OF iteration_order_id ex_wf ex_run2f, of "ex_node ''app'' [''lib'']"]
  by (simp add: ex_s2f_eq is_done_def ex_ts_def) (simp add: ex_node_def)

text \<open>C33. Every state of the hub that a build reaches is well formed: its graph is the submitted one, with reverse
  edges that match it; every task has a state that its dependencies allow; the ready queue lists exactly the Ready
  tasks, once each; and a failure has reached every dependent.\<close>
theorem hub_state_typed:
  assumes "iteration_order ord" "wf_nodes ts" "hub_run ord srv ok (hub_state_new ts bid) n tr s"
  shows "dag_inv (dag s) \<and> tasks (dag s) = tasks (dag_new ts) \<and> dep_rel (dag s) = dep_rel (dag_new ts)"
  using run_dep_rel[OF assms] by simp

theorem hub_state_typed_witness:
  "dag_inv (dag ex_s2f) \<and> ready_queue (dag ex_s2f) = [] \<and> tasks (dag ex_s2f) = tasks (dag_new ex_ts)"
proof -
  have "ready_queue (dag ex_s2f) = []" by (simp add: ex_s2f_eq)
  then show ?thesis using hub_state_typed[OF iteration_order_id ex_wf ex_run2f] by blast
qed

section \<open>Progress and termination\<close>

definition closed_nodes :: "TaskNode list \<Rightarrow> bool" where
  "closed_nodes ts \<longleftrightarrow> (\<forall>t\<in>set ts. set (depends_on t) \<subseteq> task_id ` set ts)"

lemma new_dep_rel_finite: "wf_nodes ts \<Longrightarrow> finite (dep_rel (dag_new ts))"
proof -
  assume "wf_nodes ts"
  then have "dep_rel (dag_new ts) = (\<Union>n\<in>set ts. (\<lambda>dep. (task_id n, dep)) ` set (depends_on n))"
    by (auto simp: new_dep_rel)
  then show ?thesis by simp
qed

text \<open>C2. A build of an acyclic graph whose dependencies are all tasks finishes: no run hands out and
  reports more than twice as many times as there are tasks, and as long as the hub is not done, a
  polling spoke gets a task or some task is in the hands of a spoke.\<close>
theorem hub_live:
  assumes "iteration_order ord" "wf_nodes ts" "closed_nodes ts" "acyclic (dep_rel (dag_new ts))"
    "hub_run ord srv ok (hub_state_new ts bid) n tr s"
  shows "n \<le> 2 * length ts \<and>
    (is_done (dag s) \<or> (\<exists>item s'. subscribe_poll srv w s = (Yield item, s')) \<or>
     (\<exists>t w. hget (states (dag s)) t = Some (Dispatched w)))"
proof
  note R = run_dep_rel[OF assms(1,2,5)]
  have "n \<le> hub_weight (dag_new ts)"
    using run_weight[OF assms(1) new_inv[OF assms(2)] assms(5)] by (simp add: hub_state_new_def)
  also have "\<dots> \<le> 2 * length ts"
    using hub_weight_bound[OF dag_invD(2)[OF dag_new_inv[OF assms(2)]]] by (simp add: dag_new_eq[OF assms(2)])
  finally show "n \<le> 2 * length ts" .
  have "\<exists>n. hget (tasks (dag s)) dep = Some n" if "(k, dep) \<in> dep_rel (dag s)" for k dep
  proof -
    from that obtain t where "t \<in> set ts" "dep \<in> set (depends_on t)"
      using R(2) assms(2) by (auto simp: new_dep_rel)
    then obtain u where "u \<in> set ts" "task_id u = dep" using assms(3) by (auto simp: closed_nodes_def)
    then show ?thesis using assms(2) by (auto simp: R(3) dag_new_tasks)
  qed
  moreover have "finite (dep_rel (dag s))" "acyclic (dep_rel (dag s))"
    using assms(2,4) by (simp_all add: R(2) new_dep_rel_finite)
  ultimately have "\<not> is_done (dag s) \<Longrightarrow>
      \<exists>k. hget (states (dag s)) k = Some Ready \<or> (\<exists>w. hget (states (dag s)) k = Some (Dispatched w))"
    using active_task[OF R(1)] by blast
  then show "is_done (dag s) \<or> (\<exists>item s'. subscribe_poll srv w s = (Yield item, s')) \<or>
     (\<exists>t w. hget (states (dag s)) t = Some (Dispatched w))"
    using poll_ready[OF R(1)] by blast
qed

lemma ex_acyclic: "acyclic (dep_rel (dag_new ex_ts))"
proof -
  have "dep_rel (dag_new ex_ts) \<subseteq> {(''app'', ''lib'')}"
    unfolding new_dep_rel[OF ex_wf] by (auto simp: ex_ts_def ex_node_def)
  then show ?thesis by (rule acyclic_subset[rotated]) (auto simp: acyclic_insert intro: wf_acyclic)
qed

lemma ex_closed: "closed_nodes ex_ts"
  by (simp add: closed_nodes_def ex_ts_def ex_node_def)

theorem hub_live_witness:
  "\<not> is_done (dag ex_s2) \<and> (2::nat) \<le> 4 \<and> (\<exists>item s'. subscribe_poll ex_srv ''w1'' ex_s2 = (Yield item, s'))"
  using hub_live[OF iteration_order_id ex_wf ex_closed ex_acyclic ex_run2, of "''w1''"]
  by (simp add: ex_s2_eq is_done_def) (auto split: if_splits)

section \<open>Safety\<close>

lemma run_trace:
  assumes ord: "iteration_order ord" and wf: "wf_nodes ts"
    and run: "hub_run ord srv ok (hub_state_new ts bid) n tr s"
  shows "distinct tr" and "k \<in> set tr \<Longrightarrow>
      hget (states (dag s)) k \<noteq> Some Ready \<and> hget (states (dag s)) k \<noteq> Some Pending"
proof -
  have "distinct tr \<and> (\<forall>k\<in>set tr.
      hget (states (dag s)) k \<noteq> Some Ready \<and> hget (states (dag s)) k \<noteq> Some Pending)"
    using run
  proof induction
    case (poll n tr s w item s')
    have i: "dag_inv (dag s)" by (rule run_dep_rel(1)[OF ord wf poll(1)])
    have "hget (states (dag s)) (wi_task_id item) = Some Ready"
      using poll_yieldE[OF poll(2) i] by metis
    then show ?case using poll.IH poll_step(3)[OF poll(2) i] by auto
  next
    case (report n tr s r w)
    have i: "dag_inv (dag s)" by (rule run_dep_rel(1)[OF ord wf report(1)])
    note wfg = dag_invD(1)[OF i]
    have "hget (states (dag (snd (hub_complete ord r s)))) k \<noteq> Some Ready \<and>
          hget (states (dag (snd (hub_complete ord r s)))) k \<noteq> Some Pending" if k: "k \<in> set tr" for k
    proof (cases "cr_success r")
      case True
      then show ?thesis using complete_states[OF ord wfg True, of k] report.IH k
        by (auto simp: newly_ready_def)
    next
      case False
      show ?thesis
      proof (cases "k = cr_task_id r \<or> k \<in> cascade_set (dag s) (cr_task_id r)")
        case True
        then show ?thesis using fail_states(1)[OF ord wfg False True] by (auto simp: failed_def)
      next
        case False
        then show ?thesis using fail_states(2)[OF ord wfg \<open>\<not> cr_success r\<close>, of k] report.IH k by auto
      qed
    qed
    then show ?case using report.IH by blast
  qed simp
  then show "distinct tr" and "k \<in> set tr \<Longrightarrow>
      hget (states (dag s)) k \<noteq> Some Ready \<and> hget (states (dag s)) k \<noteq> Some Pending" by auto
qed

text \<open>C3. Work is handed out safely: a task given to a spoke has all its dependencies completed at that
  moment, its work item is the one of the submitted node, and no task is ever handed out twice.\<close>
theorem hub_dispatch_safe:
  assumes "iteration_order ord" "wf_nodes ts"
    "hub_run ord srv ok (hub_state_new ts bid) n tr s" "subscribe_poll srv w s = (Yield item, s')"
  shows "(\<exists>t\<in>set ts. item = build_work_item srv t \<and>
            (\<forall>dep\<in>set (depends_on t). hget (states (dag s)) dep = Some Completed)) \<and>
         distinct (tr @ [wi_task_id item])"
proof -
  note R = run_dep_rel[OF assms(1-3)]
  obtain t where t: "hget (tasks (dag s)) (wi_task_id item) = Some t" "item = build_work_item srv t"
    "hget (states (dag s)) (wi_task_id item) = Some Ready"
    using poll_yieldE[OF assms(4) R(1)] by metis
  from t(1) have "t \<in> set ts" using assms(2) by (simp add: R(3) dag_new_tasks)
  moreover have "hget (states (dag s)) dep = Some Completed" if "dep \<in> set (depends_on t)" for dep
    using dag_invD(6)[OF R(1) t(3)] t(1) that by (auto simp: dep_rel_def completed_def)
  ultimately show ?thesis using run_trace[OF assms(1-3)] t(2,3) by auto
qed

theorem hub_dispatch_safe_witness:
  "hget (states (dag ex_s2)) ''lib'' = Some Completed \<and> distinct [''lib'', ''app'']"
  using hub_dispatch_safe[OF iteration_order_id ex_wf ex_run2, of "''w2''"
      "build_work_item ex_srv (ex_node ''app'' [''lib''])" "snd (subscribe_poll ex_srv ''w2'' ex_s2)"]
  by (simp add: ex_s2_eq subscribe_poll_def is_done_def dispatch_next_def build_work_item_def ex_node_def)

section \<open>Failures\<close>

lemma transitive_dependent_cascades:
  assumes inv: "dag_inv d" and t: "hget (states d) t = Some (Dispatched w)"
    and k: "(k, t) \<in> (dep_rel d)\<^sup>+" "\<not> failed d k"
  shows "k \<in> cascade_set d t \<and> \<not> completed d k"
  using k
proof (induction rule: converse_trancl_induct)
  have step: "k \<in> cascade_set d t \<and> \<not> completed d k"
    if ky: "(k, y) \<in> dep_rel d" and nf: "\<not> failed d k"
      and y: "\<not> completed d y" "y = t \<or> y \<in> cascade_set d t" for k y
  proof -
    have "k \<noteq> t" using dag_invD(6)[OF inv t] ky y(1) by auto
    moreover have nc: "\<not> completed d k"
      using dag_invD(6)[OF inv, of k Completed] ky y(1) by (auto simp: completed_def)
    moreover have "\<not> settled_at (states d) k"
      using nf nc by (auto simp: settled_at_def completed_def failed_def split: option.splits elim: is_settled.elims)
    ultimately show ?thesis using cascade_set_closed[OF y(2) ky] by blast
  qed
  {
    case (base k)
    then show ?case using step[of k t] t by (auto simp: completed_def)
  next
    case (step k y)
    then have "\<not> failed d y" using dag_invD(7)[OF inv] by blast
    then show ?case using step \<open>\<And>y k. \<lbrakk>(k, y) \<in> dep_rel d; \<not> failed d k; \<not> completed d y;
      y = t \<or> y \<in> cascade_set d t\<rbrakk> \<Longrightarrow> k \<in> cascade_set d t \<and> \<not> completed d k\<close> by blast
  }
qed

text \<open>C4. A failing task takes down exactly the tasks that need it: \<^verbatim>\<open>mark_failed\<close> returns, each once, the
  transitive dependents that had not failed before, whatever order the hash sets iterate in, each is
  left Failed because of one of its own dependencies, the state of every other task is unchanged,
  and no failed task stays in the ready queue.\<close>
theorem hub_failure_cascade:
  assumes "iteration_order ord" "dag_inv d" "hget (states d) t = Some (Dispatched w)"
    "mark_failed ord t err d = (newly, d')"
  shows "set newly = {k. (k, t) \<in> (dep_rel d)\<^sup>+ \<and> \<not> failed d k} \<and> distinct newly \<and>
    hget (states d') t = Some (Failed err) \<and>
    (\<forall>k\<in>set newly. \<exists>c. (k, c) \<in> dep_rel d \<and> hget (states d') k = Some (Failed (dep_failed_msg c))) \<and>
    (\<forall>k. k \<noteq> t \<longrightarrow> k \<notin> set newly \<longrightarrow> hget (states d') k = hget (states d) k) \<and>
    (\<forall>k\<in>set (ready_queue d'). \<not> failed d' k)"
proof -
  note E = mark_failed_effect[OF assms(1) dag_invD(1)[OF assms(2)] assms(4)]
  have "cascade_set d t = {k. (k, t) \<in> (dep_rel d)\<^sup>+ \<and> \<not> failed d k}" (is "?C = ?D")
  proof
    show "?C \<subseteq> ?D" using cascade_setD(2,3) by (fastforce simp: settled_at_def failed_def)
    show "?D \<subseteq> ?C" using transitive_dependent_cascades[OF assms(2,3)] by blast
  qed
  then have set_newly: "set newly = ?D" using E(1) by simp
  have why: "\<exists>c. (k, c) \<in> dep_rel d \<and> hget (states d') k = Some (Failed (dep_failed_msg c))"
    if "k \<in> set newly" for k using E(4)[of k] that E(1) by blast
  have frame: "hget (states d') k = hget (states d) k" if "k \<noteq> t" "k \<notin> set newly" for k
    using E(5)[of k] that E(1) by blast
  have "\<forall>k\<in>set (ready_queue d'). \<not> failed d' k" using E(6) by simp
  then show ?thesis using set_newly E(2) E(3)[OF refl] why frame by blast
qed

lemma ex_inv1: "dag_inv (dag ex_s1)"
  by (rule run_dep_rel(1)[OF iteration_order_id ex_wf ex_run1])

theorem hub_failure_cascade_witness:
  "hget (states (dag ex_s2f)) ''lib'' = Some (Failed ''boom'') \<and> distinct [''app'']"
  using hub_failure_cascade[OF iteration_order_rev ex_inv1, of "''lib''" "''w1''" "''boom''" "[''app'']" "dag ex_s2f"]
  by (simp add: ex_s1_eq ex_s2f_eq mark_failed_def rdeps_of_def settled_at_def dep_failed_msg_def)

section \<open>Where progress is lost\<close>

text \<open>A dependency without a task blocks the build: if a submitted task depends on a name that no
  submitted task has, then even when every command succeeds that task stays Pending and the hub is
  never done, so neither the streams nor the server end.  \<^verbatim>\<open>rage hub\<close> submits such graphs, because
  it lists every workspace dependency of a package, also one without the script.\<close>
theorem hub_missing_dependency_blocks:
  assumes "iteration_order ord" "wf_nodes ts" "t \<in> set ts" "dep \<in> set (depends_on t)"
    "dep \<notin> task_id ` set ts" "hub_run ord srv (\<lambda>_. True) (hub_state_new ts bid) n tr s"
  shows "hget (states (dag s)) (task_id t) = Some Pending \<and> \<not> is_done (dag s)"
proof -
  note R = run_dep_rel[OF assms(1,2,6)]
  have "hget (tasks (dag s)) (task_id t) = Some t" using assms(2,3) by (simp add: R(3) dag_new_tasks)
  then obtain st where st: "hget (states (dag s)) (task_id t) = Some st" using key_has_state[OF R(1)] by blast
  have dep: "(task_id t, dep) \<in> dep_rel (dag s)"
    using assms(2-4) by (auto simp: R(2) new_dep_rel)
  have "hget (tasks (dag s)) dep = None"
    using assms(2,5) dag_new_tasks[OF assms(2), of dep] by (cases "hget (tasks (dag s)) dep") (auto simp: R(3))
  then have "\<not> completed (dag s) dep"
    using state_has_task[OF R(1), of dep] by (auto simp: completed_def)
  moreover have "\<not> failed (dag s) (task_id t)"
    using run_outcome(2)[OF assms(1,2,6)] by (auto simp: should_succeed_def)
  ultimately have "st = Pending"
    using dependent_pending[OF R(1) dep _ st] st by (auto simp: failed_def)
  then show ?thesis using st is_done_iff[OF dag_invD(2)[OF R(1)]] by fastforce
qed

definition ex_scripts :: "string \<Rightarrow> (string \<Rightarrow> string option) option" where
  "ex_scripts p = (if p = ''/w/app/package.json'' then Some [''build'' \<mapsto> ''tsc'']
                   else if p = ''/w/lib/package.json'' then Some Map.empty else None)"

definition ex_hub_nodes :: "TaskNode list" where
  "ex_hub_nodes = [\<lparr>task_id = ''app#build'', package_name = ''app'', script_name = ''build'',
     tn_command = ''tsc'', package_path = ''/w/app'', depends_on = [''lib#build'']\<rparr>]"

theorem hub_missing_dependency_blocks_witness:
  "hub_task_nodes ex_scripts (\<lambda>_. None) ''build''
     [\<lparr>hp_name = ''lib'', hp_path = ''/w/lib'', hp_dependencies = []\<rparr>,
      \<lparr>hp_name = ''app'', hp_path = ''/w/app'', hp_dependencies = [''lib'']\<rparr>] = Inr ex_hub_nodes \<and>
   \<not> is_done (dag (hub_state_new ex_hub_nodes ''b''))"
  using hub_missing_dependency_blocks[OF iteration_order_id, of ex_hub_nodes "hd ex_hub_nodes"
      "''lib#build''" ex_srv "''b''" 0 "[]" "hub_state_new ex_hub_nodes ''b''"] hub_run.start
  by (simp add: ex_hub_nodes_def wf_nodes_def hub_task_nodes_def List.map_filter_def hub_node_def
      ex_scripts_def hub_task_id_def)

text \<open>A task whose spoke is gone is never handed out again: while a task is in the hands of a spoke,
  no poll by any spoke changes its state, hands it out, or ends the stream, so without its report
  the hub waits forever.  (A spoke drops the result of its report call, and a spoke that dies sends
  none.)\<close>
theorem hub_lost_spoke_waits:
  assumes "dag_inv (dag s)" "hget (states (dag s)) t = Some (Dispatched w)"
    "subscribe_poll srv w' s = (p, s')"
  shows "hget (states (dag s')) t = Some (Dispatched w) \<and> p \<noteq> StreamEnd \<and>
    (\<forall>item. p = Yield item \<longrightarrow> wi_task_id item \<noteq> t) \<and> dag_inv (dag s') \<and> \<not> shutdown_ready s'"
proof -
  have not_done: "\<not> is_done d" if "dag_inv d" "hget (states d) t = Some (Dispatched w)" for d
    using is_done_iff[OF dag_invD(2)[OF that(1)]] that(2) by fastforce
  have "hget (states (dag s')) t = Some (Dispatched w) \<and> p \<noteq> StreamEnd \<and>
    (\<forall>item. p = Yield item \<longrightarrow> wi_task_id item \<noteq> t) \<and> dag_inv (dag s')"
  proof (cases p)
    case (Yield item)
    note y = assms(3)[unfolded Yield]
    have "hget (states (dag s)) (wi_task_id item) = Some Ready"
      using poll_yieldE[OF y assms(1)] by metis
    then have "wi_task_id item \<noteq> t" using assms(2) by auto
    then show ?thesis using poll_step(1,3)[OF y assms(1)] assms(2) Yield by auto
  next
    case Wait
    have "ready_queue (dag s) = []"
    proof (rule ccontr)
      assume "ready_queue (dag s) \<noteq> []"
      then obtain x where "hget (states (dag s)) x = Some Ready"
        using dag_invD(5)[OF assms(1)] by (metis (mono_tags, lifting) list.set_intros(1) mem_Collect_eq neq_Nil_conv)
      then show False using poll_ready[OF assms(1), of x srv w'] assms(3) Wait by auto
    qed
    then show ?thesis using assms Wait not_done[OF assms(1,2)]
      by (auto simp: subscribe_poll_def dispatch_next_def)
  next
    case StreamEnd
    then show ?thesis using assms(3) not_done[OF assms(1,2)]
      by (auto simp: subscribe_poll_def split: option.splits prod.splits if_splits)
  qed
  then show ?thesis using not_done[of "dag s'"] by (simp add: shutdown_ready_def)
qed

theorem hub_lost_spoke_waits_witness:
  "fst (subscribe_poll ex_srv ''w2'' ex_s1) \<noteq> StreamEnd \<and>
   \<not> shutdown_ready (snd (subscribe_poll ex_srv ''w2'' ex_s1))"
  using hub_lost_spoke_waits[OF ex_inv1, of "''lib''" "''w1''" ex_srv "''w2''"]
  by (cases "subscribe_poll ex_srv ''w2'' ex_s1") (simp add: ex_s1_eq)

text \<open>Completions are taken without a check that the task was handed out: reporting success for the
  task at the head of the ready queue records it Completed but leaves it queued, and the next
  dispatch hands it out again and turns its state back to Dispatched.\<close>
theorem hub_complete_unguarded:
  assumes "iteration_order ord" "dag_inv (dag s)" "ready_queue (dag s) = t # q"
    "cr_task_id r = t" "cr_success r" "snd (hub_complete ord r s) = s'"
  shows "hget (states (dag s')) t = Some Completed \<and>
    (\<exists>n. fst (dispatch_next w (dag s')) = Some n \<and> task_id n = t) \<and>
    hget (states (snd (dispatch_next w (dag s')))) t = Some (Dispatched w)"
proof -
  have ready: "hget (states (dag s)) t = Some Ready" using dag_invD(5)[OF assms(2)] assms(3) by auto
  then obtain n where n: "hget (tasks (dag s)) t = Some n" using state_has_task[OF assms(2)] by blast
  obtain nw d' where m: "mark_complete ord t (dag s) = (nw, d')" by fastforce
  have d': "dag s' = d'" using assms(4-6) m by (auto simp: hub_complete_def)
  note E = mark_complete_effect[OF assms(1) dag_invD(1)[OF assms(2)] m]
  have q: "ready_queue d' = t # (q @ nw)" using E(3) assms(3) by simp
  have "hget (tasks d') t = Some n" using E(7) n by (simp add: same_graph_def)
  moreover have "task_id n = t" using dag_invD(1)[OF assms(2)] n by (auto simp: graph_wf_def)
  ultimately show ?thesis using q E(4)[of t] d' by (simp add: dispatch_next_def)
qed

theorem hub_complete_unguarded_witness:
  "hget (states (snd (dispatch_next ''w2'' (dag (snd (hub_complete (\<lambda>xs. xs) (ex_report ''lib'' True) ex_s0))))))
     ''lib'' = Some (Dispatched ''w2'')"
  using hub_complete_unguarded[OF iteration_order_id new_inv[OF ex_wf, of "''b''"],
      of "''lib''" "[]" "ex_report ''lib'' True" _ "''w2''"]
  by (simp add: ex_s0_eq ex_report_def)

section \<open>Statistics\<close>

lemma count_state_sum:
  "let r = fold count_state ss st in
     st_pending r = st_pending st + length (filter (\<lambda>x. x = Pending) ss) \<and>
     st_ready r = st_ready st + length (filter (\<lambda>x. x = Ready) ss) \<and>
     st_dispatched r = st_dispatched st + length (filter (\<lambda>x. \<exists>w. x = Dispatched w) ss) \<and>
     st_completed r = st_completed st + length (filter (\<lambda>x. x = Completed) ss) \<and>
     st_failed r = st_failed st + length (filter is_failed ss)"
proof (induction ss arbitrary: st)
  case (Cons x ss)
  show ?case using Cons[of "count_state x st"] by (cases x) (simp_all add: Let_def)
qed simp

lemma unsettled_count:
  "length (filter (\<lambda>x. x = Pending) ss) + length (filter (\<lambda>x. x = Ready) ss) +
   length (filter (\<lambda>x. \<exists>w. x = Dispatched w) ss) = length (filter (\<lambda>x. \<not> is_settled x) ss)"
proof (induction ss)
  case (Cons x ss)
  then show ?case by (cases x) simp_all
qed simp

text \<open>The number \<^verbatim>\<open>Ping\<close> reports is the number of unsettled tasks, truncated to 32 bits; for graphs
  of fewer than 2^32 tasks it is 0 exactly when the build is done.\<close>
theorem hub_ping_pending:
  "pending_tasks (hub_ping s) = of_nat (length (filter (\<lambda>x. \<not> is_settled x) (hvals (states (dag s))))) \<and>
   (length (states (dag s)) < 2 ^ 32 \<longrightarrow> (pending_tasks (hub_ping s) = 0 \<longleftrightarrow> is_done (dag s)))"
proof
  let ?ss = "hvals (states (dag s))"
  show p: "pending_tasks (hub_ping s) = of_nat (length (filter (\<lambda>x. \<not> is_settled x) ?ss))"
    using count_state_sum[of ?ss "\<lparr>st_pending = 0, st_ready = 0, st_dispatched = 0, st_completed = 0, st_failed = 0\<rparr>"]
    by (simp add: hub_ping_def dag_stats_def Let_def unsettled_count[symmetric])
  show "length (states (dag s)) < 2 ^ 32 \<longrightarrow> (pending_tasks (hub_ping s) = 0 \<longleftrightarrow> is_done (dag s))"
  proof
    assume len: "length (states (dag s)) < 2 ^ 32"
    let ?n = "length (filter (\<lambda>x. \<not> is_settled x) ?ss)"
    have "?n \<le> length (states (dag s))" by (metis length_filter_le length_map)
    then have "?n < 2 ^ 32" using len by linarith
    then have "(of_nat ?n :: 32 word) = 0 \<longleftrightarrow> ?n = 0"
      by (auto simp: word_of_nat_eq_0_iff dest: dvd_imp_le)
    then show "pending_tasks (hub_ping s) = 0 \<longleftrightarrow> is_done (dag s)"
      unfolding p is_done_def by (auto simp: list_all_iff filter_empty_conv)
  qed
qed

theorem hub_ping_pending_witness:
  "pending_tasks (hub_ping ex_s1) = 2 \<and> \<not> is_done (dag ex_s1)"
  using hub_ping_pending[of ex_s1] by (simp add: ex_s1_eq is_done_def)

end
