(* ===== verification/Strings.thy ===== *)
theory Strings
  imports Prelude "HOL-Library.List_Lexorder" "HOL-Library.Char_ord" "HOL-Library.Product_Lexorder"
    "HOL-Library.Sublist"
begin

text \<open>
  The string operations of the standard library that the source uses, on char
  lists (bytes of UTF-8), and Unix paths: components, joining, the
  component-wise \<^verbatim>\<open>starts_with\<close> and \<^verbatim>\<open>strip_prefix\<close>, and the component-wise order of
  \<^verbatim>\<open>PathBuf\<close>.  \<^verbatim>\<open>trim\<close> strips ASCII white space only.
\<close>

section \<open>Strings\<close>

fun strip_pre :: "string \<Rightarrow> string \<Rightarrow> string option" where
  "strip_pre [] s = Some s"
| "strip_pre (p # ps) [] = None"
| "strip_pre (p # ps) (c # cs) = (if p = c then strip_pre ps cs else None)"

definition starts_with :: "string \<Rightarrow> string \<Rightarrow> bool" where
  "starts_with p s = (strip_pre p s \<noteq> None)"

definition strip_suf :: "string \<Rightarrow> string \<Rightarrow> string option" where
  "strip_suf p s = map_option rev (strip_pre (rev p) (rev s))"

definition ends_with :: "string \<Rightarrow> string \<Rightarrow> bool" where
  "ends_with p s = (strip_suf p s \<noteq> None)"

lemma strip_pre_Some_iff [simp]: "strip_pre p s = Some r \<longleftrightarrow> s = p @ r"
  by (induction p s rule: strip_pre.induct) auto

lemma strip_pre_None_iff: "strip_pre p s = None \<longleftrightarrow> (\<forall>r. s \<noteq> p @ r)"
  using strip_pre_Some_iff[of p s] by (metis option.exhaust option.distinct(1))

lemma starts_with_iff: "starts_with p s \<longleftrightarrow> (\<exists>r. s = p @ r)"
  by (auto simp: starts_with_def)

lemma strip_suf_Some_iff [simp]: "strip_suf p s = Some r \<longleftrightarrow> s = r @ p"
proof -
  have "strip_suf p s = Some r \<longleftrightarrow> strip_pre (rev p) (rev s) = Some (rev r)"
    by (cases "strip_pre (rev p) (rev s)") (auto simp: strip_suf_def simp del: strip_pre_Some_iff)
  also have "\<dots> \<longleftrightarrow> s = r @ p" by simp (metis rev_append rev_rev_ident)
  finally show ?thesis .
qed

lemma ends_with_iff: "ends_with p s \<longleftrightarrow> (\<exists>r. s = r @ p)"
  by (cases "strip_suf p s") (auto simp: ends_with_def simp flip: strip_suf_Some_iff)

text \<open>\<^verbatim>\<open>s.split(c)\<close>: always at least one piece.\<close>

fun split_on :: "char \<Rightarrow> string \<Rightarrow> string list" where
  "split_on c [] = [[]]"
| "split_on c (x # xs) =
    (if x = c then [] # split_on c xs
     else (case split_on c xs of [] \<Rightarrow> [[x]] | p # ps \<Rightarrow> (x # p) # ps))"

fun join_with :: "string \<Rightarrow> string list \<Rightarrow> string" where
  "join_with sep [] = []"
| "join_with sep [p] = p"
| "join_with sep (p # ps) = p @ sep @ join_with sep ps"

lemma split_on_ne [simp]: "split_on c s \<noteq> []"
  by (induction s) (auto split: list.splits)

lemma split_on_no_sep: "p \<in> set (split_on c s) \<Longrightarrow> c \<notin> set p"
  by (induction s arbitrary: p) (auto split: list.splits if_splits)

lemma join_split [simp]: "join_with [c] (split_on c s) = s"
proof (induction s)
  case (Cons x xs)
  obtain p ps where s: "split_on c xs = p # ps" by (cases "split_on c xs") auto
  then show ?case using Cons by (cases ps) auto
qed simp

lemma split_on_append: "c \<notin> set p \<Longrightarrow> split_on c (p @ c # s) = p # split_on c s"
  by (induction p) auto

lemma split_on_single: "c \<notin> set p \<Longrightarrow> split_on c p = [p]"
  by (induction p) auto

lemma split_join:
  "ps \<noteq> [] \<Longrightarrow> (\<forall>p\<in>set ps. c \<notin> set p) \<Longrightarrow> split_on c (join_with [c] ps) = ps"
  by (induction "[c]" ps rule: join_with.induct) (auto simp: split_on_single split_on_append)

abbreviation newline :: char where "newline \<equiv> CHR 10"

text \<open>\<^verbatim>\<open>str::lines\<close>: split at newlines, no last empty line, a carriage return before the newline dropped.\<close>

definition drop_cr :: "string \<Rightarrow> string" where
  "drop_cr l = (if l \<noteq> [] \<and> last l = CHR 13 then butlast l else l)"

definition str_lines :: "string \<Rightarrow> string list" where
  "str_lines s = (let ps = split_on newline s in
     map drop_cr (butlast ps) @ (if last ps = [] then [] else [last ps]))"

definition is_ws :: "char \<Rightarrow> bool" where
  "is_ws c = (c \<in> set [CHR 32, CHR 9, CHR 10, CHR 11, CHR 12, CHR 13])"

definition trim_start :: "string \<Rightarrow> string" where
  "trim_start s = dropWhile is_ws s"

definition trim_end :: "string \<Rightarrow> string" where
  "trim_end s = rev (dropWhile is_ws (rev s))"

definition trim :: "string \<Rightarrow> string" where
  "trim s = trim_end (trim_start s)"

text \<open>\<^verbatim>\<open>find\<close> of a pattern: the text before and after its first occurrence.\<close>

fun split_at :: "string \<Rightarrow> string \<Rightarrow> (string \<times> string) option" where
  "split_at p [] = (if p = [] then Some ([], []) else None)"
| "split_at p (c # cs) =
    (case strip_pre p (c # cs) of
       Some r \<Rightarrow> Some ([], r)
     | None \<Rightarrow> map_option (\<lambda>(a, b). (c # a, b)) (split_at p cs))"

lemma split_at_Some: "split_at p s = Some (a, b) \<Longrightarrow> s = a @ p @ b"
  by (induction s arbitrary: a) (auto split: option.splits if_splits)

lemma split_at_None: "split_at p s = None \<Longrightarrow> s \<noteq> a @ p @ b"
proof (induction s arbitrary: a)
  case (Cons c cs)
  then have n: "strip_pre p (c # cs) = None" "split_at p cs = None"
    by (auto split: option.splits)
  show ?case
  proof (cases a)
    case Nil
    then show ?thesis using n(1) by (simp add: strip_pre_None_iff)
  next
    case (Cons x xs)
    then show ?thesis using Cons.IH[OF n(2), of xs] by simp
  qed
qed (auto split: if_splits)

definition contains_str :: "string \<Rightarrow> string \<Rightarrow> bool" where
  "contains_str p s = (split_at p s \<noteq> None)"

text \<open>\<^verbatim>\<open>s.replace(c, r)\<close> for a character.\<close>

definition replace_char :: "char \<Rightarrow> string \<Rightarrow> string \<Rightarrow> string" where
  "replace_char c r s = concat (map (\<lambda>x. if x = c then r else [x]) s)"

section \<open>Paths\<close>

text \<open>The components of a Unix path: the root, then the segments; empty segments and \<^verbatim>\<open>.\<close> (except
  at the very start of a relative path) do not count.\<close>

abbreviation slash :: char where "slash \<equiv> CHR 47"

definition is_absolute :: "string \<Rightarrow> bool" where
  "is_absolute p = (p \<noteq> [] \<and> hd p = slash)"

lemma not_absolute: "slash \<notin> set p \<Longrightarrow> \<not> is_absolute p"
  by (cases p) (auto simp: is_absolute_def)

lemma not_absolute_append: "slash \<notin> set p \<Longrightarrow> p \<noteq> [] \<Longrightarrow> \<not> is_absolute (p @ q)"
  by (cases p) (auto simp: is_absolute_def)

definition path_segs :: "string \<Rightarrow> string list" where
  "path_segs p = filter (\<lambda>s. s \<noteq> [] \<and> s \<noteq> ''.'') (split_on slash p)"

definition path_components :: "string \<Rightarrow> string list" where
  "path_components p =
     (if is_absolute p then ''/'' # path_segs p
      else if hd (split_on slash p) = ''.'' then ''.'' # path_segs p
      else path_segs p)"

definition path_join :: "string \<Rightarrow> string \<Rightarrow> string" where
  "path_join a b =
     (if is_absolute b then b
      else if a = [] \<or> last a = slash then a @ b
      else a @ slash # b)"

definition path_starts_with :: "string \<Rightarrow> string \<Rightarrow> bool" where
  "path_starts_with p base = prefix (path_components base) (path_components p)"

text \<open>\<^verbatim>\<open>strip_prefix\<close>, with the rest written in normal form.\<close>

definition path_strip_prefix :: "string \<Rightarrow> string \<Rightarrow> string option" where
  "path_strip_prefix p base =
     (let b = path_components base; c = path_components p in
      if prefix b c then Some (join_with ''/'' (drop (length b) c)) else None)"

definition component_rank :: "string \<Rightarrow> nat \<times> string" where
  "component_rank c = (if c = ''/'' then 0 else if c = ''.'' then 1 else if c = ''..'' then 2 else 3, c)"

text \<open>The key by which \<^verbatim>\<open>PathBuf\<close>s are ordered.\<close>

definition path_key :: "string \<Rightarrow> (nat \<times> string) list" where
  "path_key p = map component_rank (path_components p)"

text \<open>\<^verbatim>\<open>parent\<close> and \<^verbatim>\<open>file_name\<close> of a path in normal form.\<close>

definition path_file_name :: "string \<Rightarrow> string option" where
  "path_file_name p = (case path_segs p of [] \<Rightarrow> None
     | ss \<Rightarrow> if last ss = ''..'' then None else Some (last ss))"

definition path_parent :: "string \<Rightarrow> string option" where
  "path_parent p = (case path_segs p of [] \<Rightarrow> None
     | ss \<Rightarrow> Some ((if is_absolute p then ''/'' else []) @ join_with ''/'' (butlast ss)))"

end
