(* ===== verification/Workspace.thy ===== *)
theory Workspace
  imports Strings
begin

text \<open>
  Package discovery and the workspace dependency graph: src/crates/workspace-tools
  (detect.rs, discovery.rs, package.rs, graph.rs), src/crates/build-graph (dag.rs,
  topo.rs, dot.rs).  What the code asks of the file system and of the JSON and YAML
  parsers, of the glob library and of petgraph's topological sort is a parameter.
\<close>

section \<open>The outside world\<close>

datatype json = JNull | JBool bool | JNum string | JStr string | JArr "json list"
  | JObj "(string \<times> json) list"

fun json_get :: "string \<Rightarrow> json \<Rightarrow> json option" where
  "json_get k (JObj kvs) = map_of kvs k"
| "json_get k _ = None"

fun json_str :: "json \<Rightarrow> string option" where
  "json_str (JStr s) = Some s"
| "json_str _ = None"

fun json_arr :: "json \<Rightarrow> json list option" where
  "json_arr (JArr xs) = Some xs"
| "json_arr _ = None"

fun json_obj :: "json \<Rightarrow> (string \<times> json) list option" where
  "json_obj (JObj kvs) = Some kvs"
| "json_obj _ = None"

datatype io_error = NotFound | OtherIo

text \<open>\<^verbatim>\<open>w_glob\<close> lists the entries of a glob pattern (None: bad pattern, and None for an entry
  that cannot be read); \<^verbatim>\<open>w_read_dir\<close> lists the readable names in a directory.\<close>

record World =
  w_read :: "string \<Rightarrow> io_error + string"
  w_exists :: "string \<Rightarrow> bool"
  w_is_dir :: "string \<Rightarrow> bool"
  w_read_dir :: "string \<Rightarrow> string list option"
  w_canon :: "string \<Rightarrow> string option"
  w_glob :: "string \<Rightarrow> string option list option"
  w_json :: "string \<Rightarrow> json option"
  w_pnpm_packages :: "string \<Rightarrow> string list option"

datatype ws_error =
    NotAWorkspace
  | ReadError string
  | ParseError string
  | MissingName string
  | NoWorkspacesField
  | BadWorkspaceEntry
  | BadWorkspacesField
  | GlobError string

section \<open>Packages\<close>

datatype PackageManager = Pnpm | Yarn | Npm

record Package =
  pkg_name :: string
  pkg_version :: string
  pkg_path :: string
  pkg_deps :: "string list"

definition read_json :: "World \<Rightarrow> string \<Rightarrow> json option" where
  "read_json w p = (case w_read w p of Inl _ \<Rightarrow> None | Inr raw \<Rightarrow> w_json w raw)"

definition detect_package_manager :: "World \<Rightarrow> string \<Rightarrow> PackageManager option" where
  "detect_package_manager w root =
     (if w_exists w (path_join root ''pnpm-workspace.yaml'') then Some Pnpm
      else (case read_json w (path_join root ''package.json'') of
          None \<Rightarrow> None
        | Some v \<Rightarrow>
            (case json_get ''workspaces'' v of
               None \<Rightarrow> None
             | Some _ \<Rightarrow>
                 if w_exists w (path_join root ''yarn.lock'') \<or> w_exists w (path_join root ''.yarnrc.yml'')
                 then Some Yarn else Some Npm)))"

definition from_manifest_dir :: "World \<Rightarrow> string \<Rightarrow> ws_error + Package" where
  "from_manifest_dir w path =
     (let mp = path_join path ''package.json'' in
      case w_read w mp of Inl _ \<Rightarrow> Inl (ReadError mp)
      | Inr raw \<Rightarrow> (case w_json w raw of None \<Rightarrow> Inl (ParseError mp)
        | Some v \<Rightarrow> (case Option.bind (json_get ''name'' v) json_str of
            None \<Rightarrow> Inl (MissingName mp)
          | Some name \<Rightarrow> Inr
              \<lparr>pkg_name = name,
               pkg_version = (case Option.bind (json_get ''version'' v) json_str of
                                Some ver \<Rightarrow> ver | None \<Rightarrow> ''0.0.0''),
               pkg_path = path, pkg_deps = []\<rparr>)))"

section \<open>Discovery\<close>

fun collect_strings :: "json list \<Rightarrow> ws_error + string list" where
  "collect_strings [] = Inr []"
| "collect_strings (v # vs) = (case json_str v of
      None \<Rightarrow> Inl BadWorkspaceEntry
    | Some s \<Rightarrow> (case collect_strings vs of Inl e \<Rightarrow> Inl e | Inr ss \<Rightarrow> Inr (s # ss)))"

definition workspace_globs_of :: "json \<Rightarrow> ws_error + string list" where
  "workspace_globs_of ws =
     (case json_arr ws of
        Some arr \<Rightarrow> collect_strings arr
      | None \<Rightarrow> (case Option.bind (json_get ''packages'' ws) json_arr of
            Some arr \<Rightarrow> collect_strings arr
          | None \<Rightarrow> Inl BadWorkspacesField))"

fun read_package_globs :: "World \<Rightarrow> string \<Rightarrow> PackageManager \<Rightarrow> ws_error + string list" where
  "read_package_globs w root Pnpm =
     (let p = path_join root ''pnpm-workspace.yaml'' in
      case w_read w p of Inl _ \<Rightarrow> Inl (ReadError p)
      | Inr raw \<Rightarrow> (case w_pnpm_packages w raw of None \<Rightarrow> Inl (ParseError p) | Some gs \<Rightarrow> Inr gs))"
| "read_package_globs w root _ =
     (let p = path_join root ''package.json'' in
      case w_read w p of Inl _ \<Rightarrow> Inl (ReadError p)
      | Inr raw \<Rightarrow> (case w_json w raw of None \<Rightarrow> Inl (ParseError p)
        | Some v \<Rightarrow> (case json_get ''workspaces'' v of
            None \<Rightarrow> Inl NoWorkspacesField
          | Some ws \<Rightarrow> workspace_globs_of ws)))"

fun resolve_entries :: "World \<Rightarrow> string \<Rightarrow> string option list \<Rightarrow> ws_error + string list" where
  "resolve_entries w pat [] = Inr []"
| "resolve_entries w pat (None # es) = Inl (GlobError pat)"
| "resolve_entries w pat (Some p # es) =
    (if w_is_dir w p then
       (case w_canon w p of None \<Rightarrow> Inl (GlobError pat)
        | Some c \<Rightarrow> (case resolve_entries w pat es of Inl e \<Rightarrow> Inl e | Inr ps \<Rightarrow> Inr (c # ps)))
     else resolve_entries w pat es)"

definition resolve_glob :: "World \<Rightarrow> string \<Rightarrow> string \<Rightarrow> ws_error + string list" where
  "resolve_glob w root pat = (case w_glob w (path_join root pat) of
      None \<Rightarrow> Inl (GlobError pat) | Some es \<Rightarrow> resolve_entries w pat es)"

fun load_dirs :: "World \<Rightarrow> string list \<Rightarrow> ws_error + Package list" where
  "load_dirs w [] = Inr []"
| "load_dirs w (d # ds) =
    (if \<not> w_exists w (path_join d ''package.json'') then load_dirs w ds
     else (case from_manifest_dir w d of Inl e \<Rightarrow> Inl e
        | Inr pkg \<Rightarrow> (case load_dirs w ds of Inl e \<Rightarrow> Inl e | Inr ps \<Rightarrow> Inr (pkg # ps))))"

fun load_globs :: "World \<Rightarrow> string \<Rightarrow> string list \<Rightarrow> ws_error + Package list" where
  "load_globs w root [] = Inr []"
| "load_globs w root (g # gs) =
    (case resolve_glob w root g of Inl e \<Rightarrow> Inl e
     | Inr dirs \<Rightarrow> (case load_dirs w dirs of Inl e \<Rightarrow> Inl e
        | Inr ps \<Rightarrow> (case load_globs w root gs of Inl e \<Rightarrow> Inl e | Inr qs \<Rightarrow> Inr (ps @ qs))))"

definition discover_packages :: "World \<Rightarrow> string \<Rightarrow> ws_error + Package list" where
  "discover_packages w root =
     (case detect_package_manager w root of None \<Rightarrow> Inl NotAWorkspace
      | Some pm \<Rightarrow> (case read_package_globs w root pm of Inl e \<Rightarrow> Inl e
        | Inr gs \<Rightarrow> (case load_globs w root gs of Inl e \<Rightarrow> Inl e
          | Inr ps \<Rightarrow> Inr (sort_key pkg_name ps))))"

section \<open>Workspace-internal dependencies\<close>

fun push_new :: "string set \<Rightarrow> string list \<Rightarrow> string list \<Rightarrow> string list" where
  "push_new ws [] deps = deps"
| "push_new ws (n # ns) deps =
    (if n \<in> ws \<and> n \<notin> set deps then push_new ws ns (deps @ [n]) else push_new ws ns deps)"

definition field_names :: "json \<Rightarrow> string \<Rightarrow> string list" where
  "field_names v field = (case Option.bind (json_get field v) json_obj of
      Some obj \<Rightarrow> map fst obj | None \<Rightarrow> [])"

definition dep_fields :: "string list" where
  "dep_fields = [''dependencies'', ''devDependencies'', ''peerDependencies'']"

definition workspace_deps :: "string set \<Rightarrow> json \<Rightarrow> string list" where
  "workspace_deps ws v =
     sort (fold (\<lambda>field deps. push_new ws (field_names v field) deps) dep_fields [])"

definition resolve_package :: "World \<Rightarrow> string set \<Rightarrow> Package \<Rightarrow> ws_error + Package" where
  "resolve_package w ws pkg =
     (let mp = path_join (pkg_path pkg) ''package.json'' in
      case w_read w mp of
        Inl NotFound \<Rightarrow> Inr pkg
      | Inl OtherIo \<Rightarrow> Inl (ReadError mp)
      | Inr raw \<Rightarrow> (case w_json w raw of None \<Rightarrow> Inl (ParseError mp)
          | Some v \<Rightarrow> Inr (pkg\<lparr>pkg_deps := workspace_deps ws v\<rparr>)))"

fun resolve_all :: "World \<Rightarrow> string set \<Rightarrow> Package list \<Rightarrow> ws_error + Package list" where
  "resolve_all w ws [] = Inr []"
| "resolve_all w ws (p # ps) = (case resolve_package w ws p of Inl e \<Rightarrow> Inl e
     | Inr q \<Rightarrow> (case resolve_all w ws ps of Inl e \<Rightarrow> Inl e | Inr qs \<Rightarrow> Inr (q # qs)))"

definition build_package_graph :: "World \<Rightarrow> Package list \<Rightarrow> ws_error + Package list" where
  "build_package_graph w pkgs = resolve_all w (set (map pkg_name pkgs)) pkgs"

section \<open>The dependency graph\<close>

datatype dag_error = UnknownDependency string string | Cycle string

text \<open>petgraph's \<^verbatim>\<open>DiGraph\<close>: nodes and edges are numbered in the order they are added.\<close>

record WorkspaceDag =
  g_names :: "string list"
  g_edges :: "(nat \<times> nat) list"
  g_nodes :: "(string, nat) hmap"
  g_packages :: "(string, Package) hmap"

fun add_nodes :: "nat \<Rightarrow> Package list \<Rightarrow> (string, nat) hmap \<Rightarrow> (string, nat) hmap" where
  "add_nodes i [] m = m"
| "add_nodes i (p # ps) m = add_nodes (Suc i) ps (hput (pkg_name p) i m)"

fun add_edges_from :: "(string, nat) hmap \<Rightarrow> string \<Rightarrow> nat \<Rightarrow> string list \<Rightarrow> dag_error + (nat \<times> nat) list" where
  "add_edges_from m name src [] = Inr []"
| "add_edges_from m name src (d # ds) = (case hget m d of
      None \<Rightarrow> Inl (UnknownDependency name d)
    | Some dst \<Rightarrow> (case add_edges_from m name src ds of Inl e \<Rightarrow> Inl e | Inr es \<Rightarrow> Inr ((src, dst) # es)))"

fun add_edges :: "(string, nat) hmap \<Rightarrow> Package list \<Rightarrow> dag_error + (nat \<times> nat) list" where
  "add_edges m [] = Inr []"
| "add_edges m (p # ps) =
    (case add_edges_from m (pkg_name p) (case hget m (pkg_name p) of Some i \<Rightarrow> i | None \<Rightarrow> 0) (pkg_deps p) of
       Inl e \<Rightarrow> Inl e
     | Inr es \<Rightarrow> (case add_edges m ps of Inl e \<Rightarrow> Inl e | Inr es' \<Rightarrow> Inr (es @ es')))"

text \<open>A topological sort: the number of nodes and the edges to an order of the nodes, or a node on a cycle.\<close>

type_synonym toposort = "nat \<Rightarrow> (nat \<times> nat) list \<Rightarrow> nat + nat list"

definition build_dag :: "toposort \<Rightarrow> Package list \<Rightarrow> dag_error + WorkspaceDag" where
  "build_dag ts pkgs =
     (let names = map pkg_name pkgs; nodes = add_nodes 0 pkgs [] in
      case add_edges nodes pkgs of Inl e \<Rightarrow> Inl e
      | Inr es \<Rightarrow> (case ts (length names) es of
          Inl c \<Rightarrow> Inl (Cycle (names ! c))
        | Inr _ \<Rightarrow> Inr \<lparr>g_names = names, g_edges = es, g_nodes = nodes,
                         g_packages = fold (\<lambda>p m. hput (pkg_name p) p m) pkgs []\<rparr>))"

definition topological_sort :: "toposort \<Rightarrow> WorkspaceDag \<Rightarrow> dag_error + string list" where
  "topological_sort ts g =
     (case ts (length (g_names g)) (map prod.swap (g_edges g)) of
        Inl _ \<Rightarrow> Inl (Cycle ''<cycle detected in topo>'')
      | Inr order \<Rightarrow> Inr (map (\<lambda>i. g_names g ! i) order))"

definition quoted :: "string \<Rightarrow> string" where
  "quoted s = CHR 34 # s @ [CHR 34]"

definition dot_node :: "(string, Package) hmap \<Rightarrow> string \<Rightarrow> string" where
  "dot_node m name = (case hget m name of None \<Rightarrow> []
     | Some p \<Rightarrow> ''  '' @ quoted name @ '' [label='' @ quoted (name @ ''@'' @ pkg_version p) @ ''];'' @ [newline])"

definition dot_edge :: "string \<times> string \<Rightarrow> string" where
  "dot_edge e = ''  '' @ quoted (fst e) @ '' -> '' @ quoted (snd e) @ '';'' @ [newline]"

definition to_dot :: "WorkspaceDag \<Rightarrow> string" where
  "to_dot g =
     ''digraph workspace {'' @ [newline] @
     ''  rankdir='' @ quoted ''LR'' @ '';'' @ [newline] @
     ''  node [shape='' @ quoted ''box'' @ '', style='' @ quoted ''rounded'' @ '', fontname='' @
       quoted ''monospace'' @ ''];'' @ [newline] @
     concat (map (dot_node (g_packages g)) (sort (hkeys (g_packages g)))) @
     concat (map dot_edge (sort (map (\<lambda>(s, t). (g_names g ! s, g_names g ! t)) (g_edges g)))) @
     ''}'' @ [newline]"

end
