(* ===== verification/Scope.thy ===== *)
theory Scope
  imports Workspace
begin

text \<open>
  Choosing what to run: the transitive closure behind \<^verbatim>\<open>--to\<close>, the affected packages behind
  \<^verbatim>\<open>--since\<close> and \<^verbatim>\<open>--affected\<close> (src/crates/scoping), and the filtering in \<^verbatim>\<open>cmd_run\<close>
  (src/crates/cli/src/main.rs).
\<close>

section \<open>Transitive dependency closure\<close>

definition all_deps :: "(string, Package) hmap \<Rightarrow> string set" where
  "all_deps m = (\<Union>p\<in>snd ` set m. set (pkg_deps p))"

definition todo_set :: "(string, Package) hmap \<Rightarrow> string list \<Rightarrow> string list \<Rightarrow> string set" where
  "todo_set m cl q = (set q \<union> all_deps m) - set cl"

lemma finite_todo [simp]: "finite (todo_set m cl q)"
  by (simp add: todo_set_def all_deps_def)

lemma deps_in_all: "hget m p = Some pkg \<Longrightarrow> set (pkg_deps pkg) \<subseteq> all_deps m"
  by (force simp: all_deps_def dest: map_of_SomeD)

function closure_loop :: "(string, Package) hmap \<Rightarrow> string list \<Rightarrow> string list \<Rightarrow> string list" where
  "closure_loop m cl [] = cl"
| "closure_loop m cl (p # q) =
    (if p \<in> set cl then closure_loop m cl q
     else (case hget m p of
        None \<Rightarrow> closure_loop m (p # cl) q
      | Some pkg \<Rightarrow> closure_loop m (p # cl) (q @ filter (\<lambda>d. d \<notin> set (p # cl)) (pkg_deps pkg))))"
  by pat_completeness auto
termination
proof (relation "(\<lambda>(m, cl, q). card (todo_set m cl q)) <*mlex*> measure (\<lambda>(m, cl, q). length q)",
    goal_cases)
  case 1
  then show ?case by (intro wf_mlex) simp
next
  case (2 m cl p q)
  then have "todo_set m cl q \<subseteq> todo_set m cl (p # q)" by (auto simp: todo_set_def)
  then have "card (todo_set m cl q) \<le> card (todo_set m cl (p # q))" by (intro card_mono) simp_all
  then show ?case by (simp add: mlex_leq)
next
  case (3 m cl p q)
  then have "todo_set m (p # cl) q \<subset> todo_set m cl (p # q)" by (auto simp: todo_set_def)
  then have "card (todo_set m (p # cl) q) < card (todo_set m cl (p # q))" by (intro psubset_card_mono) simp_all
  then show ?case by (simp add: mlex_less)
next
  case (4 m cl p q pkg)
  then have "todo_set m (p # cl) (q @ filter (\<lambda>d. d \<notin> set (p # cl)) (pkg_deps pkg)) \<subset> todo_set m cl (p # q)"
    using deps_in_all[of m p pkg] by (auto simp: todo_set_def)
  then have "card (todo_set m (p # cl) (q @ filter (\<lambda>d. d \<notin> set (p # cl)) (pkg_deps pkg)))
      < card (todo_set m cl (p # q))"
    by (intro psubset_card_mono) simp_all
  then show ?case by (simp add: mlex_less)
qed

definition transitive_dep_closure :: "(string, Package) hmap \<Rightarrow> string \<Rightarrow> string list" where
  "transitive_dep_closure m target = closure_loop m [] [target]"

definition pkg_rel :: "(string, Package) hmap \<Rightarrow> (string \<times> string) set" where
  "pkg_rel m = {(p, d). \<exists>pkg. hget m p = Some pkg \<and> d \<in> set (pkg_deps pkg)}"

definition closure_inv :: "(string, Package) hmap \<Rightarrow> string \<Rightarrow> string list \<Rightarrow> string list \<Rightarrow> bool" where
  "closure_inv m t cl q \<longleftrightarrow> distinct cl \<and> set cl \<union> set q \<subseteq> (pkg_rel m)\<^sup>* `` {t} \<and> t \<in> set cl \<union> set q \<and>
     (\<forall>p\<in>set cl. \<forall>d. (p, d) \<in> pkg_rel m \<longrightarrow> d \<in> set cl \<union> set q)"

lemma closure_loop_inv:
  "closure_inv m t cl q \<Longrightarrow> closure_inv m t (closure_loop m cl q) []"
proof (induction m cl q rule: closure_loop.induct)
  case (2 m cl p q)
  show ?case
  proof (cases "p \<in> set cl")
    case True
    with "2.prems" have "closure_inv m t cl q" by (auto simp: closure_inv_def)
    then show ?thesis using "2.IH"(1) True by simp
  next
    case False
    have tp: "(t, p) \<in> (pkg_rel m)\<^sup>*" using "2.prems" by (auto simp: closure_inv_def)
    show ?thesis
    proof (cases "hget m p")
      case None
      then have "closure_inv m t (p # cl) q"
        using "2.prems" False by (auto simp: closure_inv_def pkg_rel_def)
      then show ?thesis using "2.IH"(2) False None by simp
    next
      case (Some pkg)
      have "(t, d) \<in> (pkg_rel m)\<^sup>*" if "d \<in> set (pkg_deps pkg)" for d
        using that Some tp by (auto simp: pkg_rel_def intro: rtrancl_into_rtrancl)
      moreover have "d \<in> set (pkg_deps pkg)" if "(p, d) \<in> pkg_rel m" for d
        using that Some by (simp add: pkg_rel_def)
      ultimately have "closure_inv m t (p # cl) (q @ filter (\<lambda>d. d \<notin> set (p # cl)) (pkg_deps pkg))"
        using "2.prems" False unfolding closure_inv_def by auto
      then show ?thesis using "2.IH"(3) False Some by simp
    qed
  qed
qed simp

lemma closure_set:
  "set (transitive_dep_closure m t) = {d. (t, d) \<in> (pkg_rel m)\<^sup>*} \<and> distinct (transitive_dep_closure m t)"
proof -
  have "closure_inv m t [] [t]" by (simp add: closure_inv_def)
  then have inv: "closure_inv m t (transitive_dep_closure m t) []"
    unfolding transitive_dep_closure_def by (rule closure_loop_inv)
  have "d \<in> set (transitive_dep_closure m t)" if "(t, d) \<in> (pkg_rel m)\<^sup>*" for d
    using that by induction (use inv in \<open>auto simp: closure_inv_def\<close>)
  then show ?thesis using inv by (auto simp: closure_inv_def)
qed

text \<open>\<^verbatim>\<open>--to\<close>: the worklist computes exactly the packages the target depends on, reflexively and
  transitively, each once, also for graphs with cycles and for names that are no package.\<close>
theorem transitive_dep_closure_correct:
  "set (transitive_dep_closure m t) = {d. (t, d) \<in> (pkg_rel m)\<^sup>*} \<and> distinct (transitive_dep_closure m t)"
  by (rule closure_set)

section \<open>Affected packages\<close>

text \<open>petgraph's breadth-first search: nodes, edges and a start node to the nodes it visits.\<close>

type_synonym bfs = "nat \<Rightarrow> (nat \<times> nat) list \<Rightarrow> nat \<Rightarrow> nat list"

definition directly_affected :: "Package list \<Rightarrow> string list \<Rightarrow> string list" where
  "directly_affected pkgs changed =
     map pkg_name (filter (\<lambda>p. list_ex (\<lambda>f. path_starts_with f (pkg_path p)) changed) pkgs)"

definition affected_from :: "bfs \<Rightarrow> WorkspaceDag \<Rightarrow> string \<Rightarrow> string list \<Rightarrow> string list" where
  "affected_from bfs g name acc = (case hget (g_nodes g) name of
      None \<Rightarrow> acc
    | Some start \<Rightarrow> fold (\<lambda>i. set_insert (g_names g ! i))
        (bfs (length (g_names g)) (map prod.swap (g_edges g)) start) acc)"

definition affected_packages :: "bfs \<Rightarrow> Package list \<Rightarrow> WorkspaceDag \<Rightarrow> string list \<Rightarrow> string list" where
  "affected_packages bfs pkgs g changed =
     (let direct = directly_affected pkgs changed in
      if direct = [] then [] else fold (affected_from bfs g) direct [])"

section \<open>Changed files\<close>

text \<open>A git command's outcome: None when it could not be run, else its success, its standard output
  and its standard error.\<close>

type_synonym git_output = "(bool \<times> string \<times> string) option"

datatype git_error = GitNotRun | GitFailed string

definition git_lines :: "string \<Rightarrow> git_output \<Rightarrow> git_error + string list" where
  "git_lines root out = (case out of None \<Rightarrow> Inl GitNotRun
     | Some (ok, stdout, stderr) \<Rightarrow>
         if \<not> ok then Inl (GitFailed stderr)
         else Inr (map (path_join root) (filter (\<lambda>l. l \<noteq> []) (str_lines stdout))))"

definition git_changed_files :: "(string list \<Rightarrow> git_output) \<Rightarrow> string \<Rightarrow> string \<Rightarrow> git_error + string list" where
  "git_changed_files git root base_ref =
     git_lines root (git [''diff'', ''--name-only'', base_ref @ ''..HEAD''])"

fun dedup_paths :: "string list \<Rightarrow> string list \<Rightarrow> string list" where
  "dedup_paths [] acc = acc"
| "dedup_paths (p # ps) acc =
    (if path_components p \<in> set (map path_components acc) then dedup_paths ps acc
     else dedup_paths ps (acc @ [p]))"

definition git_dirty_files :: "(string list \<Rightarrow> git_output) \<Rightarrow> string \<Rightarrow> git_error + string list" where
  "git_dirty_files git root =
     (case git_lines root (git [''diff'', ''--name-only'']) of Inl e \<Rightarrow> Inl e
      | Inr unstaged \<Rightarrow> (case git_lines root (git [''diff'', ''--name-only'', ''--cached'']) of Inl e \<Rightarrow> Inl e
        | Inr staged \<Rightarrow> (case git_lines root (git [''ls-files'', ''--others'', ''--exclude-standard'']) of Inl e \<Rightarrow> Inl e
          | Inr untracked \<Rightarrow> Inr (sort_key path_key (dedup_paths (unstaged @ staged @ untracked) [])))))"

end
