(* ===== verification/Workspace_Props.thy ===== *)
theory Workspace_Props
  imports Workspace Scope
begin

text \<open>Properties of package discovery, of the dependency graph and of the affected set.\<close>

section \<open>Workspace dependencies\<close>

lemma push_new_spec:
  "set (push_new ws ns deps) = set deps \<union> (set ns \<inter> ws)"
  "distinct deps \<Longrightarrow> distinct (push_new ws ns deps)"
  by (induction ws ns deps rule: push_new.induct) auto

lemma fold_push_new:
  "set (fold (\<lambda>f deps. push_new ws (names f) deps) fs deps) = set deps \<union> ((\<Union>f\<in>set fs. set (names f)) \<inter> ws) \<and>
   (distinct deps \<longrightarrow> distinct (fold (\<lambda>f deps. push_new ws (names f) deps) fs deps))"
  by (induction fs arbitrary: deps) (auto simp: push_new_spec)

lemma workspace_deps_spec:
  "set (workspace_deps ws v) = (\<Union>f\<in>set dep_fields. set (field_names v f)) \<inter> ws"
  "sorted (workspace_deps ws v)" "distinct (workspace_deps ws v)"
  using fold_push_new[of ws "field_names v" dep_fields "[]"] by (simp_all add: workspace_deps_def)

text \<open>What resolving one package may do.\<close>

definition resolved_as :: "World \<Rightarrow> string set \<Rightarrow> Package \<Rightarrow> Package \<Rightarrow> bool" where
  "resolved_as w ws p q \<longleftrightarrow>
     (case w_read w (path_join (pkg_path p) ''package.json'') of
        Inl e \<Rightarrow> e = NotFound \<and> q = p
      | Inr raw \<Rightarrow> (case w_json w raw of None \<Rightarrow> False
          | Some v \<Rightarrow> q = p\<lparr>pkg_deps := pkg_deps q\<rparr> \<and> sorted (pkg_deps q) \<and> distinct (pkg_deps q) \<and>
              set (pkg_deps q) = {n \<in> ws. \<exists>f\<in>set dep_fields. n \<in> set (field_names v f)}))"

lemma resolve_package_as: "resolve_package w ws p = Inr q \<Longrightarrow> resolved_as w ws p q"
  using workspace_deps_spec
  by (auto simp: resolve_package_def resolved_as_def Let_def split: sum.splits io_error.splits option.splits)

lemma resolve_all_as: "resolve_all w ws ps = Inr qs \<Longrightarrow> list_all2 (resolved_as w ws) ps qs"
  by (induction ps arbitrary: qs) (auto split: sum.splits dest: resolve_package_as)

lemma resolved_as_name: "resolved_as w ws p q \<Longrightarrow> pkg_name q = pkg_name p"
  by (auto simp: resolved_as_def split: sum.splits option.splits)
     (metis Package.select_convs(1) Package.surjective Package.update_convs(4))

lemma package_graph_resolved:
  assumes "build_package_graph w pkgs = Inr qs"
  shows "map pkg_name qs = map pkg_name pkgs \<and>
    list_all2 (resolved_as w (pkg_name ` set pkgs)) pkgs qs"
proof -
  have r: "list_all2 (resolved_as w (pkg_name ` set pkgs)) pkgs qs"
    using assms resolve_all_as by (simp add: build_package_graph_def)
  then have "map pkg_name qs = map pkg_name pkgs"
    by (induction rule: list_all2_induct) (auto simp: resolved_as_name)
  with r show ?thesis by blast
qed

text \<open>Resolving the workspace keeps the packages, their order and everything but their dependencies;
  a package with a manifest gets as dependencies exactly the workspace packages its three dependency
  fields name, sorted and without repetitions.\<close>
theorem build_package_graph_correct:
  assumes "build_package_graph w pkgs = Inr qs"
  shows "map pkg_name qs = map pkg_name pkgs \<and>
    list_all2 (resolved_as w (pkg_name ` set pkgs)) pkgs qs"
  by (rule package_graph_resolved[OF assms])

definition ex_world :: World where
  "ex_world = \<lparr>w_read = (\<lambda>p. if p = ''/w/app/package.json'' then Inr ''{}'' else Inl NotFound),
     w_exists = (\<lambda>_. False), w_is_dir = (\<lambda>_. False), w_read_dir = (\<lambda>_. None), w_canon = (\<lambda>_. None), w_glob = (\<lambda>_. None),
     w_json = (\<lambda>_. Some (JObj [(''dependencies'', JObj [(''lib'', JStr ''*''), (''react'', JStr ''18'')]),
                               (''devDependencies'', JObj [(''lib'', JStr ''*'')])])),
     w_pnpm_packages = (\<lambda>_. None)\<rparr>"

definition ex_pkgs :: "Package list" where
  "ex_pkgs = [\<lparr>pkg_name = ''app'', pkg_version = ''1'', pkg_path = ''/w/app'', pkg_deps = []\<rparr>,
              \<lparr>pkg_name = ''lib'', pkg_version = ''1'', pkg_path = ''/w/lib'', pkg_deps = []\<rparr>]"

definition ex_resolved :: "Package list" where
  "ex_resolved = [\<lparr>pkg_name = ''app'', pkg_version = ''1'', pkg_path = ''/w/app'', pkg_deps = [''lib'']\<rparr>,
              \<lparr>pkg_name = ''lib'', pkg_version = ''1'', pkg_path = ''/w/lib'', pkg_deps = []\<rparr>]"

lemma ex_graph: "build_package_graph ex_world ex_pkgs = Inr ex_resolved"
  by (simp add: build_package_graph_def ex_pkgs_def ex_world_def ex_resolved_def resolve_package_def
      path_join_def is_absolute_def Let_def workspace_deps_def dep_fields_def field_names_def)

theorem build_package_graph_correct_witness:
  "map pkg_name ex_resolved = [''app'', ''lib''] \<and> resolved_as ex_world {''app'', ''lib''} (hd ex_pkgs) (hd ex_resolved)"
  using build_package_graph_correct[OF ex_graph] by (simp add: ex_pkgs_def ex_resolved_def)

section \<open>Building the graph\<close>

definition deps_rel :: "Package list \<Rightarrow> (string \<times> string) set" where
  "deps_rel pkgs = {(pkg_name p, d) | p d. p \<in> set pkgs \<and> d \<in> set (pkg_deps p)}"

definition pos_before :: "'a list \<Rightarrow> 'a \<Rightarrow> 'a \<Rightarrow> bool" where
  "pos_before xs a b \<longleftrightarrow> (\<exists>i j. i < j \<and> j < length xs \<and> xs ! i = a \<and> xs ! j = b)"

text \<open>petgraph's documented contract for \<^verbatim>\<open>toposort\<close> on one graph.\<close>

definition topo_ok :: "toposort \<Rightarrow> nat \<Rightarrow> (nat \<times> nat) list \<Rightarrow> bool" where
  "topo_ok ts n es \<longleftrightarrow> (case ts n es of
      Inl c \<Rightarrow> c < n \<and> (c, c) \<in> (set es)\<^sup>+
    | Inr order \<Rightarrow> distinct order \<and> set order = {..<n} \<and> (\<forall>(a, b)\<in>set es. pos_before order a b))"

definition topo_ok_for :: "toposort \<Rightarrow> Package list \<Rightarrow> bool" where
  "topo_ok_for ts pkgs \<longleftrightarrow> (case add_edges (add_nodes 0 pkgs []) pkgs of
      Inl _ \<Rightarrow> True | Inr es \<Rightarrow> topo_ok ts (length pkgs) es)"

lemma add_nodes_spec:
  "distinct (map pkg_name ps) \<Longrightarrow> hget (add_nodes i ps m) n = Some k \<longleftrightarrow>
     (\<exists>j<length ps. k = i + j \<and> pkg_name (ps ! j) = n) \<or> (n \<notin> pkg_name ` set ps \<and> hget m n = Some k)"
proof (induction i ps m rule: add_nodes.induct)
  case (2 i p ps m)
  then have "hget (add_nodes i (p # ps) m) n = Some k \<longleftrightarrow>
     (\<exists>j<length ps. k = Suc i + j \<and> pkg_name (ps ! j) = n) \<or>
     (n \<notin> pkg_name ` set ps \<and> (if n = pkg_name p then i = k else hget m n = Some k))"
    by (simp del: hget_hput add: hget_hput)
  moreover have "pkg_name p \<notin> pkg_name ` set ps" using "2.prems" by auto
  ultimately show ?case by (auto simp: Ex_less_Suc2)
qed simp

lemma node_index:
  assumes "distinct (map pkg_name pkgs)"
  shows "hget (add_nodes 0 pkgs []) n = Some k \<longleftrightarrow> k < length pkgs \<and> pkg_name (pkgs ! k) = n"
  using add_nodes_spec[OF assms, of 0 "[]"] by auto

lemma add_edges_from_spec:
  "case add_edges_from m name src ds of
     Inl e \<Rightarrow> \<exists>d\<in>set ds. e = UnknownDependency name d \<and> hget m d = None
   | Inr es \<Rightarrow> (\<forall>d\<in>set ds. hget m d \<noteq> None) \<and> set es = {(src, j) | d j. d \<in> set ds \<and> hget m d = Some j}"
  by (induction ds) (auto split: option.splits sum.splits)

definition src_index :: "(string, nat) hmap \<Rightarrow> Package \<Rightarrow> nat" where
  "src_index m p = (case hget m (pkg_name p) of Some i \<Rightarrow> i | None \<Rightarrow> 0)"

lemma add_edges_spec:
  "case add_edges m ps of
     Inl e \<Rightarrow> \<exists>p\<in>set ps. \<exists>d\<in>set (pkg_deps p). e = UnknownDependency (pkg_name p) d \<and> hget m d = None
   | Inr es \<Rightarrow> (\<forall>p\<in>set ps. \<forall>d\<in>set (pkg_deps p). hget m d \<noteq> None) \<and>
       set es = {(src_index m p, j) | p d j. p \<in> set ps \<and> d \<in> set (pkg_deps p) \<and> hget m d = Some j}"
proof (induction ps)
  case (Cons p ps)
  then show ?case
    using add_edges_from_spec[where m=m and name="pkg_name p" and src="src_index m p" and ds="pkg_deps p"]
    by (auto simp: src_index_def[symmetric] split: sum.splits)
qed simp

lemma node_none:
  assumes "distinct (map pkg_name pkgs)"
  shows "hget (add_nodes 0 pkgs []) n = None \<longleftrightarrow> n \<notin> pkg_name ` set pkgs"
proof
  assume "hget (add_nodes 0 pkgs []) n = None"
  then have "\<not> (k < length pkgs \<and> pkg_name (pkgs ! k) = n)" for k
    using node_index[OF assms, of n k] by simp
  then show "n \<notin> pkg_name ` set pkgs" by (metis imageE in_set_conv_nth)
next
  assume n: "n \<notin> pkg_name ` set pkgs"
  show "hget (add_nodes 0 pkgs []) n = None"
  proof (rule ccontr)
    assume "hget (add_nodes 0 pkgs []) n \<noteq> None"
    then obtain k where "k < length pkgs" "pkg_name (pkgs ! k) = n" using node_index[OF assms] by blast
    then show False using n by auto
  qed
qed

text \<open>The edges of the graph are the dependency relation, read through the node numbers.\<close>

lemma edges_are_deps:
  assumes d: "distinct (map pkg_name pkgs)" and es: "add_edges (add_nodes 0 pkgs []) pkgs = Inr es"
  shows "set es = {(i, j). i < length pkgs \<and> j < length pkgs \<and>
           (pkg_name (pkgs ! i), pkg_name (pkgs ! j)) \<in> deps_rel pkgs}"
    and "\<And>p q. (p, q) \<in> deps_rel pkgs \<Longrightarrow> q \<in> pkg_name ` set pkgs"
proof -
  let ?m = "add_nodes 0 pkgs []"
  have E: "\<forall>p\<in>set pkgs. \<forall>d\<in>set (pkg_deps p). hget ?m d \<noteq> None"
    "set es = {(src_index ?m p, j) | p d j. p \<in> set pkgs \<and> d \<in> set (pkg_deps p) \<and> hget ?m d = Some j}"
    using add_edges_spec[where m="?m" and ps=pkgs] es by auto
  then show "\<And>p q. (p, q) \<in> deps_rel pkgs \<Longrightarrow> q \<in> pkg_name ` set pkgs"
    using node_none[OF d] by (auto simp: deps_rel_def)
  have src: "src_index ?m p = i \<longleftrightarrow> p = pkgs ! i" if "p \<in> set pkgs" "i < length pkgs" for p i
  proof -
    have "hget ?m (pkg_name (pkgs ! i)) = Some i" using node_index[OF d] that(2) by blast
    moreover have "p = pkgs ! i" if "hget ?m (pkg_name p) = Some i"
      using node_index[OF d, of "pkg_name p" i] that \<open>p \<in> set pkgs\<close> d
      by (metis distinct_map inj_onD nth_mem)
    moreover have "hget ?m (pkg_name p) \<noteq> None" using node_none[OF d] \<open>p \<in> set pkgs\<close> by blast
    ultimately show ?thesis by (auto simp: src_index_def)
  qed
  have src_lt: "src_index ?m p < length pkgs" if "p \<in> set pkgs" for p
  proof -
    from that have "hget ?m (pkg_name p) \<noteq> None" using node_none[OF d, of "pkg_name p"] by blast
    then obtain i where i: "hget ?m (pkg_name p) = Some i" by blast
    then have "i < length pkgs" using node_index[OF d] by blast
    then show ?thesis using i by (simp add: src_index_def)
  qed
  show "set es = {(i, j). i < length pkgs \<and> j < length pkgs \<and>
           (pkg_name (pkgs ! i), pkg_name (pkgs ! j)) \<in> deps_rel pkgs}"
  proof (intro set_eqI iffI; clarify)
    fix i j assume "(i, j) \<in> set es"
    then obtain p dep where p: "p \<in> set pkgs" "dep \<in> set (pkg_deps p)" "hget ?m dep = Some j"
      "i = src_index ?m p" using E(2) by auto
    then show "i < length pkgs \<and> j < length pkgs \<and>
           (pkg_name (pkgs ! i), pkg_name (pkgs ! j)) \<in> deps_rel pkgs"
      using src_lt src node_index[OF d] by (auto simp: deps_rel_def) (metis)
  next
    fix i j assume ij: "i < length pkgs" "j < length pkgs"
      "(pkg_name (pkgs ! i), pkg_name (pkgs ! j)) \<in> deps_rel pkgs"
    then obtain p where p: "p \<in> set pkgs" "pkg_name (pkgs ! i) = pkg_name p" "pkg_name (pkgs ! j) \<in> set (pkg_deps p)"
      by (auto simp: deps_rel_def)
    then have "p = pkgs ! i" using d ij(1) by (metis distinct_map inj_onD nth_mem)
    then have "i = src_index ?m p" using src p(1) ij(1) by metis
    moreover have "hget ?m (pkg_name (pkgs ! j)) = Some j" using node_index[OF d] ij(2) by blast
    ultimately show "(i, j) \<in> set es" using E(2) p by blast
  qed
qed

lemma fold_packages:
  "distinct (map pkg_name pkgs) \<Longrightarrow>
   hget (fold (\<lambda>p m. hput (pkg_name p) p m) pkgs []) n = Some p \<longleftrightarrow> p \<in> set pkgs \<and> pkg_name p = n"
proof (induction pkgs rule: rev_induct)
  case (snoc x xs)
  then show ?case by (auto simp: image_iff)
qed simp

lemma pkg_rel_packages:
  "distinct (map pkg_name pkgs) \<Longrightarrow>
   pkg_rel (fold (\<lambda>p m. hput (pkg_name p) p m) pkgs []) = deps_rel pkgs"
  by (auto simp: pkg_rel_def deps_rel_def fold_packages)

lemma edges_path:
  assumes "distinct (map pkg_name pkgs)" "add_edges (add_nodes 0 pkgs []) pkgs = Inr es"
    "(i, j) \<in> (set es)\<^sup>+"
  shows "(pkg_name (pkgs ! i), pkg_name (pkgs ! j)) \<in> (deps_rel pkgs)\<^sup>+ \<and> i < length pkgs \<and> j < length pkgs"
  using assms(3)
  by induction (auto simp: edges_are_deps(1)[OF assms(1,2)] intro: trancl_into_trancl)

lemma deps_path:
  assumes "distinct (map pkg_name pkgs)" "add_edges (add_nodes 0 pkgs []) pkgs = Inr es"
    "(p, q) \<in> (deps_rel pkgs)\<^sup>+"
  shows "\<exists>i j. (i, j) \<in> (set es)\<^sup>+ \<and> i < length pkgs \<and> j < length pkgs \<and>
    pkg_name (pkgs ! i) = p \<and> pkg_name (pkgs ! j) = q"
proof -
  note E = edges_are_deps[OF assms(1,2)]
  have idx: "\<exists>i<length pkgs. pkg_name (pkgs ! i) = n" if "n \<in> pkg_name ` set pkgs" for n
    using that by (metis imageE in_set_conv_nth)
  have edge: "\<exists>i j. (i, j) \<in> set es \<and> i < length pkgs \<and> j < length pkgs \<and>
      pkg_name (pkgs ! i) = a \<and> pkg_name (pkgs ! j) = b" if ab: "(a, b) \<in> deps_rel pkgs" for a b
  proof -
    have "a \<in> pkg_name ` set pkgs" using ab by (auto simp: deps_rel_def)
    then obtain i where i: "i < length pkgs" "pkg_name (pkgs ! i) = a" using idx by blast
    obtain j where j: "j < length pkgs" "pkg_name (pkgs ! j) = b" using idx E(2)[OF ab] by blast
    then show ?thesis using i ab E(1) by blast
  qed
  have uniq: "i = j" if "pkg_name (pkgs ! i) = pkg_name (pkgs ! j)" "i < length pkgs" "j < length pkgs" for i j
    using that assms(1) nth_eq_iff_index_eq[of "map pkg_name pkgs" i j] by simp
  show ?thesis
    using assms(3)
  proof induction
    case (base y)
    then show ?case using edge by blast
  next
    case (step y z)
    then obtain i j where ij: "(i, j) \<in> (set es)\<^sup>+" "i < length pkgs" "j < length pkgs"
      "pkg_name (pkgs ! i) = p" "pkg_name (pkgs ! j) = y" by blast
    obtain j' k where "(j', k) \<in> set es" "j' < length pkgs" "k < length pkgs"
      "pkg_name (pkgs ! j') = y" "pkg_name (pkgs ! k) = z" using edge[OF step(2)] by blast
    then show ?case using ij uniq by (metis trancl_into_trancl)
  qed
qed

lemma pos_before_trans:
  assumes "distinct xs" "pos_before xs a b" "pos_before xs b c"
  shows "pos_before xs a c"
  using assms by (auto simp: pos_before_def) (metis (no_types) assms(1) less_trans nth_eq_iff_index_eq)

lemma topo_acyclic:
  assumes "distinct order" "\<forall>(a, b)\<in>E. pos_before order a b"
  shows "acyclic E"
proof -
  have "(a, b) \<in> E\<^sup>+ \<Longrightarrow> pos_before order a b" for a b
    by (induction rule: trancl_induct) (use assms pos_before_trans[OF assms(1)] in blast)+
  moreover have "\<not> pos_before order a a" for a
    using assms(1) by (auto simp: pos_before_def nth_eq_iff_index_eq)
  ultimately show ?thesis by (auto simp: acyclic_def)
qed

lemma build_dag_cases:
  assumes "distinct (map pkg_name pkgs)" "topo_ok_for ts pkgs"
  shows "case build_dag ts pkgs of
      Inl (UnknownDependency p d) \<Rightarrow> (p, d) \<in> deps_rel pkgs \<and> d \<notin> pkg_name ` set pkgs
    | Inl (Cycle p) \<Rightarrow> (p, p) \<in> (deps_rel pkgs)\<^sup>+
    | Inr g \<Rightarrow> acyclic (deps_rel pkgs) \<and> Range (deps_rel pkgs) \<subseteq> pkg_name ` set pkgs \<and>
        g_names g = map pkg_name pkgs \<and> pkg_rel (g_packages g) = deps_rel pkgs"
proof (cases "add_edges (add_nodes 0 pkgs []) pkgs")
  case (Inl e)
  then show ?thesis
    using add_edges_spec[where m="add_nodes 0 pkgs []" and ps=pkgs] node_none[OF assms(1)]
    by (auto simp: build_dag_def deps_rel_def Let_def)
next
  case (Inr es)
  then have ok: "topo_ok ts (length pkgs) es" using assms(2) by (simp add: topo_ok_for_def)
  note E = edges_are_deps[OF assms(1) Inr]
  show ?thesis
  proof (cases "ts (length pkgs) es")
    case (Inl c)
    then have "c < length pkgs" "(c, c) \<in> (set es)\<^sup>+" using ok by (auto simp: topo_ok_def)
    then show ?thesis using edges_path[OF assms(1) Inr] Inl Inr by (auto simp: build_dag_def Let_def)
  next
    case order: (Inr order)
    then have "acyclic (set es)" using ok topo_acyclic by (auto simp: topo_ok_def)
    have "acyclic (deps_rel pkgs)"
      unfolding acyclic_def
    proof (intro allI notI)
      fix p assume "(p, p) \<in> (deps_rel pkgs)\<^sup>+"
      then obtain i j where "(i, j) \<in> (set es)\<^sup>+" "i < length pkgs" "j < length pkgs"
        "pkg_name (pkgs ! i) = pkg_name (pkgs ! j)"
        using deps_path[OF assms(1) Inr] by metis
      moreover from this have "i = j"
        using assms(1) nth_eq_iff_index_eq[of "map pkg_name pkgs" i j] by simp
      ultimately show False using \<open>acyclic (set es)\<close> by (auto simp: acyclic_def)
    qed
    then show ?thesis using E(2) order Inr
      by (auto simp: build_dag_def Let_def pkg_rel_packages[OF assms(1)])
  qed
qed

text \<open>C6. Building the graph of a workspace with distinct package names succeeds exactly when every
  dependency is a package and the dependencies have no cycle; an unknown dependency and a package on a
  cycle are reported as such, and the graph that is built has the packages and their dependencies.\<close>
theorem build_dag_correct:
  assumes "distinct (map pkg_name pkgs)" "topo_ok_for ts pkgs"
  shows "case build_dag ts pkgs of
      Inl (UnknownDependency p d) \<Rightarrow> (p, d) \<in> deps_rel pkgs \<and> d \<notin> pkg_name ` set pkgs
    | Inl (Cycle p) \<Rightarrow> (p, p) \<in> (deps_rel pkgs)\<^sup>+
    | Inr g \<Rightarrow> acyclic (deps_rel pkgs) \<and> Range (deps_rel pkgs) \<subseteq> pkg_name ` set pkgs \<and>
        g_names g = map pkg_name pkgs \<and> pkg_rel (g_packages g) = deps_rel pkgs"
  by (rule build_dag_cases[OF assms])

definition ex_topo :: toposort where
  "ex_topo n es = (if es = [(0, 1)] then Inr [0, 1] else if es = [(1, 0)] then Inr [1, 0] else Inr [])"

lemma pos_before_two: "pos_before [a, b] a b"
  unfolding pos_before_def by (rule exI[of _ 0], rule exI[of _ 1]) simp

theorem build_dag_correct_witness:
  "acyclic (deps_rel ex_resolved) \<and> (\<exists>g. build_dag ex_topo ex_resolved = Inr g)"
  using build_dag_correct[of ex_resolved ex_topo]
  by (auto simp: ex_resolved_def topo_ok_for_def topo_ok_def ex_topo_def build_dag_def Let_def
      lessThan_Suc pos_before_two numeral_2_eq_2 split: sum.splits dag_error.splits)

lemma topo_order_deps:
  assumes "distinct (map pkg_name pkgs)" "build_dag ts pkgs = Inr g"
    "topo_ok ts (length pkgs) (map prod.swap (g_edges g))" "topological_sort ts g = Inr order"
  shows "distinct order \<and> set order = pkg_name ` set pkgs \<and>
    (\<forall>(p, d)\<in>deps_rel pkgs. pos_before order d p)"
proof -
  obtain es where es: "add_edges (add_nodes 0 pkgs []) pkgs = Inr es" and g: "g_edges g = es"
    "g_names g = map pkg_name pkgs"
    using assms(2) by (auto simp: build_dag_def Let_def split: sum.splits)
  let ?f = "\<lambda>i. map pkg_name pkgs ! i"
  obtain nds where nds: "ts (length pkgs) (map prod.swap es) = Inr nds" "order = map ?f nds"
    using assms(4) g by (auto simp: topological_sort_def split: sum.splits)
  then have ok: "distinct nds" "set nds = {..<length pkgs}" "\<And>a b. (a, b) \<in> set es \<Longrightarrow> pos_before nds b a"
    using assms(3) g by (auto simp: topo_ok_def)
  have inj: "inj_on ?f (set nds)"
    by (rule inj_on_nth) (use assms(1) ok(2) in auto)
  have mono: "pos_before order (?f a) (?f b)" if "pos_before nds a b" for a b
  proof -
    from that obtain i j where ij: "i < j" "j < length nds" "nds ! i = a" "nds ! j = b"
      by (auto simp: pos_before_def)
    then have "order ! i = ?f a" "order ! j = ?f b" "j < length order" by (simp_all add: nds(2))
    with ij(1) show ?thesis unfolding pos_before_def by blast
  qed
  have "pos_before order d p" if pd: "(p, d) \<in> deps_rel pkgs" for p d
  proof -
    have "p \<in> pkg_name ` set pkgs" "d \<in> pkg_name ` set pkgs"
      using pd edges_are_deps(2)[OF assms(1) es] by (auto simp: deps_rel_def)
    then obtain i j where i: "i < length pkgs" "pkg_name (pkgs ! i) = p"
      and j: "j < length pkgs" "pkg_name (pkgs ! j) = d" by (metis imageE in_set_conv_nth)
    then have "(i, j) \<in> set es" using pd by (simp add: edges_are_deps(1)[OF assms(1) es])
    then have "pos_before order (?f j) (?f i)" using ok(3) mono by blast
    then show ?thesis using i j by simp
  qed
  moreover have "set order = pkg_name ` set pkgs"
    unfolding nds(2) by (auto simp: ok(2) in_set_conv_nth image_iff) (metis nth_mem)+
  moreover have "distinct order" using ok(1) inj by (simp add: nds(2) distinct_map)
  ultimately show ?thesis by auto
qed

text \<open>C7. In the topological order of a built graph every package comes after all its dependencies.\<close>
theorem topological_sort_correct:
  assumes "distinct (map pkg_name pkgs)" "build_dag ts pkgs = Inr g"
    "topo_ok ts (length pkgs) (map prod.swap (g_edges g))" "topological_sort ts g = Inr order"
  shows "distinct order \<and> set order = pkg_name ` set pkgs \<and>
    (\<forall>(p, d)\<in>deps_rel pkgs. pos_before order d p)"
  by (rule topo_order_deps[OF assms])

definition ex_dag :: WorkspaceDag where
  "ex_dag = \<lparr>g_names = [''app'', ''lib''], g_edges = [(0, 1)], g_nodes = [(''app'', 0), (''lib'', 1)],
     g_packages = [(''app'', hd ex_resolved), (''lib'', last ex_resolved)]\<rparr>"

lemma ex_build: "build_dag ex_topo ex_resolved = Inr ex_dag"
  by (simp add: ex_resolved_def ex_topo_def build_dag_def Let_def ex_dag_def)

theorem topological_sort_correct_witness:
  "topological_sort ex_topo ex_dag = Inr [''lib'', ''app''] \<and> pos_before [''lib'', ''app''] ''lib'' ''app''"
  using topological_sort_correct[OF _ ex_build, of "[''lib'', ''app'']"]
  by (simp add: ex_resolved_def ex_dag_def topo_ok_def ex_topo_def topological_sort_def
      lessThan_Suc pos_before_two numeral_2_eq_2 insert_commute)

section \<open>Affected packages\<close>

text \<open>What petgraph documents of breadth-first search on one graph and start node.\<close>

definition bfs_ok :: "bfs \<Rightarrow> nat \<Rightarrow> (nat \<times> nat) list \<Rightarrow> nat \<Rightarrow> bool" where
  "bfs_ok bfs n es s \<longleftrightarrow> set (bfs n es s) = {j. (s, j) \<in> (set es)\<^sup>*}"

lemma affected_fold:
  "set (fold (affected_from bfs g) ns acc) = set acc \<union>
     {g_names g ! i | i n s. n \<in> set ns \<and> hget (g_nodes g) n = Some s \<and>
        i \<in> set (bfs (length (g_names g)) (map prod.swap (g_edges g)) s)}"
proof (induction ns arbitrary: acc)
  case (Cons n ns)
  have ins: "set (fold (\<lambda>i. set_insert (f i)) nds acc) = f ` set nds \<union> set acc" for f :: "nat \<Rightarrow> string" and nds acc
    by (induction nds arbitrary: acc) auto
  have "set (affected_from bfs g n acc) = set acc \<union> {g_names g ! i | i s. hget (g_nodes g) n = Some s \<and>
        i \<in> set (bfs (length (g_names g)) (map prod.swap (g_edges g)) s)}"
    by (auto simp: affected_from_def ins split: option.splits)
  then show ?case by (auto simp: Cons)
qed simp

lemma swapped_path: "(a, b) \<in> (set (map prod.swap es))\<^sup>* \<longleftrightarrow> (b, a) \<in> (set es)\<^sup>*"
proof -
  have "set (map prod.swap es) = (set es)\<inverse>" by (force simp: image_iff)
  then show ?thesis by (simp add: rtrancl_converse)
qed

lemma reaching_packages:
  assumes "distinct (map pkg_name pkgs)" "add_edges (add_nodes 0 pkgs []) pkgs = Inr es" "s < length pkgs"
  shows "(\<exists>i. (i, s) \<in> (set es)\<^sup>* \<and> map pkg_name pkgs ! i = p) \<longleftrightarrow> (p, pkg_name (pkgs ! s)) \<in> (deps_rel pkgs)\<^sup>*"
proof
  assume "\<exists>i. (i, s) \<in> (set es)\<^sup>* \<and> map pkg_name pkgs ! i = p"
  then obtain i where i: "(i, s) \<in> (set es)\<^sup>*" "map pkg_name pkgs ! i = p" by blast
  show "(p, pkg_name (pkgs ! s)) \<in> (deps_rel pkgs)\<^sup>*"
  proof (cases "i = s")
    case True
    then show ?thesis using i assms(3) by simp
  next
    case False
    then have "(i, s) \<in> (set es)\<^sup>+" using i by (metis rtranclD)
    then show ?thesis using edges_path[OF assms(1,2)] i by (auto intro: trancl_into_rtrancl)
  qed
next
  assume "(p, pkg_name (pkgs ! s)) \<in> (deps_rel pkgs)\<^sup>*"
  then consider "p = pkg_name (pkgs ! s)" | "(p, pkg_name (pkgs ! s)) \<in> (deps_rel pkgs)\<^sup>+"
    by (metis rtranclD)
  then show "\<exists>i. (i, s) \<in> (set es)\<^sup>* \<and> map pkg_name pkgs ! i = p"
  proof cases
    case 1
    then show ?thesis using assms(3) by (intro exI[of _ s]) simp
  next
    case 2
    then obtain i j where "(i, j) \<in> (set es)\<^sup>+" "i < length pkgs" "j < length pkgs"
      "pkg_name (pkgs ! i) = p" "pkg_name (pkgs ! j) = pkg_name (pkgs ! s)"
      using deps_path[OF assms(1,2)] by blast
    moreover from this have "j = s"
      using assms(1,3) nth_eq_iff_index_eq[of "map pkg_name pkgs" j s] by simp
    ultimately show ?thesis by (intro exI[of _ i]) (auto intro: trancl_into_rtrancl)
  qed
qed

text \<open>C5. \<^verbatim>\<open>--since\<close> and \<^verbatim>\<open>--affected\<close>: the affected set nds exactly the packages that depend, reflexively and
  transitively, on a package whose directory contains (component-wise) a changed file.\<close>
theorem affected_packages_correct:
  assumes "distinct (map pkg_name pkgs)" "build_dag ts pkgs = Inr g"
    "\<forall>s<length pkgs. bfs_ok bfs (length pkgs) (map prod.swap (g_edges g)) s"
  shows "set (affected_packages bfs pkgs g changed) =
    {p. \<exists>q\<in>set pkgs. (\<exists>f\<in>set changed. path_starts_with f (pkg_path q)) \<and>
          (p, pkg_name q) \<in> (deps_rel pkgs)\<^sup>*}"
proof -
  obtain es where es: "add_edges (add_nodes 0 pkgs []) pkgs = Inr es" and g: "g_edges g = es"
    "g_names g = map pkg_name pkgs" "g_nodes g = add_nodes 0 pkgs []"
    using assms(2) by (auto simp: build_dag_def Let_def split: sum.splits)
  have bfs: "set (bfs (length pkgs) (map prod.swap es) s) = {j. (j, s) \<in> (set es)\<^sup>*}" if "s < length pkgs" for s
    using assms(3) that by (simp add: bfs_ok_def g swapped_path del: set_map)
  have direct: "set (directly_affected pkgs changed) =
      {pkg_name q | q. q \<in> set pkgs \<and> (\<exists>f\<in>set changed. path_starts_with f (pkg_path q))}"
    by (auto simp: directly_affected_def list_ex_iff)
  have idx: "hget (add_nodes 0 pkgs []) n = Some s \<longleftrightarrow> s < length pkgs \<and> pkg_name (pkgs ! s) = n" for n s
    by (rule node_index[OF assms(1)])
  have "set (affected_packages bfs pkgs g changed) =
    {map pkg_name pkgs ! i | i n s. n \<in> set (directly_affected pkgs changed) \<and>
       hget (add_nodes 0 pkgs []) n = Some s \<and> i \<in> set (bfs (length pkgs) (map prod.swap es) s)}"
    by (auto simp: affected_packages_def Let_def affected_fold g)
  also have "\<dots> = {p. \<exists>s<length pkgs. pkg_name (pkgs ! s) \<in> set (directly_affected pkgs changed) \<and>
      (\<exists>i. (i, s) \<in> (set es)\<^sup>* \<and> map pkg_name pkgs ! i = p)}"
    unfolding idx using bfs by blast
  also have "\<dots> = {p. \<exists>s<length pkgs. pkg_name (pkgs ! s) \<in> set (directly_affected pkgs changed) \<and>
      (p, pkg_name (pkgs ! s)) \<in> (deps_rel pkgs)\<^sup>*}"
    using reaching_packages[OF assms(1) es] by blast
  also have "\<dots> = {p. \<exists>q\<in>set pkgs. (\<exists>f\<in>set changed. path_starts_with f (pkg_path q)) \<and>
          (p, pkg_name q) \<in> (deps_rel pkgs)\<^sup>*}"
    unfolding direct by (auto simp: in_set_conv_nth) (metis nth_mem)+
  finally show ?thesis .
qed

definition ex_bfs :: bfs where
  "ex_bfs n es s = (if s = 1 then [1, 0] else [0])"

lemma one_edge_path: "(a, b) \<in> {(1::nat, 0::nat)}\<^sup>* \<longleftrightarrow> a = b \<or> (a = 1 \<and> b = 0)"
proof
  assume "(a, b) \<in> {(1, 0)}\<^sup>*"
  then show "a = b \<or> (a = 1 \<and> b = 0)" by (induction) auto
qed auto

lemma ex_bfs_ok: "\<forall>s<length ex_resolved. bfs_ok ex_bfs (length ex_resolved) (map prod.swap (g_edges ex_dag)) s"
  by (auto simp: ex_resolved_def bfs_ok_def ex_dag_def ex_bfs_def one_edge_path[simplified] less_Suc_eq)

theorem affected_packages_correct_witness:
  "set (affected_packages ex_bfs ex_resolved ex_dag [''/w/lib/src/a.ts'']) =
    {p. \<exists>q\<in>set ex_resolved. path_starts_with ''/w/lib/src/a.ts'' (pkg_path q) \<and>
          (p, pkg_name q) \<in> (deps_rel ex_resolved)\<^sup>*} \<and>
   affected_packages ex_bfs ex_resolved ex_dag [''/w/lib/src/a.ts''] = [''lib'', ''app'']"
  using affected_packages_correct[OF _ ex_build ex_bfs_ok, of "[''/w/lib/src/a.ts'']"]
  by (simp add: ex_resolved_def) (simp add: ex_dag_def affected_packages_def
      directly_affected_def affected_from_def ex_bfs_def set_insert_def path_starts_with_def
      path_components_def path_segs_def is_absolute_def)

section \<open>From discovery to the graph\<close>

lemma from_manifest_no_deps: "from_manifest_dir w d = Inr p \<Longrightarrow> pkg_deps p = []"
  by (auto simp: from_manifest_dir_def Let_def split: sum.splits option.splits)

lemma load_dirs_no_deps: "load_dirs w ds = Inr ps \<Longrightarrow> p \<in> set ps \<Longrightarrow> pkg_deps p = []"
  by (induction ds arbitrary: ps) (auto split: if_splits sum.splits dest: from_manifest_no_deps)

lemma load_globs_no_deps: "load_globs w root gs = Inr ps \<Longrightarrow> p \<in> set ps \<Longrightarrow> pkg_deps p = []"
  by (induction gs arbitrary: ps) (auto split: sum.splits dest: load_dirs_no_deps)

text \<open>A discovered and resolved workspace with distinct package names never fails with an unknown
  dependency: only a cycle can stop its graph from being built; and discovery returns the packages
  sorted by name.\<close>
theorem discovered_graph_known:
  assumes "discover_packages w root = Inr ps" "build_package_graph w ps = Inr qs"
    "distinct (map pkg_name ps)" "topo_ok_for ts qs"
  shows "build_dag ts qs \<noteq> Inl (UnknownDependency p d) \<and> sorted (map pkg_name ps)"
proof -
  have none: "pkg_deps p = []" if "p \<in> set ps" for p
    using assms(1) that by (auto simp: discover_packages_def split: option.splits sum.splits dest: load_globs_no_deps)
  have sorted: "sorted (map pkg_name ps)"
    using assms(1) by (auto simp: discover_packages_def split: option.splits sum.splits)
  note R = package_graph_resolved[OF assms(2)]
  have "set (pkg_deps q) \<subseteq> pkg_name ` set qs" if q: "q \<in> set qs" for q
  proof -
    obtain p where p: "p \<in> set ps" "resolved_as w (pkg_name ` set ps) p q"
      using R q by (metis list_all2_conv_all_nth in_set_conv_nth nth_mem)
    have "pkg_name ` set qs = pkg_name ` set ps" using R by (metis set_map)
    then show ?thesis using p none[OF p(1)]
      by (auto simp: resolved_as_def split: sum.splits option.splits)
  qed
  then have "Range (deps_rel qs) \<subseteq> pkg_name ` set qs" by (auto simp: deps_rel_def)
  moreover have "distinct (map pkg_name qs)" using R assms(3) by simp
  ultimately have "build_dag ts qs \<noteq> Inl (UnknownDependency p d)"
    using build_dag_cases[OF _ assms(4)] by fastforce
  with sorted show ?thesis by blast
qed

text \<open>A pnpm workspace with two packages for the witness.\<close>

definition ex_disc :: World where
  "ex_disc = \<lparr>w_read = (\<lambda>p. if p = ''/w/pnpm-workspace.yaml'' then Inr ''y''
        else if p = ''/w/lib/package.json'' then Inr ''l'' else if p = ''/w/app/package.json'' then Inr ''a''
        else Inl NotFound),
     w_exists = (\<lambda>_. True), w_is_dir = (\<lambda>_. True), w_read_dir = (\<lambda>_. None), w_canon = Some,
     w_glob = (\<lambda>_. Some [Some ''/w/lib'', Some ''/w/app'']),
     w_json = (\<lambda>s. if s = ''l'' then Some (JObj [(''name'', JStr ''lib'')])
        else Some (JObj [(''name'', JStr ''app''), (''dependencies'', JObj [(''lib'', JStr ''*'')])])),
     w_pnpm_packages = (\<lambda>_. Some [''*''])\<rparr>"

definition ex_disc_pkgs :: "Package list" where
  "ex_disc_pkgs = [\<lparr>pkg_name = ''app'', pkg_version = ''0.0.0'', pkg_path = ''/w/app'', pkg_deps = []\<rparr>,
              \<lparr>pkg_name = ''lib'', pkg_version = ''0.0.0'', pkg_path = ''/w/lib'', pkg_deps = []\<rparr>]"

lemma ex_disc_run: "discover_packages ex_disc ''/w'' = Inr ex_disc_pkgs"
  by (simp add: discover_packages_def detect_package_manager_def ex_disc_def path_join_def is_absolute_def
      Let_def resolve_glob_def from_manifest_dir_def ex_disc_pkgs_def less_char_def less_eq_char_def)

lemma ex_disc_resolved: "build_package_graph ex_disc ex_disc_pkgs = Inr
    [(hd ex_disc_pkgs)\<lparr>pkg_deps := [''lib'']\<rparr>, last ex_disc_pkgs]"
  by (simp add: build_package_graph_def ex_disc_pkgs_def ex_disc_def resolve_package_def
      path_join_def is_absolute_def Let_def workspace_deps_def dep_fields_def field_names_def)

theorem discovered_graph_known_witness:
  "build_dag ex_topo [(hd ex_disc_pkgs)\<lparr>pkg_deps := [''lib'']\<rparr>, last ex_disc_pkgs] \<noteq>
     Inl (UnknownDependency ''app'' ''lib'')"
  using discovered_graph_known[OF ex_disc_run ex_disc_resolved, of ex_topo "''app''" "''lib''"]
  by (simp add: ex_disc_pkgs_def topo_ok_for_def topo_ok_def ex_topo_def
      lessThan_Suc pos_before_two numeral_2_eq_2 insert_commute)

end
