(* ===== verification/Globs.thy ===== *)
theory Globs
  imports Strings
begin

text \<open>
  The two hand-written glob matchers of the scheduler: \<^verbatim>\<open>simple_glob_match\<close>
  (src/crates/scheduler/src/task.rs) and the component matcher with \<^verbatim>\<open>**\<close>
  (src/crates/scheduler/src/runner.rs), against a declarative matcher.  Both search greedily for
  the literal parts between the stars; the lemmas show that greed loses no match.
\<close>

abbreviation star :: char where "star \<equiv> CHR 42"

section \<open>The matchers\<close>

text \<open>The loop over the literal parts; \<^verbatim>\<open>first\<close> is the test \<^verbatim>\<open>i == 0\<close>, an empty rest the test for the last part.\<close>

fun glob_loop :: "bool \<Rightarrow> string list \<Rightarrow> string \<Rightarrow> bool" where
  "glob_loop first [] s = True"
| "glob_loop first (part # rest) s =
    (if part = [] then glob_loop False rest s
     else if first then
       (case strip_pre part s of None \<Rightarrow> False | Some s' \<Rightarrow> glob_loop False rest s')
     else if rest = [] then ends_with part s
     else (case split_at part s of None \<Rightarrow> False | Some (_, s') \<Rightarrow> glob_loop False rest s'))"

definition simple_glob_match :: "string \<Rightarrow> string \<Rightarrow> bool" where
  "simple_glob_match pattern name =
     (let parts = split_on star pattern in
      if length parts = 1 then pattern = name else glob_loop True parts name)"

definition simple_component_match :: "string \<Rightarrow> string \<Rightarrow> bool" where
  "simple_component_match pattern s =
     (if pattern = [star] then True
      else if star \<notin> set pattern then pattern = s
      else glob_loop True (split_on star pattern) s)"

function glob_match_recursive :: "string list \<Rightarrow> string list \<Rightarrow> bool" where
  "glob_match_recursive [] [] = True"
| "glob_match_recursive [] (s # ss) = False"
| "glob_match_recursive (p # ps) ss =
    (if p = ''**'' then
       (if ps = [] then True
        else list_ex (\<lambda>i. glob_match_recursive ps (drop i ss)) [0..<Suc (length ss)])
     else (case ss of [] \<Rightarrow> False
       | s # ss' \<Rightarrow> simple_component_match p s \<and> glob_match_recursive ps ss'))"
  by pat_completeness auto
termination by (relation "measure (length \<circ> fst)") auto

definition output_glob_matches :: "string \<Rightarrow> string \<Rightarrow> bool" where
  "output_glob_matches glob path =
     glob_match_recursive (split_on slash (replace_char (CHR 92) ''/'' glob))
       (split_on slash (replace_char (CHR 92) ''/'' path))"

section \<open>The reference matcher\<close>

text \<open>A star stands for any text, every other character for itself.\<close>

fun wild :: "string \<Rightarrow> string \<Rightarrow> bool" where
  "wild [] s = (s = [])"
| "wild (c # p) [] = (c = star \<and> wild p [])"
| "wild (c # p) (x # s) =
    (if c = star then wild p (x # s) \<or> wild (c # p) s else x = c \<and> wild p s)"

text \<open>\<^verbatim>\<open>**\<close> stands for any number of path components, every other component for one.\<close>

inductive path_wild :: "string list \<Rightarrow> string list \<Rightarrow> bool" where
  path_wild_nil: "path_wild [] []"
| path_wild_skip: "path_wild ps ss \<Longrightarrow> path_wild (''**'' # ps) ss"
| path_wild_take: "path_wild (''**'' # ps) ss \<Longrightarrow> path_wild (''**'' # ps) (s # ss)"
| path_wild_comp: "p \<noteq> ''**'' \<Longrightarrow> wild p s \<Longrightarrow> path_wild ps ss \<Longrightarrow> path_wild (p # ps) (s # ss)"

inductive_simps path_wild_simps:
  "path_wild [] ss"
  "path_wild (p # ps) []"
  "path_wild (p # ps) (s # ss)"

lemma wild_star: "wild (star # p) s \<longleftrightarrow> (\<exists>a b. s = a @ b \<and> wild p b)"
proof (induction s)
  case (Cons x s)
  show ?case
  proof
    assume "wild (star # p) (x # s)"
    then consider "wild p (x # s)" | "wild (star # p) s" by auto
    then show "\<exists>a b. x # s = a @ b \<and> wild p b"
    proof cases
      case 1
      then show ?thesis by (metis append_Nil)
    next
      case 2
      then obtain a b where "s = a @ b" "wild p b" using Cons.IH by blast
      then show ?thesis by (metis append_Cons)
    qed
  next
    assume "\<exists>a b. x # s = a @ b \<and> wild p b"
    then show "wild (star # p) (x # s)"
      using Cons.IH by (auto simp: append_eq_Cons_conv Cons_eq_append_conv)
  qed
qed simp

lemma wild_literal: "star \<notin> set p \<Longrightarrow> wild (p @ q) s \<longleftrightarrow> (\<exists>r. s = p @ r \<and> wild q r)"
proof (induction p arbitrary: s)
  case (Cons c p)
  then show ?case by (cases s) auto
qed simp

lemma wild_no_star: "star \<notin> set p \<Longrightarrow> wild p s \<longleftrightarrow> s = p"
  using wild_literal[of p "[]" s] by simp

section \<open>Greedy search\<close>

text \<open>What is left to match after a star: the parts in order, anything between, the last part at the end.\<close>

fun star_match :: "string list \<Rightarrow> string \<Rightarrow> bool" where
  "star_match [] s = (s = [])"
| "star_match [p] s = (\<exists>a. s = a @ p)"
| "star_match (p # ps) s = (\<exists>a b. s = a @ p @ b \<and> star_match ps b)"

lemma star_match_extend: "ps \<noteq> [] \<Longrightarrow> star_match ps s \<Longrightarrow> star_match ps (x @ s)"
  by (induction ps s rule: star_match.induct) (auto, (metis append_assoc)+)

lemma split_at_leftmost:
  assumes "split_at p s = Some (a, b)" "s = a' @ p @ b'"
  shows "\<exists>c. b = c @ b'"
  using assms
proof (induction s arbitrary: a a')
  case (Cons c cs)
  show ?case
  proof (cases "strip_pre p (c # cs)")
    case (Some r)
    then have "split_at p (c # cs) = Some ([], r)" by (simp del: strip_pre_Some_iff)
    then have b: "b = r" "c # cs = p @ r" using Cons.prems(1) split_at_Some by fastforce+
    then have "p @ r = (a' @ p) @ b'" using Cons.prems(2) by simp
    then obtain us where "p = (a' @ p) @ us \<and> us @ r = b' \<or> r = us @ b'"
      by (auto simp: append_eq_append_conv2 simp del: append_assoc)
    then show ?thesis
    proof
      assume us: "p = (a' @ p) @ us \<and> us @ r = b'"
      then have "length p = length ((a' @ p) @ us)" by metis
      then have "us = []" by simp
      then show ?thesis using us b by simp
    next
      assume "r = us @ b'"
      then show ?thesis using b by blast
    qed
  next
    case None
    then obtain a2 where a2: "split_at p cs = Some (a2, b)" using Cons.prems(1) by auto
    have "a' \<noteq> []" using None Cons.prems(2) by (auto simp: strip_pre_None_iff)
    then obtain a3 where "a' = c # a3" using Cons.prems(2) by (cases a') auto
    then show ?thesis using Cons.IH[OF a2] Cons.prems(2) by auto
  qed
qed (auto split: if_splits)

lemma glob_loop_star: "ps \<noteq> [] \<Longrightarrow> glob_loop False ps s \<longleftrightarrow> star_match ps s"
proof (induction ps arbitrary: s)
  case (Cons p ps)
  show ?case
  proof (cases "ps = []")
    case True
    then show ?thesis by (cases "p = []") (simp_all add: ends_with_iff)
  next
    case False
    then obtain q qs where ps: "ps = q # qs" by (cases ps) auto
    have sm: "star_match (p # ps) s \<longleftrightarrow> (\<exists>a b. s = a @ p @ b \<and> star_match ps b)"
      by (simp add: ps)
    show ?thesis
    proof (cases "p = []")
      case True
      have "star_match (p # ps) s \<longleftrightarrow> star_match ps s"
        unfolding sm using True star_match_extend[OF False] by auto
      then show ?thesis using True Cons.IH[OF False] by simp
    next
      case p: False
      show ?thesis
      proof (cases "split_at p s")
        case None
        then have "\<not> star_match (p # ps) s" unfolding sm using split_at_None by blast
        then show ?thesis using p False None by simp
      next
        case (Some ab)
        obtain a b where ab: "split_at p s = Some (a, b)" using Some by (cases ab) auto
        have "star_match (p # ps) s \<longleftrightarrow> star_match ps b"
        proof
          assume "star_match (p # ps) s"
          then obtain a' b' where "s = a' @ p @ b'" "star_match ps b'" unfolding sm by blast
          then show "star_match ps b"
            using split_at_leftmost[OF ab] star_match_extend[OF False] by blast
        next
          assume "star_match ps b"
          then show "star_match (p # ps) s" unfolding sm using split_at_Some[OF ab] by blast
        qed
        then show ?thesis using p False ab Cons.IH[OF False] by simp
      qed
    qed
  qed
qed simp

lemma star_match_wild:
  "ps \<noteq> [] \<Longrightarrow> (\<forall>p\<in>set ps. star \<notin> set p) \<Longrightarrow> star_match ps s \<longleftrightarrow> wild (star # join_with [star] ps) s"
proof (induction ps s rule: star_match.induct)
  case (2 p s)
  then show ?case by (auto simp: wild_star wild_no_star simp del: wild.simps)
next
  case (3 p q qs s)
  have "wild (join_with [star] (p # q # qs)) b \<longleftrightarrow> (\<exists>r. b = p @ r \<and> wild (star # join_with [star] (q # qs)) r)" for b
    using 3(3) wild_literal[of p "star # join_with [star] (q # qs)" b] by simp
  then show ?case
    using 3 by (subst wild_star) (auto simp del: wild.simps)
qed simp

lemma glob_loop_wild:
  assumes "star \<in> set pattern"
  shows "glob_loop True (split_on star pattern) s \<longleftrightarrow> wild pattern s"
proof -
  obtain p ps where ps: "split_on star pattern = p # ps" by (cases "split_on star pattern") auto
  have no: "\<forall>x\<in>set (p # ps). star \<notin> set x" using split_on_no_sep ps by metis
  have ne: "ps \<noteq> []"
  proof
    assume "ps = []"
    then have "pattern = p" using join_split[of star pattern] ps by simp
    then show False using assms no by simp
  qed
  have pat: "pattern = p @ star # join_with [star] ps"
    using join_split[of star pattern] ps ne by (cases ps) auto
  have "wild pattern s \<longleftrightarrow> (\<exists>r. s = p @ r \<and> star_match ps r)"
    unfolding pat using no star_match_wild[OF ne] by (subst wild_literal) auto
  also have "\<dots> \<longleftrightarrow> glob_loop True (p # ps) s"
    using glob_loop_star[OF ne]
    by (cases "strip_pre p s") (auto simp: strip_pre_None_iff split: option.splits)
  finally show ?thesis by (simp add: ps)
qed

lemma component_match_wild: "simple_component_match p s \<longleftrightarrow> wild p s"
proof -
  have "wild [star] s" by (induction s) auto
  then show ?thesis
    using glob_loop_wild wild_no_star by (auto simp: simple_component_match_def)
qed

text \<open>The scheduler's file-name matcher is exact: for every pattern and every name it answers whether
  the name can be read from the pattern with each star replaced by some text.\<close>
theorem simple_glob_match_correct: "simple_glob_match pattern name \<longleftrightarrow> wild pattern name"
proof (cases "star \<in> set pattern")
  case True
  have "length (split_on star pattern) \<noteq> 1"
  proof
    assume "length (split_on star pattern) = 1"
    then obtain p where p: "split_on star pattern = [p]" by (cases "split_on star pattern") auto
    then have "pattern = p" "star \<notin> set p" using join_split[of star pattern] split_on_no_sep[of p star pattern] by auto
    then show False using True by simp
  qed
  then show ?thesis using glob_loop_wild[OF True] by (simp add: simple_glob_match_def Let_def)
next
  case False
  then show ?thesis by (auto simp: simple_glob_match_def split_on_single wild_no_star)
qed

section \<open>Component patterns\<close>

lemma path_wild_dstar: "path_wild (''**'' # ps) ss \<longleftrightarrow> (\<exists>i\<le>length ss. path_wild ps (drop i ss))"
proof (induction ss)
  case Nil
  show ?case by (simp add: path_wild_simps)
next
  case (Cons s ss)
  have "path_wild (''**'' # ps) (s # ss) \<longleftrightarrow> path_wild ps (s # ss) \<or> path_wild (''**'' # ps) ss"
    by (subst path_wild_simps) auto
  also have "\<dots> \<longleftrightarrow> (\<exists>i\<le>length (s # ss). path_wild ps (drop i (s # ss)))"
    unfolding Cons using Ex_less_Suc2[of "Suc (length ss)" "\<lambda>i. path_wild ps (drop i (s # ss))"]
    by (simp add: less_Suc_eq_le)
  finally show ?case .
qed

lemma path_wild_dstar_last: "path_wild [''**''] ss"
  by (simp add: path_wild_dstar) (metis drop_all order_refl path_wild_nil)

text \<open>C8. Output globs: the recursive component matcher answers exactly whether the path matches, \<^verbatim>\<open>**\<close>
  standing for any number of components (also none), and always terminates.\<close>
theorem glob_match_recursive_correct: "glob_match_recursive ps ss \<longleftrightarrow> path_wild ps ss"
proof (induction ps ss rule: glob_match_recursive.induct)
  case (3 p ps ss)
  show ?case
  proof (cases "p = ''**''")
    case True
    show ?thesis
    proof (cases "ps = []")
      case True
      then show ?thesis using \<open>p = ''**''\<close> path_wild_dstar_last by simp
    next
      case False
      have "glob_match_recursive (p # ps) ss \<longleftrightarrow> (\<exists>i\<le>length ss. glob_match_recursive ps (drop i ss))"
        using True False by (auto simp: list_ex_iff less_Suc_eq_le simp del: upt_Suc)
      also have "\<dots> \<longleftrightarrow> (\<exists>i\<le>length ss. path_wild ps (drop i ss))"
        using 3(1)[OF True False] by (auto simp: less_Suc_eq_le simp del: upt_Suc)
      finally show ?thesis using True path_wild_dstar by simp
    qed
  next
    case False
    then show ?thesis
      using 3(2)[OF False] component_match_wild
      by (cases ss) (auto simp: path_wild_simps)
  qed
qed (simp_all add: path_wild_simps)

end
