(* ===== verification/Task_List.thy ===== *)
theory Task_List
  imports Globs Scope Workspace_Props
begin

text \<open>
  Configuration and planning: \<^verbatim>\<open>rage.json\<close> and the sandbox policies
  (src/crates/pipeline-config), the ecosystem plugin interface as far as planning uses it
  (src/crates/plugin), the task list of a script (src/crates/scheduler/src/task.rs), and what
  \<^verbatim>\<open>rage run\<close> decides to execute (src/crates/cli/src/main.rs, \<^verbatim>\<open>cmd_run\<close> up to the call of
  the scheduler).  The globset library is the parameter \<^verbatim>\<open>gs\<close>: a pattern to its matcher, None if
  the pattern is invalid.
\<close>

section \<open>Configuration\<close>

datatype SandboxMode = Strict | Observed | Loose

record Policy =
  pol_selector :: string
  pol_sandbox :: "SandboxMode option"

record CacheConfig =
  cc_backend :: string
  cc_dir :: "string option"
  cc_bucket :: "string option"
  cc_region :: "string option"
  cc_s3_prefix :: string
  cc_container :: "string option"
  cc_account :: "string option"
  cc_azure_prefix :: string

record RageConfig =
  rc_plugins :: "string list"
  rc_sandbox_default :: SandboxMode
  rc_cache :: CacheConfig
  rc_policies :: "Policy list"
  rc_pipeline :: "string \<rightharpoonup> string list"
  rc_max_concurrency :: "nat option"
  rc_cold_concurrency :: "nat option"

definition cache_config_default :: CacheConfig where
  "cache_config_default = \<lparr>cc_backend = ''local'', cc_dir = None, cc_bucket = None, cc_region = None,
     cc_s3_prefix = [], cc_container = None, cc_account = None, cc_azure_prefix = []\<rparr>"

definition rage_config_default :: RageConfig where
  "rage_config_default = \<lparr>rc_plugins = [], rc_sandbox_default = Strict, rc_cache = cache_config_default,
     rc_policies = [], rc_pipeline = Map.empty, rc_max_concurrency = None, rc_cold_concurrency = None\<rparr>"

datatype config_error = ConfigRead | ConfigParse

definition load_config :: "World \<Rightarrow> (string \<Rightarrow> RageConfig option) \<Rightarrow> string
    \<Rightarrow> config_error + RageConfig option" where
  "load_config w parse root =
     (let p = path_join root ''rage.json'' in
      if \<not> w_exists w p then Inr None
      else (case w_read w p of Inl _ \<Rightarrow> Inl ConfigRead
        | Inr raw \<Rightarrow> (case parse raw of None \<Rightarrow> Inl ConfigParse | Some c \<Rightarrow> Inr (Some c))))"

type_synonym globset = "string \<Rightarrow> (string \<Rightarrow> bool) option"

definition matches_policy :: "globset \<Rightarrow> Policy \<Rightarrow> string \<Rightarrow> SandboxMode option" where
  "matches_policy gs p path = (case gs (pol_selector p) of
      None \<Rightarrow> None
    | Some m \<Rightarrow>
        if m path then pol_sandbox p
        else if \<not> ends_with ''/'' path \<and> m (path @ ''/'') then pol_sandbox p
        else None)"

fun first_mode :: "globset \<Rightarrow> Policy list \<Rightarrow> string \<Rightarrow> SandboxMode option" where
  "first_mode gs [] path = None"
| "first_mode gs (p # ps) path = (case matches_policy gs p path of
      Some m \<Rightarrow> Some m | None \<Rightarrow> first_mode gs ps path)"

definition resolve_sandbox_mode :: "globset \<Rightarrow> RageConfig \<Rightarrow> string \<Rightarrow> SandboxMode" where
  "resolve_sandbox_mode gs cfg rel =
     (case first_mode gs (rc_policies cfg) (replace_char (CHR 92) ''/'' rel) of
        Some m \<Rightarrow> m | None \<Rightarrow> rc_sandbox_default cfg)"

section \<open>Plugins\<close>

record TaskDef =
  td_name :: string
  td_command_template :: string
  td_input_globs :: "string list"
  td_output_globs :: "string list"

record RootTask =
  rt_name :: string
  rt_command :: string
  rt_input_paths :: "string list"
  rt_env_hash_inputs :: "(string \<times> string) list"

record Plugin =
  pl_detection_globs :: "string list"
  pl_infer_tasks :: "string \<Rightarrow> TaskDef list"
  pl_declared_input_globs :: "string \<Rightarrow> string list"
  pl_infer_root_tasks :: "string \<Rightarrow> RootTask list"

section \<open>Tasks\<close>

record Task =
  t_package :: string
  t_script :: string
  t_command :: string
  t_cwd :: string
  t_sandbox :: SandboxMode
  t_is_root :: bool
  t_input_paths :: "string list"
  t_workspace_root :: string
  t_declared_input_globs :: "string list"
  t_dep_packages :: "string list"
  t_output_globs :: "string list"
  t_env_hash_inputs :: "(string \<times> string) list"

datatype task_error = NoMatchingScript string | TopoPanic

definition glob_hits :: "World \<Rightarrow> string \<Rightarrow> string \<Rightarrow> bool" where
  "glob_hits w dir g =
     (if star \<in> set g
      then (case w_read_dir w dir of None \<Rightarrow> False
            | Some names \<Rightarrow> list_ex (simple_glob_match g) names)
      else w_exists w (path_join dir g))"

definition package_matches_plugin :: "World \<Rightarrow> string \<Rightarrow> Plugin \<Rightarrow> bool" where
  "package_matches_plugin w dir p = list_ex (glob_hits w dir) (pl_detection_globs p)"

definition root_task :: "string \<Rightarrow> RootTask \<Rightarrow> Task" where
  "root_task root rt =
    \<lparr>t_package = ''workspace'', t_script = rt_name rt, t_command = rt_command rt, t_cwd = root,
     t_sandbox = Strict, t_is_root = True, t_input_paths = rt_input_paths rt, t_workspace_root = root,
     t_declared_input_globs = [], t_dep_packages = [], t_output_globs = [],
     t_env_hash_inputs = rt_env_hash_inputs rt\<rparr>"

definition script_command :: "World \<Rightarrow> string \<Rightarrow> Package \<Rightarrow> string option" where
  "script_command w script pkg =
     Option.bind (read_json w (path_join (pkg_path pkg) ''package.json''))
       (\<lambda>v. Option.bind (json_get ''scripts'' v) (\<lambda>s. Option.bind (json_get script s) json_str))"

definition declared_globs :: "World \<Rightarrow> Plugin list \<Rightarrow> string \<Rightarrow> Package \<Rightarrow> string list" where
  "declared_globs w plugins script pkg =
     sort (remdups (concat (map (\<lambda>p. if package_matches_plugin w (pkg_path pkg) p
        then pl_declared_input_globs p script else []) plugins)))"

definition declared_outputs :: "World \<Rightarrow> Plugin list \<Rightarrow> string \<Rightarrow> Package \<Rightarrow> string list" where
  "declared_outputs w plugins script pkg =
     sort (remdups (concat (map (\<lambda>p. if package_matches_plugin w (pkg_path pkg) p
        then concat (map td_output_globs (filter (\<lambda>td. td_name td = script) (pl_infer_tasks p (pkg_path pkg))))
        else []) plugins)))"

definition package_task :: "World \<Rightarrow> Plugin list \<Rightarrow> string \<Rightarrow> string \<Rightarrow> Package \<Rightarrow> string \<Rightarrow> string \<Rightarrow> Task" where
  "package_task w plugins root script pkg name cmd =
    \<lparr>t_package = name, t_script = script, t_command = cmd, t_cwd = pkg_path pkg,
     t_sandbox = Strict, t_is_root = False, t_input_paths = [], t_workspace_root = root,
     t_declared_input_globs = declared_globs w plugins script pkg, t_dep_packages = pkg_deps pkg,
     t_output_globs = declared_outputs w plugins script pkg, t_env_hash_inputs = []\<rparr>"

definition task_of :: "World \<Rightarrow> Plugin list \<Rightarrow> string \<Rightarrow> string \<Rightarrow> string list
    \<Rightarrow> (string, Package) hmap \<Rightarrow> string \<Rightarrow> Task option" where
  "task_of w plugins root script skip pkgs name =
     (if list_ex (\<lambda>s. s = name) skip then None
      else (case hget pkgs name of None \<Rightarrow> None
        | Some pkg \<Rightarrow> map_option (package_task w plugins root script pkg name) (script_command w script pkg)))"

definition build_task_list_filtered :: "toposort \<Rightarrow> World \<Rightarrow> WorkspaceDag \<Rightarrow> string \<Rightarrow> string
    \<Rightarrow> Plugin list \<Rightarrow> string list \<Rightarrow> task_error + Task list" where
  "build_task_list_filtered ts w g script root plugins skip =
     (case topological_sort ts g of Inl _ \<Rightarrow> Inl TopoPanic
      | Inr order \<Rightarrow>
          (let roots = concat (map (\<lambda>p. map (root_task root) (pl_infer_root_tasks p root)) plugins);
               pts = List.map_filter (task_of w plugins root script skip (g_packages g)) order in
           if pts = [] then Inl (NoMatchingScript script) else Inr (roots @ pts)))"

definition build_task_list :: "toposort \<Rightarrow> World \<Rightarrow> WorkspaceDag \<Rightarrow> string \<Rightarrow> string
    \<Rightarrow> Plugin list \<Rightarrow> task_error + Task list" where
  "build_task_list ts w g script root plugins = build_task_list_filtered ts w g script root plugins []"

definition with_sandbox :: "globset \<Rightarrow> RageConfig \<Rightarrow> string \<Rightarrow> Task \<Rightarrow> Task" where
  "with_sandbox gs cfg root t =
     (if t_is_root t then t\<lparr>t_sandbox := Loose\<rparr>
      else t\<lparr>t_sandbox := resolve_sandbox_mode gs cfg
               (case path_strip_prefix (t_cwd t) root of Some r \<Rightarrow> r | None \<Rightarrow> t_cwd t)\<rparr>)"

definition build_task_list_with_config :: "toposort \<Rightarrow> globset \<Rightarrow> World \<Rightarrow> WorkspaceDag \<Rightarrow> string
    \<Rightarrow> string \<Rightarrow> Plugin list \<Rightarrow> RageConfig \<Rightarrow> task_error + Task list" where
  "build_task_list_with_config ts gs w g script root plugins cfg =
     (let skip = (case rc_pipeline cfg script of Some s \<Rightarrow> s | None \<Rightarrow> []) in
      case build_task_list_filtered ts w g script root plugins skip of Inl e \<Rightarrow> Inl e
      | Inr tasks \<Rightarrow> Inr (map (with_sandbox gs cfg root) tasks))"

section \<open>What \<^verbatim>\<open>rage run\<close> executes\<close>

datatype run_error =
    ExclusiveFlags
  | NoWorkspace
  | ConfigErr config_error
  | WorkspaceErr ws_error
  | DagErr dag_error
  | GitErr git_error
  | TaskErr task_error
  | UnknownPackage string

datatype RunPlan = NothingToDo | Execute "Task list"

record Outside =
  o_world :: World
  o_toposort :: toposort
  o_bfs :: bfs
  o_git :: "string list \<Rightarrow> git_output"
  o_globset :: globset
  o_parse_config :: "string \<Rightarrow> RageConfig option"

definition compute_scope :: "Outside \<Rightarrow> string \<Rightarrow> string option \<Rightarrow> bool \<Rightarrow> Package list \<Rightarrow> WorkspaceDag
    \<Rightarrow> git_error + string list option" where
  "compute_scope ob root since affected resolved g =
     (case since of
        Some base_ref \<Rightarrow> (case git_changed_files (o_git ob) root base_ref of Inl e \<Rightarrow> Inl e
          | Inr changed \<Rightarrow> Inr (Some (affected_packages (o_bfs ob) resolved g changed)))
      | None \<Rightarrow>
          if affected then (case git_dirty_files (o_git ob) root of Inl e \<Rightarrow> Inl e
            | Inr dirty \<Rightarrow> Inr (Some (affected_packages (o_bfs ob) resolved g dirty)))
          else Inr None)"

definition retain_scope :: "string list \<Rightarrow> Task list \<Rightarrow> Task list" where
  "retain_scope names tasks = filter (\<lambda>t. t_is_root t \<or> t_package t \<in> set names) tasks"

definition apply_filters :: "WorkspaceDag \<Rightarrow> string list option \<Rightarrow> string option \<Rightarrow> Task list
    \<Rightarrow> run_error + RunPlan" where
  "apply_filters g scope target tasks =
     (let tasks' = (case scope of Some s \<Rightarrow> retain_scope s tasks | None \<Rightarrow> tasks) in
      if scope \<noteq> None \<and> tasks' = [] then Inr NothingToDo
      else (case target of None \<Rightarrow> Inr (Execute tasks')
        | Some t \<Rightarrow>
            if hget (g_packages g) t = None then Inl (UnknownPackage t)
            else Inr (Execute (retain_scope (transitive_dep_closure (g_packages g) t) tasks'))))"

definition run_plan :: "Outside \<Rightarrow> Plugin list \<Rightarrow> string \<Rightarrow> string \<Rightarrow> string option \<Rightarrow> bool
    \<Rightarrow> string option \<Rightarrow> run_error + RunPlan" where
  "run_plan ob plugins root script since affected target =
     (let w = o_world ob in
      if length (filter (\<lambda>b. b) [since \<noteq> None, affected, target \<noteq> None]) > 1 then Inl ExclusiveFlags
      else (case detect_package_manager w root of None \<Rightarrow> Inl NoWorkspace | Some _ \<Rightarrow>
      (case load_config w (o_parse_config ob) root of Inl e \<Rightarrow> Inl (ConfigErr e) | Inr cfgo \<Rightarrow>
      (let cfg = (case cfgo of Some c \<Rightarrow> c | None \<Rightarrow> rage_config_default) in
      case discover_packages w root of Inl e \<Rightarrow> Inl (WorkspaceErr e) | Inr raw \<Rightarrow>
      (case build_package_graph w raw of Inl e \<Rightarrow> Inl (WorkspaceErr e) | Inr resolved \<Rightarrow>
      (case build_dag (o_toposort ob) resolved of Inl e \<Rightarrow> Inl (DagErr e) | Inr g \<Rightarrow>
      (case compute_scope ob root since affected resolved g of Inl e \<Rightarrow> Inl (GitErr e) | Inr scope \<Rightarrow>
      (case build_task_list_with_config (o_toposort ob) (o_globset ob) w g script root plugins cfg of
         Inl e \<Rightarrow> Inl (TaskErr e)
       | Inr tasks \<Rightarrow> apply_filters g scope target tasks))))))))"

section \<open>Properties\<close>

text \<open>The packages that get a task.\<close>

definition has_task :: "World \<Rightarrow> string \<Rightarrow> string list \<Rightarrow> Package \<Rightarrow> bool" where
  "has_task w script skip p \<longleftrightarrow> pkg_name p \<notin> set skip \<and> script_command w script p \<noteq> None"

lemma pos_before_filter:
  assumes "distinct xs" "pos_before xs a b" "P a" "P b"
  shows "pos_before (filter P xs) a b"
proof -
  obtain i j where ij: "i < j" "j < length xs" "xs ! i = a" "xs ! j = b"
    using assms(2) by (auto simp: pos_before_def)
  have xs: "xs = take j xs @ b # drop (Suc j) xs" using id_take_nth_drop[OF ij(2)] ij(4) by simp
  have "a \<in> set (filter P (take j xs))"
    using ij assms(3) by (auto simp: in_set_conv_nth intro!: exI[of _ i])
  then obtain k where k: "k < length (filter P (take j xs))" "filter P (take j xs) ! k = a"
    by (metis in_set_conv_nth)
  have "filter P xs = filter P (take j xs) @ b # filter P (drop (Suc j) xs)"
    using assms(4) by (subst xs) simp
  then show ?thesis using k unfolding pos_before_def
    by (intro exI[of _ k] exI[of _ "length (filter P (take j xs))"]) (simp add: nth_append)
qed

lemma task_ofD:
  assumes "task_of w plugins root script skip m n = Some t"
  shows "t_package t = n" "\<not> t_is_root t"
    "\<exists>p. hget m n = Some p \<and> t_dep_packages t = pkg_deps p \<and> n \<notin> set skip \<and> script_command w script p \<noteq> None"
  using assms by (auto simp: task_of_def package_task_def list_ex_iff split: if_splits option.splits)

lemma task_of_None:
  "task_of w plugins root script skip m n = None \<longleftrightarrow>
     n \<in> set skip \<or> (case hget m n of None \<Rightarrow> True | Some p \<Rightarrow> script_command w script p = None)"
  by (auto simp: task_of_def list_ex_iff split: option.splits)

lemma map_filter_package:
  "map t_package (List.map_filter (task_of w plugins root script skip m) ns) =
     filter (\<lambda>n. task_of w plugins root script skip m n \<noteq> None) ns"
  by (induction ns) (auto simp: task_ofD(1) split: option.splits)

lemma with_sandbox_simps [simp]:
  "t_package (with_sandbox gs cfg root t) = t_package t"
  "t_is_root (with_sandbox gs cfg root t) = t_is_root t"
  "t_dep_packages (with_sandbox gs cfg root t) = t_dep_packages t"
  "t_is_root t \<Longrightarrow> t_sandbox (with_sandbox gs cfg root t) = Loose"
  by (simp_all add: with_sandbox_def)

lemma build_dag_fields:
  "build_dag ts pkgs = Inr g \<Longrightarrow> g_names g = map pkg_name pkgs \<and>
     g_packages g = fold (\<lambda>p m. hput (pkg_name p) p m) pkgs []"
  by (auto simp: build_dag_def Let_def split: sum.splits)

lemma task_list_shape:
  assumes d: "distinct (map pkg_name pkgs)" and g: "build_dag ts pkgs = Inr g"
    and topo: "topo_ok ts (length pkgs) (map prod.swap (g_edges g))"
    and run: "build_task_list_with_config ts gs w g script root plugins cfg = Inr tasks"
    and skip: "skip = (case rc_pipeline cfg script of Some s \<Rightarrow> s | None \<Rightarrow> [])"
  shows "\<exists>roots pts. tasks = roots @ pts \<and> pts \<noteq> [] \<and>
    (\<forall>t\<in>set roots. t_is_root t \<and> t_sandbox t = Loose) \<and>
    (\<forall>t\<in>set pts. \<not> t_is_root t \<and> (\<exists>p\<in>set pkgs. pkg_name p = t_package t \<and> t_dep_packages t = pkg_deps p)) \<and>
    distinct (map t_package pts) \<and>
    t_package ` set pts = {pkg_name p | p. p \<in> set pkgs \<and> has_task w script skip p} \<and>
    (\<forall>(p, dep)\<in>deps_rel pkgs. p \<in> t_package ` set pts \<longrightarrow> dep \<in> t_package ` set pts \<longrightarrow>
       pos_before (map t_package pts) dep p)"
proof -
  let ?f = "task_of w plugins root script skip (g_packages g)"
  obtain order where order: "topological_sort ts g = Inr order"
    and ne: "List.map_filter ?f order \<noteq> []"
    and tasks: "tasks = map (with_sandbox gs cfg root)
       (concat (map (\<lambda>p. map (root_task root) (pl_infer_root_tasks p root)) plugins) @ List.map_filter ?f order)"
    using run by (auto simp: build_task_list_with_config_def build_task_list_filtered_def Let_def skip
        split: sum.splits if_splits)
  note O = topo_order_deps[OF d g topo order]
  let ?roots = "map (with_sandbox gs cfg root)
      (concat (map (\<lambda>p. map (root_task root) (pl_infer_root_tasks p root)) plugins))"
  let ?pts = "map (with_sandbox gs cfg root) (List.map_filter ?f order)"
  have pk: "hget (g_packages g) n = Some p \<longleftrightarrow> p \<in> set pkgs \<and> pkg_name p = n" for n p
    using build_dag_fields[OF g] fold_packages[OF d] by simp
  have names: "map t_package ?pts = filter (\<lambda>n. ?f n \<noteq> None) order"
    using map_filter_package by (simp add: o_def)
  have some: "?f n \<noteq> None \<longleftrightarrow> (\<exists>p\<in>set pkgs. pkg_name p = n \<and> has_task w script skip p)" for n
  proof (cases "hget (g_packages g) n")
    case None
    then have "\<not> (p \<in> set pkgs \<and> pkg_name p = n)" for p using pk[of n p] by simp
    then show ?thesis using None by (auto simp: task_of_None)
  next
    case (Some p)
    then have p: "p \<in> set pkgs" "pkg_name p = n" using pk by blast+
    have "q = p" if "q \<in> set pkgs" "pkg_name q = n" for q
      using that p d unfolding distinct_map inj_on_def by blast
    then have "(\<exists>q\<in>set pkgs. pkg_name q = n \<and> has_task w script skip q) \<longleftrightarrow> has_task w script skip p"
      using p by blast
    then show ?thesis using Some p(2) task_of_None by (simp add: has_task_def)
  qed
  have set_pts: "t_package ` set ?pts = {pkg_name p | p. p \<in> set pkgs \<and> has_task w script skip p}"
  proof -
    have "t_package ` set ?pts = set (map t_package ?pts)" by (simp only: set_map)
    also have "\<dots> = {n \<in> set order. ?f n \<noteq> None}" by (simp only: names set_filter)
    also have "\<dots> = {pkg_name p | p. p \<in> set pkgs \<and> has_task w script skip p}"
      unfolding some using O by (auto, metis)
    finally show ?thesis .
  qed
  show ?thesis
  proof (intro exI conjI)
    show "tasks = ?roots @ ?pts" by (simp add: tasks)
    show "?pts \<noteq> []" using ne by simp
    show "\<forall>t\<in>set ?roots. t_is_root t \<and> t_sandbox t = Loose" by (auto simp: root_task_def)
    show "\<forall>t\<in>set ?pts. \<not> t_is_root t \<and> (\<exists>p\<in>set pkgs. pkg_name p = t_package t \<and> t_dep_packages t = pkg_deps p)"
    proof
      fix t assume "t \<in> set ?pts"
      then obtain n z where z: "?f n = Some z" "t = with_sandbox gs cfg root z"
        by (auto simp: in_set_map_filter)
      note T = task_ofD[OF z(1)]
      then show "\<not> t_is_root t \<and> (\<exists>p\<in>set pkgs. pkg_name p = t_package t \<and> t_dep_packages t = pkg_deps p)"
        using pk z(2) by auto
    qed
    show "distinct (map t_package ?pts)" using O names by simp
    show "t_package ` set ?pts = {pkg_name p | p. p \<in> set pkgs \<and> has_task w script skip p}" by (rule set_pts)
    show "\<forall>(p, dep)\<in>deps_rel pkgs. p \<in> t_package ` set ?pts \<longrightarrow> dep \<in> t_package ` set ?pts \<longrightarrow>
       pos_before (map t_package ?pts) dep p"
    proof (clarify)
      fix p dep x y assume pd: "(t_package x, t_package y) \<in> deps_rel pkgs" "x \<in> set ?pts" "y \<in> set ?pts"
      have "t_package z \<in> set (filter (\<lambda>n. ?f n \<noteq> None) order)" if "z \<in> set ?pts" for z
        unfolding names[symmetric] using imageI[OF that, of t_package] by (simp only: set_map)
      then have "?f (t_package x) \<noteq> None" "?f (t_package y) \<noteq> None" using pd(2,3) by auto
      moreover have "pos_before order (t_package y) (t_package x)" using O pd(1) by auto
      ultimately show "pos_before (map t_package ?pts) (t_package y) (t_package x)"
        unfolding names using O by (intro pos_before_filter) auto
    qed
  qed
qed

text \<open>The task list of a script: first the root tasks of the plugins, never sandboxed; then one task for
  exactly the packages that are not skipped and declare the script, each once, every dependency that
  has a task before its dependents.\<close>
theorem task_list_correct:
  assumes "distinct (map pkg_name pkgs)" "build_dag ts pkgs = Inr g"
    "topo_ok ts (length pkgs) (map prod.swap (g_edges g))"
    "build_task_list_with_config ts gs w g script root plugins cfg = Inr tasks"
  shows "\<exists>roots pts. tasks = roots @ pts \<and> pts \<noteq> [] \<and>
    (\<forall>t\<in>set roots. t_is_root t \<and> t_sandbox t = Loose) \<and>
    (\<forall>t\<in>set pts. \<not> t_is_root t \<and> (\<exists>p\<in>set pkgs. pkg_name p = t_package t \<and> t_dep_packages t = pkg_deps p)) \<and>
    distinct (map t_package pts) \<and>
    t_package ` set pts = {pkg_name p | p. p \<in> set pkgs \<and>
       has_task w script (case rc_pipeline cfg script of Some s \<Rightarrow> s | None \<Rightarrow> []) p} \<and>
    (\<forall>(p, dep)\<in>deps_rel pkgs. p \<in> t_package ` set pts \<longrightarrow> dep \<in> t_package ` set pts \<longrightarrow>
       pos_before (map t_package pts) dep p)"
  by (rule task_list_shape[OF assms refl])

definition ex_scripts_world :: World where
  "ex_scripts_world = ex_world\<lparr>w_read := (\<lambda>_. Inr ''{}''),
     w_json := (\<lambda>_. Some (JObj [(''scripts'', JObj [(''build'', JStr ''tsc'')])]))\<rparr>"

definition ex_root_plugin :: Plugin where
  "ex_root_plugin = \<lparr>pl_detection_globs = [], pl_infer_tasks = (\<lambda>_. []),
     pl_declared_input_globs = (\<lambda>_. []), pl_infer_root_tasks = (\<lambda>_.
       [\<lparr>rt_name = ''install'', rt_command = ''pnpm install'', rt_input_paths = [], rt_env_hash_inputs = []\<rparr>])\<rparr>"

definition ex_tasks :: "Task list" where
  "ex_tasks = (case build_task_list_with_config ex_topo (\<lambda>_. None) ex_scripts_world ex_dag ''build''
     ''/w'' [ex_root_plugin] rage_config_default of Inr ts \<Rightarrow> ts | Inl _ \<Rightarrow> [])"

lemma ex_topo_dag: "topological_sort ex_topo ex_dag = Inr [''lib'', ''app'']"
  by (simp add: ex_dag_def ex_topo_def topological_sort_def)

lemma ex_dag_packages: "g_packages ex_dag = [(''app'', hd ex_resolved), (''lib'', last ex_resolved)]"
  by (simp add: ex_dag_def)

lemma ex_cmd: "script_command ex_scripts_world ''build'' p = Some ''tsc''"
  by (simp add: script_command_def read_json_def ex_scripts_world_def)

lemma ex_tasks_run: "build_task_list_with_config ex_topo (\<lambda>_. None) ex_scripts_world ex_dag ''build''
     ''/w'' [ex_root_plugin] rage_config_default = Inr ex_tasks"
  by (simp add: ex_tasks_def build_task_list_with_config_def build_task_list_filtered_def ex_topo_dag
      rage_config_default_def task_of_def ex_dag_packages ex_cmd)

lemma ex_task_names: "map t_package ex_tasks = [''workspace'', ''lib'', ''app'']"
  by (simp add: ex_tasks_def build_task_list_with_config_def build_task_list_filtered_def ex_topo_dag
      rage_config_default_def task_of_def ex_dag_packages ex_cmd root_task_def ex_root_plugin_def
      package_task_def)

lemma ex_topo_ok: "topo_ok ex_topo (length ex_resolved) (map prod.swap (g_edges ex_dag))"
  by (simp add: ex_resolved_def ex_dag_def topo_ok_def ex_topo_def lessThan_Suc pos_before_two numeral_2_eq_2)

lemma ex_distinct: "distinct (map pkg_name ex_resolved)"
  by (simp add: ex_resolved_def)

theorem task_list_correct_witness:
  "\<exists>roots pts. ex_tasks = roots @ pts \<and> pts \<noteq> [] \<and> set roots \<subseteq> {t. t_sandbox t = Loose}"
  using task_list_correct[OF ex_distinct ex_build ex_topo_ok ex_tasks_run] by fast

section \<open>Sandbox policies\<close>

definition policy_matches :: "globset \<Rightarrow> string \<Rightarrow> Policy \<Rightarrow> bool" where
  "policy_matches gs path p \<longleftrightarrow> (case gs (pol_selector p) of None \<Rightarrow> False
     | Some m \<Rightarrow> m path \<or> (\<not> ends_with ''/'' path \<and> m (path @ ''/'')))"

lemma matches_policy_eq: "matches_policy gs p path = (if policy_matches gs path p then pol_sandbox p else None)"
  by (simp add: matches_policy_def policy_matches_def split: option.splits)

lemma first_mode_find:
  "first_mode gs ps path =
     (case List.find (\<lambda>p. policy_matches gs path p \<and> pol_sandbox p \<noteq> None) ps of
        None \<Rightarrow> None | Some p \<Rightarrow> pol_sandbox p)"
  by (induction ps) (auto simp: matches_policy_eq split: option.splits)

text \<open>The sandbox mode of a package is the one of the first policy that matches its path and names a
  mode, else the default: a matching policy without a mode does not end the search, unlike the
  documented rule that the first matching policy wins.\<close>
theorem resolve_sandbox_mode_first:
  "resolve_sandbox_mode gs cfg rel =
     (case List.find (\<lambda>p. policy_matches gs (replace_char (CHR 92) ''/'' rel) p \<and> pol_sandbox p \<noteq> None)
        (rc_policies cfg) of
        Some p \<Rightarrow> the (pol_sandbox p) | None \<Rightarrow> rc_sandbox_default cfg)"
proof -
  have "pol_sandbox p \<noteq> None" if "List.find (\<lambda>p. Q p \<and> pol_sandbox p \<noteq> None) ps = Some p" for Q p and ps :: "Policy list"
    using that by (auto simp: find_Some_iff)
  then show ?thesis
    by (force simp: resolve_sandbox_mode_def first_mode_find split: option.splits)
qed

section \<open>Scoping the run\<close>

lemma run_plan_stages:
  assumes "run_plan ob plugins root script since affected target = Inr (Execute ts)"
  obtains raw resolved g scope cfg tasks where
    "discover_packages (o_world ob) root = Inr raw"
    "build_package_graph (o_world ob) raw = Inr resolved" "build_dag (o_toposort ob) resolved = Inr g"
    "compute_scope ob root since affected resolved g = Inr scope"
    "build_task_list_with_config (o_toposort ob) (o_globset ob) (o_world ob) g script root plugins cfg = Inr tasks"
    "apply_filters g scope target tasks = Inr (Execute ts)"
  using assms by (auto simp: run_plan_def Let_def split: if_splits sum.splits option.splits)

lemma retain_scope_set: "set (retain_scope ns ts) = {t \<in> set ts. t_is_root t \<or> t_package t \<in> set ns}"
  by (auto simp: retain_scope_def)


definition ex_outside :: Outside where
  "ex_outside = \<lparr>o_world = ex_disc\<lparr>w_exists := (\<lambda>p. p \<noteq> ''/w/rage.json''),
       w_json := (\<lambda>s. if s = ''l'' then Some (JObj [(''name'', JStr ''lib''), (''scripts'', JObj [(''build'', JStr ''tsc'')])])
        else Some (JObj [(''name'', JStr ''app''), (''dependencies'', JObj [(''lib'', JStr ''*'')]),
                         (''scripts'', JObj [(''build'', JStr ''tsc'')])]))\<rparr>,
     o_toposort = ex_topo, o_bfs = ex_bfs, o_git = (\<lambda>_. None), o_globset = (\<lambda>_. None),
     o_parse_config = (\<lambda>_. None)\<rparr>"

abbreviation ex_ow :: World where "ex_ow \<equiv> o_world ex_outside"

lemma ex_ow_run: "discover_packages ex_ow ''/w'' = Inr ex_disc_pkgs"
  by (simp add: ex_outside_def discover_packages_def detect_package_manager_def ex_disc_def path_join_def
      is_absolute_def Let_def resolve_glob_def from_manifest_dir_def ex_disc_pkgs_def less_char_def less_eq_char_def)

definition ex_ow_pkgs :: "Package list" where
  "ex_ow_pkgs = [(hd ex_disc_pkgs)\<lparr>pkg_deps := [''lib'']\<rparr>, last ex_disc_pkgs]"

lemma ex_ow_resolved: "build_package_graph ex_ow ex_disc_pkgs = Inr ex_ow_pkgs"
  by (simp add: ex_outside_def build_package_graph_def ex_disc_pkgs_def ex_disc_def resolve_package_def
      path_join_def is_absolute_def Let_def workspace_deps_def dep_fields_def field_names_def ex_ow_pkgs_def)

definition ex_ow_dag :: WorkspaceDag where
  "ex_ow_dag = \<lparr>g_names = [''app'', ''lib''], g_edges = [(0, 1)], g_nodes = [(''app'', 0), (''lib'', 1)],
     g_packages = [(''app'', hd ex_ow_pkgs), (''lib'', last ex_ow_pkgs)]\<rparr>"

lemma ex_ow_build: "build_dag ex_topo ex_ow_pkgs = Inr ex_ow_dag"
  by (simp add: ex_ow_pkgs_def ex_disc_pkgs_def ex_topo_def build_dag_def Let_def ex_ow_dag_def)

lemma ex_ow_cmd: "p \<in> set ex_ow_pkgs \<Longrightarrow> script_command ex_ow ''build'' p = Some ''tsc''"
  by (auto simp: script_command_def read_json_def ex_outside_def ex_disc_def ex_ow_pkgs_def ex_disc_pkgs_def
      path_join_def is_absolute_def)

lemma ex_ow_topo: "topological_sort ex_topo ex_ow_dag = Inr [''lib'', ''app'']"
  by (simp add: ex_ow_dag_def ex_topo_def topological_sort_def)

lemma ex_ow_packages: "g_packages ex_ow_dag = [(''app'', hd ex_ow_pkgs), (''lib'', last ex_ow_pkgs)]"
  by (simp add: ex_ow_dag_def)

lemma ex_ow_members: "hd ex_ow_pkgs \<in> set ex_ow_pkgs" "last ex_ow_pkgs \<in> set ex_ow_pkgs"
  by (simp_all add: ex_ow_pkgs_def)

lemma ex_ow_tasks: "build_task_list_with_config ex_topo (\<lambda>_. None) ex_ow ex_ow_dag ''build'' ''/w'' []
    rage_config_default = Inr (map (with_sandbox (\<lambda>_. None) rage_config_default ''/w'')
      [package_task ex_ow [] ''/w'' ''build'' (last ex_ow_pkgs) ''lib'' ''tsc'',
       package_task ex_ow [] ''/w'' ''build'' (hd ex_ow_pkgs) ''app'' ''tsc''])"
  by (simp add: build_task_list_with_config_def build_task_list_filtered_def ex_ow_topo
      rage_config_default_def task_of_def ex_ow_packages ex_ow_cmd[OF ex_ow_members(1)] ex_ow_cmd[OF ex_ow_members(2)])

lemma ex_ow_outside: "o_toposort ex_outside = ex_topo" "o_globset ex_outside = (\<lambda>_. None)"
  "w_exists ex_ow ''/w/rage.json'' = False" "detect_package_manager ex_ow ''/w'' = Some Pnpm"
  by (simp_all add: ex_outside_def detect_package_manager_def path_join_def is_absolute_def ex_disc_def)

definition ex_plan :: "Task list" where
  "ex_plan = retain_scope (transitive_dep_closure (g_packages ex_ow_dag) ''lib'')
     (map (with_sandbox (\<lambda>_. None) rage_config_default ''/w'')
      [package_task ex_ow [] ''/w'' ''build'' (last ex_ow_pkgs) ''lib'' ''tsc'',
       package_task ex_ow [] ''/w'' ''build'' (hd ex_ow_pkgs) ''app'' ''tsc''])"

lemma ex_plan_run: "run_plan ex_outside [] ''/w'' ''build'' None False (Some ''lib'') = Inr (Execute ex_plan)"
  by (simp add: run_plan_def load_config_def path_join_def is_absolute_def ex_ow_outside ex_ow_run
      ex_ow_resolved ex_ow_build compute_scope_def ex_ow_tasks apply_filters_def ex_ow_packages ex_plan_def Let_def)


end
