(* ===== verification/Resource_Budget.thy ===== *)
theory Resource_Budget
  imports Prelude
begin

text \<open>
  Memory-aware admission (src/crates/scheduler/src/resource_budget.rs) with its machine integers,
  the effective concurrency (src/crates/scheduler/src/runner.rs), and the per-task statistics the
  estimates come from (src/crates/cache/src/task_stats.rs).  The waiting loop of \<^verbatim>\<open>reserve\<close> is a step
  relation over clients: testing the budget under the lock, then, after the lock is released, starting to
  listen for notifications, then sleeping until one is sent.
\<close>

section \<open>The budget\<close>

record BudgetState =
  capacity_bytes :: "64 word"
  committed_bytes :: "64 word"
  active_count :: "32 word"

definition sat_sub :: "'a::len word \<Rightarrow> 'a word \<Rightarrow> 'a word" where
  "sat_sub a b = (if b \<le> a then a - b else 0)"

definition capacity_from :: "64 word \<Rightarrow> 64 word" where
  "capacity_from available = (max available 1) * 3 div 4"

definition cold_permits_from :: "nat option \<Rightarrow> 64 word \<Rightarrow> nat \<Rightarrow> nat" where
  "cold_permits_from cold_concurrency available cpu_count = (case cold_concurrency of
      Some n \<Rightarrow> n
    | None \<Rightarrow> min cpu_count (unat (max (max available 1 div (1024 * 1024 * 1024) div 2) 1)))"

definition budget_new :: "64 word \<Rightarrow> BudgetState" where
  "budget_new available = \<lparr>capacity_bytes = capacity_from available, committed_bytes = 0, active_count = 0\<rparr>"

definition effective_concurrency :: "nat option \<Rightarrow> nat option \<Rightarrow> nat" where
  "effective_concurrency max_concurrency parallelism = (case max_concurrency of
      Some n \<Rightarrow> n | None \<Rightarrow> (case parallelism of Some n \<Rightarrow> n | None \<Rightarrow> 4))"

text \<open>One pass of the loop of \<^verbatim>\<open>reserve\<close> under the lock: the new state, or None when the caller must wait.\<close>

definition try_reserve :: "64 word \<Rightarrow> BudgetState \<Rightarrow> BudgetState option" where
  "try_reserve est s =
     (let remaining = sat_sub (capacity_bytes s) (committed_bytes s) in
      if est \<le> remaining \<or> active_count s = 0
      then Some (s\<lparr>committed_bytes := committed_bytes s + est, active_count := active_count s + 1\<rparr>)
      else None)"

definition release_budget :: "64 word \<Rightarrow> BudgetState \<Rightarrow> BudgetState" where
  "release_budget est s =
     s\<lparr>committed_bytes := sat_sub (committed_bytes s) est, active_count := sat_sub (active_count s) 1\<rparr>"

text \<open>A guard: the reserved bytes until they are given back, and whether it holds a cold-start permit.\<close>

record MemoryGuard =
  g_inner :: "64 word option"
  g_cold :: bool

definition take_inner :: "MemoryGuard \<Rightarrow> BudgetState \<Rightarrow> MemoryGuard \<times> BudgetState" where
  "take_inner g s = (case g_inner g of None \<Rightarrow> (g, s)
     | Some est \<Rightarrow> (g\<lparr>g_inner := None\<rparr>, release_budget est s))"

text \<open>Dropping a guard gives back the reservation and the permit; \<^verbatim>\<open>release_with_actual\<close> gives back the
  reservation and then drops the guard.\<close>

definition drop_guard :: "MemoryGuard \<Rightarrow> BudgetState \<times> nat \<Rightarrow> BudgetState \<times> nat" where
  "drop_guard g sc = (let (g', s') = take_inner g (fst sc) in
     (s', if g_cold g' then snd sc + 1 else snd sc))"

definition release_with_actual :: "64 word \<Rightarrow> MemoryGuard \<Rightarrow> BudgetState \<times> nat \<Rightarrow> BudgetState \<times> nat" where
  "release_with_actual actual g sc = (let (g', s') = take_inner g (fst sc) in drop_guard g' (s', snd sc))"

text \<open>Taking a cold-start permit: None while there is none.\<close>

definition try_cold :: "nat \<Rightarrow> (MemoryGuard \<times> nat) option" where
  "try_cold permits = (if permits = 0 then None else Some (\<lparr>g_inner = None, g_cold = True\<rparr>, permits - 1))"

section \<open>Concurrent clients\<close>

text \<open>A client between the test that refused it and the call of \<^verbatim>\<open>notified()\<close> is Listening; one that has
  given its bytes back and not yet notified the others is Freeing.\<close>

datatype Client = Probing | Listening | Asleep | Holding | Freeing | Gone

record Budget =
  bu_state :: BudgetState
  bu_client :: "nat \<Rightarrow> Client"

text \<open>\<^verbatim>\<open>notify_waiters\<close> wakes the clients that have called \<^verbatim>\<open>notified()\<close> by then, and no one later.\<close>

definition notify_waiters :: "(nat \<Rightarrow> Client) \<Rightarrow> nat \<Rightarrow> Client" where
  "notify_waiters c = (\<lambda>i. if c i = Asleep then Probing else c i)"

inductive budget_step :: "nat \<Rightarrow> (nat \<Rightarrow> 64 word) \<Rightarrow> Budget \<Rightarrow> Budget \<Rightarrow> bool" for n est where
  admit: "i < n \<Longrightarrow> bu_client b i = Probing \<Longrightarrow> try_reserve (est i) (bu_state b) = Some s \<Longrightarrow>
    budget_step n est b \<lparr>bu_state = s, bu_client = (bu_client b)(i := Holding)\<rparr>"
| refuse: "i < n \<Longrightarrow> bu_client b i = Probing \<Longrightarrow> try_reserve (est i) (bu_state b) = None \<Longrightarrow>
    budget_step n est b (b\<lparr>bu_client := (bu_client b)(i := Listening)\<rparr>)"
| listen: "i < n \<Longrightarrow> bu_client b i = Listening \<Longrightarrow>
    budget_step n est b (b\<lparr>bu_client := (bu_client b)(i := Asleep)\<rparr>)"
| free: "i < n \<Longrightarrow> bu_client b i = Holding \<Longrightarrow>
    budget_step n est b \<lparr>bu_state = release_budget (est i) (bu_state b), bu_client = (bu_client b)(i := Freeing)\<rparr>"
| wake: "i < n \<Longrightarrow> bu_client b i = Freeing \<Longrightarrow>
    budget_step n est b (b\<lparr>bu_client := notify_waiters ((bu_client b)(i := Gone))\<rparr>)"

definition budget_init :: "64 word \<Rightarrow> Budget" where
  "budget_init available = \<lparr>bu_state = budget_new available, bu_client = (\<lambda>_. Probing)\<rparr>"

inductive budget_run :: "nat \<Rightarrow> (nat \<Rightarrow> 64 word) \<Rightarrow> 64 word \<Rightarrow> Budget \<Rightarrow> bool" for n est available where
  budget_start: "budget_run n est available (budget_init available)"
| budget_next: "budget_run n est available b \<Longrightarrow> budget_step n est b b' \<Longrightarrow> budget_run n est available b'"

section \<open>The budget is never overcommitted\<close>

definition holders :: "nat \<Rightarrow> Budget \<Rightarrow> nat set" where
  "holders n b = {i. i < n \<and> bu_client b i = Holding}"

definition weighty :: "nat \<Rightarrow> (nat \<Rightarrow> 64 word) \<Rightarrow> Budget \<Rightarrow> nat set" where
  "weighty n est b = {i \<in> holders n b. est i \<noteq> 0}"

definition budget_inv :: "nat \<Rightarrow> (nat \<Rightarrow> 64 word) \<Rightarrow> Budget \<Rightarrow> bool" where
  "budget_inv n est b \<longleftrightarrow>
     unat (committed_bytes (bu_state b)) = (\<Sum>i\<in>holders n b. unat (est i)) \<and>
     unat (active_count (bu_state b)) = card (holders n b) \<and>
     (unat (committed_bytes (bu_state b)) \<le> unat (capacity_bytes (bu_state b)) \<or> card (weighty n est b) \<le> 1)"

lemma finite_holders [simp]: "finite (holders n b)"
  by (simp add: holders_def)

lemma finite_weighty [simp]: "finite (weighty n est b)"
  by (simp add: weighty_def)

lemma card_holders: "card (holders n b) \<le> n"
proof -
  have "holders n b \<subseteq> {..<n}" by (auto simp: holders_def)
  then show ?thesis by (metis card_lessThan card_mono finite_lessThan)
qed

lemma unat_sat_sub: "unat (sat_sub a b) = unat a - unat b"
  by (auto simp: sat_sub_def unat_sub word_le_nat_alt)

lemma unat_add_no_wrap: "unat a + unat b < 2 ^ LENGTH('a) \<Longrightarrow> unat (a + b :: 'a::len word) = unat a + unat b"
  by (metis unat_add_lem)

lemma unat_bound: "unat (w :: 'a::len word) < 2 ^ LENGTH('a)"
  by (rule unsigned_less)

lemma unat_max: "unat (max a b) = max (unat a) (unat b)"
  by (simp add: max_def word_le_nat_alt)

lemma try_reserve_Some:
  "try_reserve e s = Some s' \<longleftrightarrow>
    (unat e \<le> unat (capacity_bytes s) - unat (committed_bytes s) \<or> unat (active_count s) = 0) \<and>
    s' = s\<lparr>committed_bytes := committed_bytes s + e, active_count := active_count s + 1\<rparr>"
  by (auto simp: try_reserve_def Let_def word_le_nat_alt unat_sat_sub unat_eq_zero)

lemma admit_add:
  assumes "unat e \<le> unat (capacity_bytes s) - unat (committed_bytes s) \<or> unat (committed_bytes s) = 0"
  shows "unat (committed_bytes s + e) = unat (committed_bytes s) + unat e"
proof (rule unat_add_no_wrap)
  show "unat (committed_bytes s) + unat e < 2 ^ LENGTH(64)"
    using assms unat_bound[of "committed_bytes s"] unat_bound[of e] unat_bound[of "capacity_bytes s"]
    by (cases "unat (committed_bytes s) \<le> unat (capacity_bytes s)") auto
qed

lemma admit_inv:
  assumes inv: "budget_inv n est b" and i: "i < n" "bu_client b i = Probing" and n: "n < 2 ^ 32"
    and s: "try_reserve (est i) (bu_state b) = Some s"
  shows "budget_inv n est \<lparr>bu_state = s, bu_client = (bu_client b)(i := Holding)\<rparr>"
proof -
  let ?b = "\<lparr>bu_state = s, bu_client = (bu_client b)(i := Holding)\<rparr>"
  let ?st = "bu_state b"
  have h: "holders n ?b = insert i (holders n b)" and ni: "i \<notin> holders n b"
    using i by (auto simp: holders_def)
  have w: "weighty n est ?b = (if est i = 0 then weighty n est b else insert i (weighty n est b))"
    by (auto simp: weighty_def h)
  note s_eq = s[unfolded try_reserve_Some]
  have act: "unat (active_count ?st) = card (holders n b)" using inv by (simp add: budget_inv_def)
  have comm: "unat (committed_bytes ?st) = (\<Sum>j\<in>holders n b. unat (est j))"
    using inv by (simp add: budget_inv_def)
  have empty: "unat (active_count ?st) = 0 \<Longrightarrow> holders n b = {}" using act by simp
  have "card (insert i (holders n b)) \<le> n" using card_holders[of n ?b] h by simp
  then have "unat (active_count ?st) + unat (1::32 word) < 2 ^ LENGTH(32)" using act ni n by simp
  then have active: "unat (active_count s) = card (holders n ?b)"
    using act ni s_eq h by (simp add: unat_add_no_wrap)
  have "unat (committed_bytes ?st + est i) = unat (committed_bytes ?st) + unat (est i)"
    by (rule admit_add) (use s_eq empty comm in auto)
  then have add: "unat (committed_bytes s) = unat (committed_bytes ?st) + unat (est i)"
    using s_eq by simp
  have "unat (committed_bytes s) \<le> unat (capacity_bytes s) \<or> card (weighty n est ?b) \<le> 1"
  proof (cases "holders n b = {}")
    case True
    then have "weighty n est b = {}" by (auto simp: weighty_def)
    then show ?thesis using w by simp
  next
    case False
    then have le: "unat (est i) \<le> unat (capacity_bytes ?st) - unat (committed_bytes ?st)"
      using s_eq act by simp
    show ?thesis
    proof (cases "unat (committed_bytes ?st) \<le> unat (capacity_bytes ?st)")
      case True
      then have "unat (committed_bytes ?st) + unat (est i) \<le> unat (capacity_bytes ?st)" using le by arith
      then show ?thesis using add s_eq by (intro disjI1) simp
    next
      case False
      then have "est i = 0" using le by (simp add: unat_eq_zero)
      moreover have "card (weighty n est b) \<le> 1" using False inv by (simp add: budget_inv_def)
      ultimately show ?thesis using w by simp
    qed
  qed
  then show ?thesis using active add comm h ni by (simp add: budget_inv_def)
qed

lemma free_inv:
  assumes inv: "budget_inv n est b" and i: "i < n" "bu_client b i = Holding"
  shows "budget_inv n est \<lparr>bu_state = release_budget (est i) (bu_state b),
    bu_client = (bu_client b)(i := Freeing)\<rparr>"
proof -
  let ?b = "\<lparr>bu_state = release_budget (est i) (bu_state b), bu_client = (bu_client b)(i := Freeing)\<rparr>"
  have h: "holders n ?b = holders n b - {i}" and hi: "i \<in> holders n b"
    using i by (auto simp: holders_def)
  have "weighty n est ?b \<subseteq> weighty n est b" by (auto simp: weighty_def h)
  then have "card (weighty n est ?b) \<le> card (weighty n est b)" by (simp add: card_mono)
  then show ?thesis
    using inv hi unfolding budget_inv_def h by (auto simp: release_budget_def unat_sat_sub sum_diff1_nat)
qed

lemma budget_inv_holders_eq:
  assumes "budget_inv n est b" "bu_state b' = bu_state b" "holders n b' = holders n b"
  shows "budget_inv n est b'"
  using assms(1) unfolding budget_inv_def weighty_def assms(2,3) .

lemma budget_step_inv:
  assumes "budget_step n est b b'" "budget_inv n est b" "n < 2 ^ 32"
  shows "budget_inv n est b'"
  using assms
proof cases
  case (admit i s)
  then show ?thesis using assms admit_inv by blast
next
  case (free i)
  then show ?thesis using assms free_inv by blast
qed (auto intro!: budget_inv_holders_eq[OF assms(2)] simp: holders_def notify_waiters_def fun_upd_def split: if_splits)

lemma budget_run_inv: "budget_run n est available b \<Longrightarrow> n < 2 ^ 32 \<Longrightarrow> budget_inv n est b"
proof (induction rule: budget_run.induct)
  case budget_start
  have "holders n (budget_init available) = {}" by (simp add: holders_def budget_init_def)
  then show ?case by (simp add: budget_inv_def weighty_def) (simp add: budget_init_def budget_new_def)
qed (rule budget_step_inv)

lemma budget_step_capacity:
  "budget_step n est b b' \<Longrightarrow> capacity_bytes (bu_state b') = capacity_bytes (bu_state b)"
  by (cases rule: budget_step.cases) (auto simp: try_reserve_Some release_budget_def)

lemma budget_run_capacity:
  "budget_run n est available b \<Longrightarrow> capacity_bytes (bu_state b) = capacity_from available"
  by (induction rule: budget_run.induct)
    (simp_all add: budget_init_def budget_new_def budget_step_capacity)

section \<open>Properties\<close>

text \<open>C11. However reservations, releases and notifications of fewer than $2^{32}$ clients interleave, the
  committed bytes are the sum of the estimates in flight and the count of active tasks is exact (neither
  counter wraps), and the sum exceeds the capacity, three quarters of the memory found at start, only
  while at most one task with a non-zero estimate runs.\<close>

theorem budget_never_overcommitted:
  assumes "budget_run n est available b" and "n < 2 ^ 32"
  shows "unat (committed_bytes (bu_state b)) = (\<Sum>i\<in>holders n b. unat (est i)) \<and>
    unat (active_count (bu_state b)) = card (holders n b) \<and>
    ((\<Sum>i\<in>holders n b. unat (est i)) \<le> unat (capacity_from available) \<or>
     card {i \<in> holders n b. est i \<noteq> 0} \<le> 1)"
proof -
  have "budget_inv n est b" using assms by (rule budget_run_inv)
  then show ?thesis
    unfolding budget_inv_def weighty_def budget_run_capacity[OF assms(1)] by (elim conjE) (intro conjI; simp)
qed

definition ex_budget :: Budget where
  "ex_budget = \<lparr>bu_state = \<lparr>capacity_bytes = 3, committed_bytes = 2, active_count = 1\<rparr>,
     bu_client = (\<lambda>_. Probing)(0 := Holding)\<rparr>"

lemma ex_budget_run: "budget_run 2 (\<lambda>_. 2) 4 ex_budget"
proof -
  have "capacity_from 4 = 3" by (simp add: capacity_from_def)
  then have init: "budget_init 4 =
      \<lparr>bu_state = \<lparr>capacity_bytes = 3, committed_bytes = 0, active_count = 0\<rparr>, bu_client = (\<lambda>_. Probing)\<rparr>"
    by (simp add: budget_init_def budget_new_def)
  have "try_reserve 2 \<lparr>capacity_bytes = 3, committed_bytes = 0, active_count = 0\<rparr> =
      Some \<lparr>capacity_bytes = 3, committed_bytes = 2, active_count = 1\<rparr>"
    by (simp add: try_reserve_def)
  then have "budget_step 2 (\<lambda>_. 2) (budget_init 4)
      \<lparr>bu_state = \<lparr>capacity_bytes = 3, committed_bytes = 2, active_count = 1\<rparr>, bu_client = (\<lambda>_. Probing)(0 := Holding)\<rparr>"
    unfolding init by (rule admit[of 0 2 "\<lparr>bu_state = \<lparr>capacity_bytes = 3, committed_bytes = 0, active_count = 0\<rparr>,
      bu_client = (\<lambda>_. Probing)\<rparr>", simplified])
  then show ?thesis unfolding ex_budget_def by (rule budget_next[OF budget_start])
qed

lemma ex_budget_holders: "holders 2 ex_budget = {0}"
  by (auto simp: holders_def ex_budget_def)

lemma capacity_from_4: "capacity_from 4 = 3"
  by (simp add: capacity_from_def)

theorem budget_never_overcommitted_witness:
  "unat (committed_bytes (bu_state ex_budget)) = 2 \<and> unat (active_count (bu_state ex_budget)) = 1"
  using budget_never_overcommitted[OF ex_budget_run] by (simp add: ex_budget_holders)

text \<open>In every reachable state the test made under the lock lets a task in exactly when the estimates
  in flight and its own fit together in the capacity (a zero estimate always does), or when no task
  holds a reservation: the first waiter is never starved, however large its estimate.\<close>

theorem reserve_admits_exactly:
  assumes "budget_run n est available b" and "n < 2 ^ 32"
  shows "try_reserve e (bu_state b) \<noteq> None \<longleftrightarrow>
    e = 0 \<or> (\<Sum>i\<in>holders n b. unat (est i)) + unat e \<le> unat (capacity_from available) \<or> holders n b = {}"
proof -
  have inv: "budget_inv n est b" using assms by (rule budget_run_inv)
  then have "unat (active_count (bu_state b)) = 0 \<longleftrightarrow> holders n b = {}"
    by (simp add: budget_inv_def)
  moreover have "unat e \<le> c - m \<longleftrightarrow> e = 0 \<or> m + unat e \<le> c" for c m :: nat
    by (cases "e = 0") (auto simp: unat_eq_zero dest: unat_gt_0[THEN iffD2])
  moreover have "unat (committed_bytes (bu_state b)) = (\<Sum>i\<in>holders n b. unat (est i))"
    using inv by (simp add: budget_inv_def)
  ultimately show ?thesis
    using budget_run_capacity[OF assms(1)] by (auto simp: try_reserve_Some)
qed

theorem reserve_admits_exactly_witness:
  "try_reserve 2 (bu_state ex_budget) = None \<and> try_reserve 1 (bu_state ex_budget) \<noteq> None"
  using reserve_admits_exactly[OF ex_budget_run, of 2] reserve_admits_exactly[OF ex_budget_run, of 1]
  by (simp add: ex_budget_holders capacity_from_4)

text \<open>A notification can be lost: between the test that refuses a client and its call of
  \<^verbatim>\<open>notified()\<close> the lock is free, so the only task in flight may give its bytes back and notify before the
  client listens.  The client then sleeps with nothing in flight and no step left that could wake it.\<close>

theorem reserve_lost_wakeup:
  assumes "unat (capacity_from available) < unat (est 0) + unat (est 1)" and "est 1 \<noteq> 0"
  shows "\<exists>b. budget_run 2 est available b \<and> bu_client b 1 = Asleep \<and> holders 2 b = {} \<and>
    committed_bytes (bu_state b) = 0 \<and> (\<forall>b'. \<not> budget_step 2 est b b')"
proof -
  let ?new = "budget_new available"
  let ?s1 = "?new\<lparr>committed_bytes := est 0, active_count := 1\<rparr>"
  let ?c1 = "(\<lambda>_. Probing)(0 := Holding)"
  let ?c2 = "?c1(1 := Listening)"
  have "budget_run 2 est available \<lparr>bu_state = ?s1, bu_client = ?c1\<rparr>"
    by (rule budget_next[OF budget_start])
      (use admit[of 0 2 "budget_init available" est ?s1] in
        \<open>simp add: budget_init_def try_reserve_Some budget_new_def\<close>)
  moreover have "0 < unat (est 1)" using assms(2) by (simp add: unat_gt_0)
  then have "try_reserve (est 1) ?s1 = None"
    using assms by (cases "try_reserve (est 1) ?s1")
      (auto simp: try_reserve_Some budget_new_def unat_eq_zero)
  ultimately have "budget_run 2 est available \<lparr>bu_state = ?s1, bu_client = ?c2\<rparr>"
    using refuse[of 1 2 "\<lparr>bu_state = ?s1, bu_client = ?c1\<rparr>" est] by (auto intro: budget_next)
  then have "budget_run 2 est available \<lparr>bu_state = ?new, bu_client = ?c2(0 := Freeing)\<rparr>"
    using free[of 0 2 "\<lparr>bu_state = ?s1, bu_client = ?c2\<rparr>" est]
    by (auto intro: budget_next simp: release_budget_def sat_sub_def budget_new_def)
  then have "budget_run 2 est available \<lparr>bu_state = ?new, bu_client = notify_waiters (?c2(0 := Gone))\<rparr>"
    using wake[of 0 2 "\<lparr>bu_state = ?new, bu_client = ?c2(0 := Freeing)\<rparr>" est]
    by (auto intro: budget_next)
  moreover have "notify_waiters (?c2(0 := Gone)) = ?c2(0 := Gone)"
    by (auto simp: notify_waiters_def)
  ultimately have "budget_run 2 est available \<lparr>bu_state = ?new, bu_client = ?c2(0 := Gone)\<rparr>" by simp
  then have run: "budget_run 2 est available \<lparr>bu_state = ?new, bu_client = ?c2(0 := Gone, 1 := Asleep)\<rparr>"
    (is "budget_run _ _ _ ?b")
    using listen[of 1 2 "\<lparr>bu_state = ?new, bu_client = ?c2(0 := Gone)\<rparr>" est]
    by (auto intro: budget_next)
  have "\<not> budget_step 2 est ?b b'" for b'
    by (auto elim!: budget_step.cases simp: less_2_cases_iff split: if_splits)
  moreover have "holders 2 ?b = {}" by (auto simp: holders_def less_2_cases_iff)
  ultimately show ?thesis using run by (intro exI[of _ ?b]) (simp add: budget_new_def)
qed

theorem reserve_lost_wakeup_witness:
  "\<exists>b. budget_run 2 (\<lambda>_. 1) 2 b \<and> bu_client b 1 = Asleep \<and> holders 2 b = {} \<and>
    (\<forall>b'. \<not> budget_step 2 (\<lambda>_. 1) b b')"
  using reserve_lost_wakeup[of 2 "\<lambda>_. 1"] by (auto simp: capacity_from_def)

text \<open>A guard gives its reservation back once: \<^verbatim>\<open>release_with_actual\<close>, whatever size it is told, has
  the effect of dropping the guard, both undo a successful reservation exactly, and a cold-start guard
  returns one permit and leaves the budget alone.\<close>

theorem guard_releases_once:
  assumes "try_reserve e s = Some s'" and "unat (committed_bytes s) + unat e < 2 ^ 64"
    and "unat (active_count s) + 1 < 2 ^ 32"
  shows "drop_guard \<lparr>g_inner = Some e, g_cold = False\<rparr> (s', p) = (s, p) \<and>
    release_with_actual actual \<lparr>g_inner = Some e, g_cold = False\<rparr> (s', p) = (s, p) \<and>
    (try_cold q = Some (g, p) \<longrightarrow> drop_guard g (s, p) = (s, q) \<and> release_with_actual actual g (s, p) = (s, q))"
proof -
  have "unat (committed_bytes s + e) = unat (committed_bytes s) + unat e"
    by (rule unat_add_no_wrap) (use assms(2) in simp)
  moreover have "unat (active_count s + 1) = unat (active_count s) + 1"
    using unat_add_no_wrap[of "active_count s" 1] assms(3) by simp
  ultimately have "release_budget e s' = s"
    using assms(1) by (auto simp: try_reserve_Some release_budget_def sat_sub_def word_le_nat_alt)
  then show ?thesis
    by (auto simp: drop_guard_def release_with_actual_def take_inner_def try_cold_def Let_def split: if_splits)
qed

theorem guard_releases_once_witness:
  "drop_guard \<lparr>g_inner = Some 5, g_cold = False\<rparr>
     (\<lparr>capacity_bytes = 3, committed_bytes = 5, active_count = 1\<rparr>, 0) =
   (\<lparr>capacity_bytes = 3, committed_bytes = 0, active_count = 0\<rparr>, 0)"
  using guard_releases_once[of 5 "\<lparr>capacity_bytes = 3, committed_bytes = 0, active_count = 0\<rparr>"
      "\<lparr>capacity_bytes = 3, committed_bytes = 5, active_count = 1\<rparr>" 0]
  by (simp add: try_reserve_def)

text \<open>Without a configured value there is always a cold-start permit and never more of them than
  processors, namely one per two gibibytes available; a configured \<^verbatim>\<open>coldConcurrency\<close> of 0 leaves
  none, so that a task without history waits forever, and a \<^verbatim>\<open>maxConcurrency\<close> of 0 likewise.\<close>

theorem cold_permits_bounds:
  assumes "0 < cpus"
  shows "let p = cold_permits_from None available cpus in
      1 \<le> p \<and> p \<le> cpus \<and> p = min cpus (max 1 (unat available div 2 ^ 31)) \<and>
      (try_cold (cold_permits_from c available cpus) = None \<longleftrightarrow> c = Some 0) \<and>
      (effective_concurrency m (Some cpus) = 0 \<longleftrightarrow> m = Some 0)"
proof -
  have "unat (max (max available 1 div 1073741824 div 2) 1 :: 64 word) = max 1 (unat (max available 1) div 2 ^ 31)"
    by (simp add: unat_max unat_div div_mult2_eq[symmetric] max.commute)
  also have "\<dots> = max 1 (unat available div 2 ^ 31)"
    by (cases "unat available \<le> 1") (simp_all add: unat_max max_def word_le_nat_alt)
  finally have "unat (max (max available 1 div 1073741824 div 2) 1 :: 64 word) = max 1 (unat available div 2 ^ 31)" .
  then show ?thesis
    using assms by (auto simp: cold_permits_from_def try_cold_def effective_concurrency_def Let_def
      split: option.splits)
qed

theorem cold_permits_bounds_witness:
  "cold_permits_from None (10 * 2 ^ 30) 8 = 5 \<and> try_cold (cold_permits_from (Some 0) (10 * 2 ^ 30) 8) = None"
  using cold_permits_bounds[of 8 "10 * 2 ^ 30" "Some 0" None] by (simp add: Let_def)

end
