(* ===== verification/Files.thy ===== *)
theory Files
  imports Strings
begin

text \<open>
  Files as the cache and the runner see them: a map from path texts to regular files (symbolic links
  followed), the directory walk of the walkdir library as a parameter, hexadecimal digests, and JSON
  codecs as pairs of functions.  Hash functions are parameters of the definitions that hash.
\<close>

section \<open>Reading and writing\<close>

datatype file_data = Readable string | Unreadable

type_synonym files = "string \<Rightarrow> file_data option"

definition is_file :: "files \<Rightarrow> string \<Rightarrow> bool" where
  "is_file fs p = (fs p \<noteq> None)"

definition read_file :: "files \<Rightarrow> string \<Rightarrow> string option" where
  "read_file fs p = (case fs p of Some (Readable c) \<Rightarrow> Some c | _ \<Rightarrow> None)"

text \<open>Writing: None when the file cannot be written.\<close>

definition write_file :: "(string \<Rightarrow> bool) \<Rightarrow> files \<Rightarrow> string \<Rightarrow> string \<Rightarrow> files option" where
  "write_file writable fs p c = (if writable p then Some (fs(p \<mapsto> Readable c)) else None)"

definition remove_file :: "string \<Rightarrow> files \<Rightarrow> files" where
  "remove_file p fs = fs(p := None)"

lemma read_file_update [simp]: "read_file (fs(p \<mapsto> Readable c)) q = (if q = p then Some c else read_file fs q)"
  by (simp add: read_file_def)

lemma write_file_Some: "write_file w fs p c = Some fs' \<longleftrightarrow> w p \<and> fs' = fs(p \<mapsto> Readable c)"
  by (auto simp: write_file_def)

lemma write_file_None: "write_file w fs p c = None \<longleftrightarrow> \<not> w p"
  by (simp add: write_file_def)

text \<open>\<^verbatim>\<open>let _ = write(...)\<close>: a failed write is ignored.\<close>

definition write_ignored :: "(string \<Rightarrow> bool) \<Rightarrow> files \<Rightarrow> string \<Rightarrow> string \<Rightarrow> files" where
  "write_ignored writable fs p c = (case write_file writable fs p c of None \<Rightarrow> fs | Some fs' \<Rightarrow> fs')"

section \<open>Directory walks\<close>

text \<open>An entry of a walk; \<^verbatim>\<open>we_file\<close> is false for symbolic links, which the walk does not follow.  A walk
  takes the root and the filter of \<^verbatim>\<open>filter_entry\<close> and yields the readable entries.\<close>

record walk_entry =
  we_path :: string
  we_name :: string
  we_dir :: bool
  we_file :: bool

type_synonym walker = "files \<Rightarrow> string \<Rightarrow> (walk_entry \<Rightarrow> bool) \<Rightarrow> walk_entry list"

definition not_skipped :: "string list \<Rightarrow> walk_entry \<Rightarrow> bool" where
  "not_skipped skip e = (we_dir e \<longrightarrow> we_name e \<notin> set skip)"

section \<open>Hexadecimal digests\<close>

definition hex_digit :: "nat \<Rightarrow> char" where
  "hex_digit n = ''0123456789abcdef'' ! n"

definition hex_byte :: "char \<Rightarrow> string" where
  "hex_byte c = [hex_digit (of_char c div 16), hex_digit (of_char c mod 16)]"

definition to_hex :: "string \<Rightarrow> string" where
  "to_hex s = concat (map hex_byte s)"

lemma hex_digit_inj: "m < 16 \<Longrightarrow> n < 16 \<Longrightarrow> hex_digit m = hex_digit n \<Longrightarrow> m = n"
  unfolding hex_digit_def by (subst (asm) nth_eq_iff_index_eq) auto

lemma of_char_lt: "(of_char c :: nat) < 256"
  by (rule nat_of_char_less_256)

lemma of_char_div_16: "(of_char c :: nat) div 16 < 16"
  using of_char_lt[of c] by (intro less_mult_imp_div_less) simp

lemma hex_byte_inj: "hex_byte a = hex_byte b \<Longrightarrow> a = b"
proof -
  assume "hex_byte a = hex_byte b"
  then have "hex_digit (of_char a div 16) = hex_digit (of_char b div 16)"
    "hex_digit (of_char a mod 16) = hex_digit (of_char b mod 16)" by (simp_all add: hex_byte_def)
  then have "(of_char a :: nat) div 16 = of_char b div 16" "(of_char a :: nat) mod 16 = of_char b mod 16"
    by (auto intro!: hex_digit_inj simp: of_char_div_16)
  then have "(of_char a :: nat) = of_char b" by (metis div_mult_mod_eq)
  then show ?thesis by simp
qed

lemma to_hex_inj: "to_hex a = to_hex b \<Longrightarrow> a = b"
proof (induction a arbitrary: b)
  case Nil
  then show ?case by (cases b) (auto simp: to_hex_def hex_byte_def)
next
  case (Cons x a)
  then obtain y b' where b: "b = y # b'" by (cases b) (auto simp: to_hex_def hex_byte_def)
  have "hex_byte x @ to_hex a = hex_byte y @ to_hex b'" using Cons.prems b by (simp add: to_hex_def)
  then have "hex_byte x = hex_byte y" "to_hex a = to_hex b'" by (auto simp: hex_byte_def)
  then show ?case using Cons.IH hex_byte_inj b by blast
qed

lemma hex_digit_in: "n < 16 \<Longrightarrow> hex_digit n \<in> set ''0123456789abcdef''"
  unfolding hex_digit_def by (rule nth_mem) simp

lemma hex_byte_chars: "set (hex_byte c) \<subseteq> set ''0123456789abcdef''"
proof -
  have "set [x, y] \<subseteq> S" if "x \<in> S" "y \<in> S" for x y :: char and S using that by simp
  then show ?thesis
    unfolding hex_byte_def using hex_digit_in[OF of_char_div_16] hex_digit_in by simp
qed

lemma to_hex_chars: "set (to_hex s) \<subseteq> set ''0123456789abcdef''"
  using hex_byte_chars unfolding to_hex_def by fastforce

lemma to_hex_plain [simp]:
  "newline \<notin> set (to_hex s)" "slash \<notin> set (to_hex s)" "CHR '':'' \<notin> set (to_hex s)"
  using to_hex_chars[of s] by auto

section \<open>Codecs\<close>

record 'a codec =
  enc :: "'a \<Rightarrow> string option"
  dec :: "string \<Rightarrow> 'a option"

definition codec_ok :: "'a codec \<Rightarrow> bool" where
  "codec_ok c \<longleftrightarrow> (\<forall>x s. enc c x = Some s \<longrightarrow> dec c s = Some x)"

lemma codec_okD: "codec_ok c \<Longrightarrow> enc c x = Some s \<Longrightarrow> dec c s = Some x"
  by (simp add: codec_ok_def)

text \<open>The path of a file directly inside a directory tells the name.\<close>

lemma path_join_inj:
  "\<not> is_absolute a \<Longrightarrow> \<not> is_absolute b \<Longrightarrow> path_join d a = path_join d b \<longleftrightarrow> a = b"
  by (simp add: path_join_def)

section \<open>Sorted listings\<close>

text \<open>\<^verbatim>\<open>dedup_by\<close> on a key: of neighbours with equal keys the first is kept.\<close>

fun dedup_key :: "('a \<Rightarrow> 'k) \<Rightarrow> 'a list \<Rightarrow> 'a list" where
  "dedup_key f [] = []"
| "dedup_key f [x] = [x]"
| "dedup_key f (x # y # zs) = (if f x = f y then dedup_key f (x # zs) else x # dedup_key f (y # zs))"

lemma dedup_key_set: "set (dedup_key f xs) \<subseteq> set xs"
  by (induction f xs rule: dedup_key.induct) auto

lemma dedup_key_hd: "xs \<noteq> [] \<Longrightarrow> \<exists>ys. dedup_key f xs = hd xs # ys"
  by (induction f xs rule: dedup_key.induct) auto

lemma dedup_key_keys: "f ` set (dedup_key f xs) = f ` set xs"
  by (induction f xs rule: dedup_key.induct) auto

lemma dedup_key_sorted: "sorted (map f xs) \<Longrightarrow> sorted_wrt (<) (map f (dedup_key f xs))"
proof (induction f xs rule: dedup_key.induct)
  case (3 f x y zs)
  show ?case
  proof (cases "f x = f y")
    case True
    then show ?thesis using 3 by simp
  next
    case False
    then have "sorted_wrt (<) (map f (dedup_key f (y # zs)))" using 3 by simp
    moreover have "\<forall>z\<in>set (y # zs). f y \<le> f z" using 3 by simp
    moreover have "f x < f y" using False "3.prems" by (simp add: order_less_le)
    ultimately have "\<forall>z\<in>set (dedup_key f (y # zs)). f x < f z"
      using dedup_key_set[of f "y # zs"] by (meson order_less_le_trans subsetD)
    then show ?thesis
      using False \<open>sorted_wrt (<) (map f (dedup_key f (y # zs)))\<close> by simp
  qed
qed auto

lemma dedup_key_id: "distinct (map f xs) \<Longrightarrow> dedup_key f xs = xs"
  by (induction f xs rule: dedup_key.induct) auto

lemma sort_key_perm:
  assumes "mset xs = mset ys" "inj_on f (set xs)"
  shows "sort_key f xs = sort_key f ys"
proof (rule properties_for_sort_key)
  show "mset (sort_key f ys) = mset xs" using assms(1) by simp
  show "filter (\<lambda>x. f k = f x) (sort_key f ys) = filter (\<lambda>x. f k = f x) xs" if "k \<in> set (sort_key f ys)" for k
  proof -
    have s: "set ys = set xs" using assms(1) by (metis set_mset_mset)
    then have k: "k \<in> set xs" using that by simp
    have one: "filter (\<lambda>x. f k = f x) zs = replicate (count (mset zs) k) k" if "set zs = set xs" for zs
    proof -
      have "filter (\<lambda>x. f k = f x) zs = filter (\<lambda>x. k = x) zs"
        by (rule filter_cong) (use assms(2) k that in \<open>auto dest: inj_onD\<close>)
      then show ?thesis by (simp only: replicate_count_mset_eq_filter_eq)
    qed
    show ?thesis using one[of "sort_key f ys"] one[of xs] s assms(1) by simp
  qed
qed simp

end
