(* ===== verification/Task_Stats.thy ===== *)
theory Task_Stats
  imports Files
begin

text \<open>
  Peak-memory history of a task (src/crates/cache/src/task_stats.rs): the window of the last sixteen
  observations, the 75th-percentile estimate and the file it is kept in.  The JSON codec is a parameter;
  the index \<^verbatim>\<open>((n - 1) as f64 * 0.75) as usize\<close>, exact for vectors of less than $2^{51}$ elements, is written
  with integers.
\<close>

section \<open>The window of samples\<close>

definition MAX_SAMPLES :: nat where
  "MAX_SAMPLES = 16"

record TaskStats =
  samples_bytes :: "64 word list"
  run_count :: "32 word"

definition stats_default :: TaskStats where
  "stats_default = \<lparr>samples_bytes = [], run_count = 0\<rparr>"

definition stats_record :: "64 word \<Rightarrow> TaskStats \<Rightarrow> TaskStats" where
  "stats_record peak s =
     \<lparr>samples_bytes = (if MAX_SAMPLES \<le> length (samples_bytes s) then drop 1 (samples_bytes s) else samples_bytes s) @ [peak],
      run_count = run_count s + 1\<rparr>"

definition estimate_bytes :: "TaskStats \<Rightarrow> 64 word option" where
  "estimate_bytes s =
     (if samples_bytes s = [] then None
      else Some (sort (samples_bytes s) ! (3 * (length (samples_bytes s) - 1) div 4)))"

section \<open>The statistics file\<close>

definition stats_path :: "string \<Rightarrow> string \<Rightarrow> string" where
  "stats_path cache_dir fp =
     path_join (path_join (path_join cache_dir ''stats'') (take (min (length fp) 8) fp)) (fp @ ''.json'')"

definition stats_load :: "TaskStats codec \<Rightarrow> files \<Rightarrow> string \<Rightarrow> string \<Rightarrow> TaskStats" where
  "stats_load c fs cache_dir fp = (case read_file fs (stats_path cache_dir fp) of
      None \<Rightarrow> stats_default
    | Some raw \<Rightarrow> (case dec c raw of None \<Rightarrow> stats_default | Some s \<Rightarrow> s))"

text \<open>None stands for a directory or a file that cannot be written, or for a codec failure.\<close>

definition stats_save :: "TaskStats codec \<Rightarrow> (string \<Rightarrow> bool) \<Rightarrow> files \<Rightarrow> string \<Rightarrow> string \<Rightarrow> TaskStats \<Rightarrow> files option" where
  "stats_save c writable fs cache_dir fp stats =
     (let path = stats_path cache_dir fp in
      case enc c stats of None \<Rightarrow> None
      | Some json \<Rightarrow> write_file writable fs path json)"

section \<open>Lemmas\<close>

definition last_n :: "nat \<Rightarrow> 'a list \<Rightarrow> 'a list" where
  "last_n n xs = drop (length xs - n) xs"

lemma last_n_length [simp]: "length (last_n n xs) = min n (length xs)"
  by (simp add: last_n_def)

lemma last_n_snoc:
  "0 < n \<Longrightarrow> (if n \<le> length (last_n n xs) then drop 1 (last_n n xs) else last_n n xs) @ [x] = last_n n (xs @ [x])"
  by (auto simp: last_n_def Suc_diff_le)

lemma stats_fold:
  "fold stats_record xs stats_default = \<lparr>samples_bytes = last_n MAX_SAMPLES xs, run_count = of_nat (length xs)\<rparr>"
proof (induction xs rule: rev_induct)
  case Nil
  show ?case by (simp add: stats_default_def last_n_def)
next
  case (snoc x xs)
  have "fold stats_record (xs @ [x]) stats_default =
      stats_record x \<lparr>samples_bytes = last_n MAX_SAMPLES xs, run_count = of_nat (length xs)\<rparr>"
    using snoc by simp
  also have "\<dots> = \<lparr>samples_bytes = last_n MAX_SAMPLES (xs @ [x]), run_count = of_nat (length (xs @ [x]))\<rparr>"
    using last_n_snoc[of MAX_SAMPLES xs x]
    by (simp only: stats_record_def TaskStats.select_convs) (simp add: MAX_SAMPLES_def add.commute)
  finally show ?case .
qed

lemma sorted_rank:
  assumes "sorted ys" "i < length ys"
  shows "i < length (filter (\<lambda>y. y \<le> ys ! i) ys) \<and> length (filter (\<lambda>y. y < ys ! i) ys) \<le> i"
proof
  have "filter (\<lambda>y. y \<le> ys ! i) (take (Suc i) ys) = take (Suc i) ys"
    by (rule filter_True) (use assms in \<open>auto simp: in_set_conv_nth intro!: sorted_nth_mono\<close>)
  moreover have "filter (\<lambda>y. y \<le> ys ! i) ys =
      filter (\<lambda>y. y \<le> ys ! i) (take (Suc i) ys) @ filter (\<lambda>y. y \<le> ys ! i) (drop (Suc i) ys)"
    by (simp flip: filter_append)
  ultimately show "i < length (filter (\<lambda>y. y \<le> ys ! i) ys)" using assms by simp
next
  have "filter (\<lambda>y. y < ys ! i) (drop i ys) = []"
    by (rule filter_False) (use assms in \<open>auto simp: in_set_conv_nth not_less intro!: sorted_nth_mono\<close>)
  moreover have "filter (\<lambda>y. y < ys ! i) ys =
      filter (\<lambda>y. y < ys ! i) (take i ys) @ filter (\<lambda>y. y < ys ! i) (drop i ys)"
    by (simp flip: filter_append)
  ultimately show "length (filter (\<lambda>y. y < ys ! i) ys) \<le> i"
    by (metis append_Nil2 length_filter_le length_take min.boundedE)
qed

lemma filter_sort_length: "length (filter P (sort xs)) = length (filter P xs)"
  by (metis mset_filter mset_sort size_mset)

lemma stats_path_inj:
  assumes "stats_path d a = stats_path d b" "slash \<notin> set a" "slash \<notin> set b" "a \<noteq> []" "b \<noteq> []"
  shows "a = b"
proof -
  have shape: "stats_path d w = path_join d ''stats'' @ slash # take 8 w @ slash # w @ ''.json''"
    if "slash \<notin> set w" "w \<noteq> []" for w
  proof -
    have t: "take 8 w \<noteq> []" "slash \<notin> set (take 8 w)"
      using that by (auto dest: in_set_takeD)
    have "last (path_join d ''stats'') \<noteq> slash" "path_join d ''stats'' \<noteq> []"
      by (auto simp: path_join_def is_absolute_def)
    moreover have "\<not> is_absolute (take 8 w)" "\<not> is_absolute (w @ ''.json'')"
      using that t by (simp_all add: not_absolute not_absolute_append)
    moreover have "last (take 8 w) \<noteq> slash" using t last_in_set by metis
    moreover have "take (min (length w) 8) w = take 8 w" by (simp add: min_def)
    ultimately show ?thesis
      using t(1) by (simp add: stats_path_def path_join_def)
  qed
  have "take 8 a @ slash # a @ ''.json'' = take 8 b @ slash # b @ ''.json''"
    using assms(1) unfolding shape[OF assms(2,4)] shape[OF assms(3,5)] by simp
  then have eq: "split_on slash (take 8 a @ slash # a @ ''.json'') = split_on slash (take 8 b @ slash # b @ ''.json'')"
    by (rule arg_cong)
  have sa: "slash \<notin> set (take 8 a)" and sb: "slash \<notin> set (take 8 b)"
    using assms(2,3) by (auto dest: in_set_takeD)
  have "split_on slash (a @ ''.json'') = split_on slash (b @ ''.json'')"
    using eq unfolding split_on_append[OF sa] split_on_append[OF sb] list.inject by (rule conjunct2)
  then have "join_with [slash] (split_on slash (a @ ''.json'')) = join_with [slash] (split_on slash (b @ ''.json''))"
    by (rule arg_cong)
  then show ?thesis by (simp only: join_split append_same_eq)
qed

section \<open>Properties\<close>

text \<open>After any sequence of runs the history holds exactly the last sixteen observations in order and
  the number of runs modulo $2^{32}$; there is an estimate once there has been a run, and it is the upper
  quartile of the window: one of its samples, with more than three quarters of the other samples' number at or
  below it and at most that many below.\<close>

theorem task_stats_correct:
  "let s = fold stats_record xs stats_default; win = drop (length xs - 16) xs; k = 3 * (length win - 1) div 4 in
   samples_bytes s = win \<and> run_count s = of_nat (length xs) \<and>
   (case estimate_bytes s of
      None \<Rightarrow> xs = []
    | Some e \<Rightarrow> xs \<noteq> [] \<and> e \<in> set win \<and>
        k < length (filter (\<lambda>y. y \<le> e) win) \<and> length (filter (\<lambda>y. y < e) win) \<le> k)"
proof -
  let ?win = "drop (length xs - 16) xs"
  let ?k = "3 * (length ?win - 1) div 4"
  have s: "fold stats_record xs stats_default = \<lparr>samples_bytes = ?win, run_count = of_nat (length xs)\<rparr>"
    by (simp add: stats_fold last_n_def MAX_SAMPLES_def)
  have none: "?win = [] \<longleftrightarrow> xs = []" by (cases xs) auto
  have quart: "e \<in> set ?win \<and> ?k < length (filter (\<lambda>y. y \<le> e) ?win) \<and> length (filter (\<lambda>y. y < e) ?win) \<le> ?k"
    if "?win \<noteq> []" and e: "e = sort ?win ! ?k" for e
  proof -
    have "0 < length ?win" using that(1) by (metis length_greater_0_conv)
    then have k: "?k < length (sort ?win)" unfolding length_sort by arith
    then show ?thesis
      using sorted_rank[OF sorted_sort k] unfolding filter_sort_length e
      by (metis nth_mem set_sort)
  qed
  show ?thesis
    unfolding s Let_def estimate_bytes_def TaskStats.select_convs none
    using quart none by (simp split: if_splits del: drop_eq_Nil)
qed

text \<open>What is saved for a fingerprint is what the next load for it returns, and saving changes the
  history of no other fingerprint; a missing or corrupt file reads as an empty history.\<close>

theorem stats_save_load:
  assumes "codec_ok c"
    and "stats_save c writable fs dir fp s = Some fs'"
    and "fp \<noteq> []" and "slash \<notin> set fp"
  shows "stats_load c fs' dir fp = s \<and>
    (\<forall>fp'. fp' \<noteq> [] \<longrightarrow> slash \<notin> set fp' \<longrightarrow> fp' \<noteq> fp \<longrightarrow>
       stats_load c fs' dir fp' = stats_load c fs dir fp')"
proof -
  obtain j where j: "enc c s = Some j" and fs': "fs' = fs(stats_path dir fp \<mapsto> Readable j)"
    using assms(2) by (auto simp: stats_save_def Let_def write_file_Some split: option.splits)
  have "stats_path dir fp' \<noteq> stats_path dir fp" if "fp' \<noteq> []" "slash \<notin> set fp'" "fp' \<noteq> fp" for fp'
    using stats_path_inj that assms(3,4) by blast
  then show ?thesis
    using assms(1) j by (auto simp: stats_load_def fs' codec_ok_def)
qed

theorem stats_save_load_witness:
  "stats_load \<lparr>enc = (\<lambda>s. if s = stats_record 7 stats_default then Some ''x'' else None),
      dec = (\<lambda>j. if j = ''x'' then Some (stats_record 7 stats_default) else None)\<rparr>
     [stats_path ''/c'' ''ab'' \<mapsto> Readable ''x''] ''/c'' ''ab'' = stats_record 7 stats_default"
  using stats_save_load[of "\<lparr>enc = (\<lambda>s. if s = stats_record 7 stats_default then Some ''x'' else None),
      dec = (\<lambda>j. if j = ''x'' then Some (stats_record 7 stats_default) else None)\<rparr>" "\<lambda>_. True" "\<lambda>_. None" "''/c''" "''ab''"
      "stats_record 7 stats_default"]
  by (simp add: stats_save_def Let_def codec_ok_def write_file_def split: if_splits)

end
