(* ===== verification/Fingerprints.thy ===== *)
theory Fingerprints
  imports Files
begin

text \<open>
  The fingerprints of src/crates/cache: the weak fingerprint of a task's declared inputs (weak_fp.rs,
  tool_hash.rs), the strong fingerprint of the files it was seen to read (strong_fp.rs) and the legacy
  single-phase fingerprint (fingerprint.rs).  blake3, the walk and the globset library are the fields of
  \<^verbatim>\<open>Libs\<close>.  A hasher that is fed piece by piece hashes the concatenation of the pieces, so every fingerprint is
  the hex digest of a message, and the lemmas are about the messages: which inputs they determine.
  Texts are taken to be valid UTF-8, for which \<^verbatim>\<open>to_string_lossy\<close> is the identity.
\<close>

section \<open>Definitions\<close>

record Libs =
  l_hash :: "string \<Rightarrow> string"
  l_walk :: walker
  l_glob_ok :: "string \<Rightarrow> bool"
  l_globset :: "string list \<Rightarrow> (string \<Rightarrow> bool) option"

definition hex_hash :: "Libs \<Rightarrow> string \<Rightarrow> string" where
  "hex_hash L m = to_hex (l_hash L m)"

definition hash_tool_binary :: "Libs \<Rightarrow> files \<Rightarrow> string \<Rightarrow> string option" where
  "hash_tool_binary L fs p = map_option (hex_hash L) (read_file fs p)"

record WeakFpInputs =
  wi_command :: string
  wi_tool_path :: string
  wi_package_path :: string
  wi_input_globs :: "string list"
  wi_env :: "(string \<times> string) list"
  wi_dep_abi :: "(string \<times> string) list"

definition WF_SKIP_DIRS :: "string list" where
  "WF_SKIP_DIRS = [''node_modules'', ''target'', ''dist'', ''.git'']"

definition glob_file :: "Libs \<Rightarrow> files \<Rightarrow> string \<Rightarrow> (string \<Rightarrow> bool) \<Rightarrow> walk_entry \<Rightarrow> (string \<times> string) option" where
  "glob_file L fs pkg_dir matches e =
     (if \<not> we_file e then None
      else (case path_strip_prefix (we_path e) pkg_dir of None \<Rightarrow> None
        | Some rel \<Rightarrow>
            if matches rel then map_option (\<lambda>c. (rel, hex_hash L c)) (read_file fs (we_path e)) else None))"

definition resolve_globs :: "Libs \<Rightarrow> files \<Rightarrow> string \<Rightarrow> string list \<Rightarrow> (string \<times> string) list" where
  "resolve_globs L fs pkg_dir globs =
     (if globs = [] then []
      else (case l_globset L (filter (l_glob_ok L) globs) of None \<Rightarrow> []
        | Some matches \<Rightarrow>
            dedup_key (\<lambda>f. path_key (fst f)) (sort_key (\<lambda>f. path_key (fst f))
              (List.map_filter (glob_file L fs pkg_dir matches) (l_walk L fs pkg_dir (not_skipped WF_SKIP_DIRS))))))"

definition weak_lines :: "Libs \<Rightarrow> files \<Rightarrow> WeakFpInputs \<Rightarrow> string list" where
  "weak_lines L fs i =
     [''command:'' @ wi_command i,
      ''tool_path:'' @ wi_tool_path i,
      ''tool_hash:'' @ (case hash_tool_binary L fs (wi_tool_path i) of None \<Rightarrow> ''<missing>'' | Some x \<Rightarrow> x),
      ''pkg_path:'' @ wi_package_path i] @
     map (\<lambda>(rel, x). ''input:'' @ rel @ '':'' @ x) (resolve_globs L fs (wi_package_path i) (wi_input_globs i)) @
     map (\<lambda>(k, v). ''env:'' @ k @ ''='' @ v) (sort_key fst (wi_env i)) @
     map (\<lambda>(d, a). ''dep_abi:'' @ d @ ''='' @ a) (sort_key fst (wi_dep_abi i))"

definition weak_message :: "Libs \<Rightarrow> files \<Rightarrow> WeakFpInputs \<Rightarrow> string" where
  "weak_message L fs i = concat (map (\<lambda>l. l @ [newline]) (weak_lines L fs i))"

definition compute_weak_fingerprint :: "Libs \<Rightarrow> files \<Rightarrow> WeakFpInputs \<Rightarrow> string" where
  "compute_weak_fingerprint L fs i = hex_hash L (weak_message L fs i)"

definition sf_paths :: "string list \<Rightarrow> string list" where
  "sf_paths reads = dedup_key path_key (sort_key path_key
     (filter (\<lambda>p. ''node_modules'' \<notin> set (path_components p)) reads))"

definition read_block :: "Libs \<Rightarrow> files \<Rightarrow> string \<Rightarrow> string" where
  "read_block L fs p =
     (if \<not> is_file fs p then []
      else ''read:'' @ p @ '':'' @ l_hash L (case read_file fs p of None \<Rightarrow> [] | Some c \<Rightarrow> c) @ [newline])"

definition strong_message :: "Libs \<Rightarrow> files \<Rightarrow> string \<Rightarrow> string list \<Rightarrow> string" where
  "strong_message L fs weak reads =
     ''wf:'' @ weak @ [newline] @ concat (map (read_block L fs) (sf_paths reads))"

definition compute_strong_fingerprint :: "Libs \<Rightarrow> files \<Rightarrow> string \<Rightarrow> string list \<Rightarrow> string" where
  "compute_strong_fingerprint L fs weak reads = hex_hash L (strong_message L fs weak reads)"

text \<open>The legacy fingerprint; \<^verbatim>\<open>extension\<close> is the text after the last dot of the file name, if there is one that
  does not start the name.\<close>

definition path_extension :: "string \<Rightarrow> string" where
  "path_extension p = (case path_file_name p of None \<Rightarrow> []
     | Some n \<Rightarrow> (let r = rev n; e = takeWhile (\<lambda>c. c \<noteq> CHR ''.'') r in
         if length e + 1 < length n then rev e else []))"

definition SOURCE_EXTENSIONS :: "string list" where
  "SOURCE_EXTENSIONS = [''ts'', ''tsx'', ''js'', ''jsx'', ''mts'', ''cts'', ''rs'', ''go'', ''py'', ''json'']"

definition fingerprint_task :: "Libs \<Rightarrow> files \<Rightarrow> string \<Rightarrow> string \<Rightarrow> string" where
  "fingerprint_task L fs command pkg_dir =
     hex_hash L (command @ concat (map (\<lambda>p. p @ (case read_file fs p of None \<Rightarrow> [] | Some c \<Rightarrow> c))
       (sort_key path_key (map we_path (filter (\<lambda>e. we_file e \<and> path_extension (we_path e) \<in> set SOURCE_EXTENSIONS)
          (l_walk L fs pkg_dir (not_skipped WF_SKIP_DIRS)))))))"

section \<open>Reading a message back\<close>

lemma lines_inj:
  fixes c :: char
  assumes "concat (map (\<lambda>l. l @ [c]) xs) = concat (map (\<lambda>l. l @ [c]) ys)"
    and "\<forall>l\<in>set xs. c \<notin> set l" "\<forall>l\<in>set ys. c \<notin> set l"
  shows "xs = ys"
proof -
  have split: "split_on c (concat (map (\<lambda>l. l @ [c]) zs)) = zs @ [[]]" if "\<forall>l\<in>set zs. c \<notin> set l" for zs
    using that by (induction zs) (auto simp: split_on_append)
  have "xs @ [[]] = ys @ [[]]"
    using split[OF assms(2)] split[OF assms(3)] unfolding assms(1) by (rule HOL.trans[OF sym])
  then show ?thesis by simp
qed

lemma sep_first_inj:
  assumes "a @ c # b = a' @ c # b'" "c \<notin> set a" "c \<notin> set a'"
  shows "a = a' \<and> b = b'"
  using assms
proof (induction a arbitrary: a')
  case Nil
  then show ?case by (cases a') auto
next
  case (Cons x a)
  then show ?case by (cases a') auto
qed

lemma sep_last_inj:
  assumes "a @ c # b = a' @ c # b'" "c \<notin> set b" "c \<notin> set b'"
  shows "a = a' \<and> b = b'"
proof -
  have "rev b @ c # rev a = rev b' @ c # rev a'"
    using arg_cong[OF assms(1), of rev] by simp
  then show ?thesis using sep_first_inj[of "rev b" c "rev a" "rev b'" "rev a'"] assms by simp
qed

lemma map_inj_list:
  assumes "map f xs = map f ys" "\<And>x y. x \<in> set xs \<Longrightarrow> y \<in> set ys \<Longrightarrow> f x = f y \<Longrightarrow> x = y"
  shows "xs = ys"
proof (rule nth_equalityI)
  show l: "length xs = length ys" using assms(1) by (rule map_eq_imp_length_eq)
  show "xs ! i = ys ! i" if "i < length xs" for i
  proof (rule assms(2))
    show "f (xs ! i) = f (ys ! i)" using arg_cong[OF assms(1), of "\<lambda>zs. zs ! i"] that l by simp
  qed (use that l in auto)
qed

text \<open>The three groups of lines at the end of a weak message tell each other apart by their first letter.\<close>

lemma groups_inj:
  assumes "map f a @ map g b @ map k c = map f a' @ map g b' @ map k c'"
    and "\<And>x. P (f x)" "\<And>x. \<not> P (g x)" "\<And>x. \<not> P (k x)" "\<And>x. Q (g x)" "\<And>x. \<not> Q (k x)"
  shows "map f a = map f a' \<and> map g b = map g b' \<and> map k c = map k c'"
proof -
  have fa: "filter P (map f xs) = map f xs" "filter P (map g ys) = []" "filter P (map k zs) = []"
    "filter Q (map g ys) = map g ys" "filter Q (map k zs) = []" for xs ys zs
    using assms(2-6) by (auto simp: filter_map o_def)
  have 1: "map f a = map f a'"
    using arg_cong[OF assms(1), of "filter P"] by (simp add: fa)
  then have "map g b @ map k c = map g b' @ map k c'" using assms(1) by simp
  moreover from this have "map g b = map g b'"
    using arg_cong[of _ _ "filter Q"] by (metis append_Nil2 fa(4,5) filter_append)
  ultimately show ?thesis using 1 by simp
qed

text \<open>What a weak fingerprint is meant to stand for, and when its message determines that.\<close>

definition weak_view :: "Libs \<Rightarrow> files \<Rightarrow> WeakFpInputs \<Rightarrow>
    (string \<times> string \<times> string option \<times> string) \<times> (string \<times> string) list \<times> (string \<times> string) list \<times> (string \<times> string) list" where
  "weak_view L fs i =
     ((wi_command i, wi_tool_path i, hash_tool_binary L fs (wi_tool_path i), wi_package_path i),
      resolve_globs L fs (wi_package_path i) (wi_input_globs i), sort_key fst (wi_env i), sort_key fst (wi_dep_abi i))"

definition one_line :: "string \<Rightarrow> bool" where
  "one_line s = (newline \<notin> set s)"

definition weak_plain :: "Libs \<Rightarrow> files \<Rightarrow> WeakFpInputs \<Rightarrow> bool" where
  "weak_plain L fs i \<longleftrightarrow> one_line (wi_command i) \<and> one_line (wi_tool_path i) \<and> one_line (wi_package_path i) \<and>
     (\<forall>f\<in>set (resolve_globs L fs (wi_package_path i) (wi_input_globs i)). one_line (fst f)) \<and>
     (\<forall>kv\<in>set (wi_env i) \<union> set (wi_dep_abi i).
        one_line (fst kv) \<and> one_line (snd kv) \<and> CHR ''='' \<notin> set (fst kv))"

lemma glob_file_hex: "glob_file L fs d m e = Some f \<Longrightarrow> \<exists>c. snd f = to_hex c"
  by (auto simp: glob_file_def hex_hash_def split: option.splits if_splits)

lemma resolve_globs_hex: "f \<in> set (resolve_globs L fs d gs) \<Longrightarrow> \<exists>c. snd f = to_hex c"
  by (auto simp: resolve_globs_def in_set_map_filter dest!: subsetD[OF dedup_key_set] glob_file_hex
      split: option.splits if_splits)

lemma hash_tool_hex: "hash_tool_binary L fs p = Some x \<Longrightarrow> \<exists>c. x = to_hex c"
  by (auto simp: hash_tool_binary_def hex_hash_def)

lemma weak_lines_one_line:
  assumes "weak_plain L fs i" "l \<in> set (weak_lines L fs i)"
  shows "newline \<notin> set l"
proof -
  have th: "newline \<notin> set (case hash_tool_binary L fs p of None \<Rightarrow> ''<missing>'' | Some x \<Rightarrow> x)" for p
    by (auto dest!: hash_tool_hex split: option.splits)
  have rg: "newline \<notin> set (snd f)" if "f \<in> set (resolve_globs L fs (wi_package_path i) (wi_input_globs i))" for f
    using resolve_globs_hex[OF that] by auto
  show ?thesis
    using assms th rg unfolding weak_lines_def weak_plain_def one_line_def by (fastforce simp: Ball_def)
qed

lemma tool_hash_inj:
  assumes "(case hash_tool_binary L fs p of None \<Rightarrow> ''<missing>'' | Some x \<Rightarrow> x) =
    (case hash_tool_binary L fs' p' of None \<Rightarrow> ''<missing>'' | Some x \<Rightarrow> x)"
  shows "hash_tool_binary L fs p = hash_tool_binary L fs' p'"
proof -
  have "to_hex c \<noteq> ''<missing>''" for c
  proof
    assume "to_hex c = ''<missing>''"
    then have "CHR ''<'' \<in> set (to_hex c)" by simp
    then show False using to_hex_chars[of c] by auto
  qed
  then show ?thesis
    using assms by (auto split: option.splits dest!: hash_tool_hex) metis+
qed

theorem weak_message_inj:
  assumes eq: "weak_message L fs i = weak_message L fs' j"
    and p: "weak_plain L fs i" "weak_plain L fs' j"
  shows "weak_view L fs i = weak_view L fs' j"
proof -
  let ?f = "\<lambda>(rel, x). ''input:'' @ rel @ '':'' @ x"
  let ?g = "\<lambda>(k, v). ''env:'' @ k @ ''='' @ v"
  let ?k = "\<lambda>(d, a). ''dep_abi:'' @ d @ ''='' @ a"
  have lines: "weak_lines L fs i = weak_lines L fs' j"
    by (rule lines_inj[of newline])
      (use eq p weak_lines_one_line in \<open>auto simp: weak_message_def\<close>)
  then have heads: "wi_command i = wi_command j" "wi_tool_path i = wi_tool_path j"
      "hash_tool_binary L fs (wi_tool_path i) = hash_tool_binary L fs' (wi_tool_path j)"
      "wi_package_path i = wi_package_path j"
    by (auto simp: weak_lines_def intro: tool_hash_inj)
  have "map ?f (resolve_globs L fs (wi_package_path i) (wi_input_globs i)) =
        map ?f (resolve_globs L fs' (wi_package_path j) (wi_input_globs j)) \<and>
      map ?g (sort_key fst (wi_env i)) = map ?g (sort_key fst (wi_env j)) \<and>
      map ?k (sort_key fst (wi_dep_abi i)) = map ?k (sort_key fst (wi_dep_abi j))"
    by (rule groups_inj[where P = "\<lambda>l. hd l = CHR ''i''" and Q = "\<lambda>l. hd l = CHR ''e''"])
      (use lines in \<open>auto simp: weak_lines_def\<close>)
  then have f: "map ?f (resolve_globs L fs (wi_package_path i) (wi_input_globs i)) =
        map ?f (resolve_globs L fs' (wi_package_path j) (wi_input_globs j))"
    and g: "map ?g (sort_key fst (wi_env i)) = map ?g (sort_key fst (wi_env j))"
    and k: "map ?k (sort_key fst (wi_dep_abi i)) = map ?k (sort_key fst (wi_dep_abi j))" by blast+
  have "resolve_globs L fs (wi_package_path i) (wi_input_globs i) =
      resolve_globs L fs' (wi_package_path j) (wi_input_globs j)"
  proof (rule map_inj_list[OF f])
    fix x y
    assume x: "x \<in> set (resolve_globs L fs (wi_package_path i) (wi_input_globs i))"
      and y: "y \<in> set (resolve_globs L fs' (wi_package_path j) (wi_input_globs j))" and e: "?f x = ?f y"
    have "CHR '':'' \<notin> set (snd x)" "CHR '':'' \<notin> set (snd y)"
      using resolve_globs_hex[OF x] resolve_globs_hex[OF y] by auto
    then show "x = y" using e sep_last_inj[of "fst x" "CHR '':''" "snd x" "fst y" "snd y"]
      by (auto simp: case_prod_beta prod_eq_iff)
  qed
  moreover have "sort_key fst (wi_env i) = sort_key fst (wi_env j)"
  proof (rule map_inj_list[OF g])
    fix x y assume "x \<in> set (sort_key fst (wi_env i))" "y \<in> set (sort_key fst (wi_env j))" "?g x = ?g y"
    then show "x = y" using p sep_first_inj[of "fst x" "CHR ''=''" "snd x" "fst y" "snd y"]
      by (auto simp: weak_plain_def case_prod_beta prod_eq_iff)
  qed
  moreover have "sort_key fst (wi_dep_abi i) = sort_key fst (wi_dep_abi j)"
  proof (rule map_inj_list[OF k])
    fix x y assume "x \<in> set (sort_key fst (wi_dep_abi i))" "y \<in> set (sort_key fst (wi_dep_abi j))" "?k x = ?k y"
    then show "x = y" using p sep_first_inj[of "fst x" "CHR ''=''" "snd x" "fst y" "snd y"]
      by (auto simp: weak_plain_def case_prod_beta prod_eq_iff)
  qed
  ultimately show ?thesis using heads by (simp add: weak_view_def)
qed

text \<open>Conversely the message depends on nothing else.\<close>

lemma weak_message_cong: "weak_view L fs i = weak_view L fs' j \<Longrightarrow> weak_message L fs i = weak_message L fs' j"
  by (auto simp: weak_view_def weak_message_def weak_lines_def)

section \<open>The message of the strong fingerprint\<close>

definition strong_view :: "Libs \<Rightarrow> files \<Rightarrow> string list \<Rightarrow> (string \<times> string) list" where
  "strong_view L fs reads =
     map (\<lambda>p. (p, l_hash L (case read_file fs p of None \<Rightarrow> [] | Some c \<Rightarrow> c))) (filter (is_file fs) (sf_paths reads))"

definition block_of :: "string \<times> string \<Rightarrow> string" where
  "block_of f = ''read:'' @ fst f @ '':'' @ snd f @ [newline]"

definition digests_32 :: "Libs \<Rightarrow> bool" where
  "digests_32 L \<longleftrightarrow> (\<forall>m. length (l_hash L m) = 32)"

definition no_colon :: "string list \<Rightarrow> bool" where
  "no_colon ps \<longleftrightarrow> (\<forall>p\<in>set ps. CHR '':'' \<notin> set p)"

lemma read_blocks: "concat (map (read_block L fs) ps) =
    concat (map block_of (map (\<lambda>p. (p, l_hash L (case read_file fs p of None \<Rightarrow> [] | Some c \<Rightarrow> c))) (filter (is_file fs) ps)))"
  by (induction ps) (auto simp: read_block_def block_of_def)

lemma strong_message_view: "strong_message L fs w reads = ''wf:'' @ w @ newline # concat (map block_of (strong_view L fs reads))"
  by (simp add: strong_message_def strong_view_def read_blocks)

lemma block_inj:
  assumes "block_of f @ xs = block_of g @ ys" "CHR '':'' \<notin> set (fst f)" "CHR '':'' \<notin> set (fst g)"
    and "length (snd f) = length (snd g)"
  shows "f = g \<and> xs = ys"
proof -
  have e: "fst f @ CHR '':'' # (snd f @ newline # xs) = fst g @ CHR '':'' # (snd g @ newline # ys)"
    using assms(1) by (simp add: block_of_def)
  have 1: "fst f = fst g" and 2: "snd f @ newline # xs = snd g @ newline # ys"
    using sep_first_inj[OF e assms(2,3)] by simp_all
  have "snd f = snd g \<and> newline # xs = newline # ys"
    using 2 unfolding append_eq_append_conv[OF disjI1[OF assms(4)]] .
  then show ?thesis using 1 by (simp add: prod_eq_iff)
qed

lemma blocks_inj:
  assumes "concat (map block_of xs) = concat (map block_of ys)"
    and "\<forall>f\<in>set xs \<union> set ys. CHR '':'' \<notin> set (fst f) \<and> length (snd f) = 32"
  shows "xs = ys"
  using assms
proof (induction xs arbitrary: ys)
  case Nil
  then show ?case by (cases ys) (auto simp: block_of_def)
next
  case (Cons f xs)
  then obtain g zs where ys: "ys = g # zs" by (cases ys) (auto simp: block_of_def)
  have "f = g \<and> concat (map block_of xs) = concat (map block_of zs)"
    by (rule block_inj) (use Cons.prems ys in auto)
  then show ?case using Cons.IH[of zs] Cons.prems(2) ys by simp
qed

lemma sf_paths_set: "set (sf_paths reads) \<subseteq> set reads"
  using dedup_key_set[of path_key "sort_key path_key (filter (\<lambda>p. ''node_modules'' \<notin> set (path_components p)) reads)"]
  by (auto simp: sf_paths_def)

lemma strong_message_inj:
  assumes "strong_message L fs w reads = strong_message L fs' w' reads'"
    and "newline \<notin> set w" "newline \<notin> set w'" "no_colon reads" "no_colon reads'" "digests_32 L"
  shows "w = w' \<and> strong_view L fs reads = strong_view L fs' reads'"
proof -
  have e: "w @ newline # concat (map block_of (strong_view L fs reads)) =
      w' @ newline # concat (map block_of (strong_view L fs' reads'))"
    using assms(1) unfolding strong_message_view by simp
  have c: "concat (map block_of (strong_view L fs reads)) = concat (map block_of (strong_view L fs' reads'))" and w: "w = w'"
    using sep_first_inj[OF e assms(2,3)] by simp_all
  have v: "\<forall>f\<in>set (strong_view L g rs). CHR '':'' \<notin> set (fst f) \<and> length (snd f) = 32" if "no_colon rs" for g rs
    using that assms(6) sf_paths_set[of rs] by (auto simp: strong_view_def no_colon_def digests_32_def)
  have "strong_view L fs reads = strong_view L fs' reads'"
    by (rule blocks_inj[OF c]) (use v[OF assms(4)] v[OF assms(5)] in blast)
  then show ?thesis using w by simp
qed

lemma strong_message_cong:
  "strong_view L fs reads = strong_view L fs' reads' \<Longrightarrow> strong_message L fs w reads = strong_message L fs' w reads'"
  by (simp add: strong_message_view)

section \<open>Order\<close>

lemma walk_irrelevant [simp]:
  "hex_hash (L\<lparr>l_walk := w\<rparr>) = hex_hash L"
  "hash_tool_binary (L\<lparr>l_walk := w\<rparr>) = hash_tool_binary L"
  "glob_file (L\<lparr>l_walk := w\<rparr>) = glob_file L"
  by (auto simp: fun_eq_iff hex_hash_def hash_tool_binary_def glob_file_def map_option_case split: option.splits)

lemma strict_sorted_key_unique:
  fixes f :: "'a \<Rightarrow> 'k::linorder"
  assumes "sorted_wrt (<) (map f xs)" "sorted_wrt (<) (map f ys)" "set xs = set ys" "inj_on f (set xs)"
  shows "xs = ys"
proof -
  have "map f xs = map f ys"
    by (rule strict_sorted_equal) (use assms in auto)
  then show ?thesis
    by (rule map_inj_list) (use assms(3,4) in \<open>auto dest: inj_onD\<close>)
qed

lemma sf_paths_order:
  assumes "set reads = set reads'" "inj_on path_key (set reads)"
  shows "sf_paths reads = sf_paths reads'"
proof -
  let ?n = "\<lambda>p. ''node_modules'' \<notin> set (path_components p)"
  have sorted: "sorted_wrt (<) (map path_key (sf_paths rs))" for rs
    unfolding sf_paths_def by (rule dedup_key_sorted) simp
  have "path_key ` set (sf_paths rs) = path_key ` set (filter ?n rs)" for rs
    unfolding sf_paths_def dedup_key_keys by simp
  moreover have "set (sf_paths rs) \<subseteq> set (filter ?n rs)" for rs
    unfolding sf_paths_def using dedup_key_set[of path_key "sort_key path_key (filter ?n rs)"] by simp
  moreover have "inj_on path_key (set (filter ?n reads))" "set (filter ?n reads) = set (filter ?n reads')"
    using assms by (auto intro: inj_on_subset)
  ultimately have "set (sf_paths reads) = set (sf_paths reads')"
    by (metis (no_types, lifting) inj_on_image_eq_iff)
  moreover have "inj_on path_key (set (sf_paths reads))"
    using assms(2) sf_paths_set by (rule inj_on_subset)
  ultimately show ?thesis using strict_sorted_key_unique sorted by blast
qed

lemma resolve_globs_order:
  assumes "mset (l_walk L fs d (not_skipped WF_SKIP_DIRS)) = mset (walk' fs d (not_skipped WF_SKIP_DIRS))"
    and "\<forall>m. l_globset L (filter (l_glob_ok L) gs) = Some m \<longrightarrow>
      inj_on (\<lambda>f. path_key (fst f)) (set (List.map_filter (glob_file L fs d m) (l_walk L fs d (not_skipped WF_SKIP_DIRS))))"
  shows "resolve_globs (L\<lparr>l_walk := walk'\<rparr>) fs d gs = resolve_globs L fs d gs"
proof -
  have mf: "mset (List.map_filter g xs) = mset (List.map_filter g ys)" if "mset xs = mset ys" for g and xs ys :: "walk_entry list"
    using that unfolding List.map_filter_def by (simp add: mset_filter)
  show ?thesis
    unfolding resolve_globs_def Libs.select_convs Libs.simps
    using assms sort_key_perm[OF mf[OF assms(1)[symmetric]]] mf[OF assms(1)]
    by (auto split: option.splits intro!: arg_cong[where f = "dedup_key _"] sort_key_perm[symmetric])
qed

section \<open>Properties\<close>

text \<open>C12. Two weak fingerprints are digests of the same message exactly when the command, the tool's path and
  the digest of its binary, the package path, the matched input files with their digests, and the sorted
  environment and dependency interfaces are the same, provided no part contains a line break and no
  variable or package name an equals sign.\<close>

theorem weak_fingerprint_exact:
  assumes "weak_plain L fs i" and "weak_plain L fs' j"
  shows "weak_message L fs i = weak_message L fs' j \<longleftrightarrow> weak_view L fs i = weak_view L fs' j"
  using weak_message_inj[OF _ assms] weak_message_cong by blast

definition ex_fp_entry :: "string \<Rightarrow> walk_entry" where
  "ex_fp_entry n = \<lparr>we_path = ''/p/'' @ n, we_name = n, we_dir = False, we_file = True\<rparr>"

definition ex_fp_libs :: Libs where
  "ex_fp_libs = \<lparr>l_hash = take 2, l_walk = (\<lambda>_ _ _. [ex_fp_entry ''b'', ex_fp_entry ''a'']),
     l_glob_ok = (\<lambda>_. True), l_globset = (\<lambda>_. Some (\<lambda>_. True))\<rparr>"

definition ex_fp_files :: "string \<Rightarrow> files" where
  "ex_fp_files tool = [''/t'' \<mapsto> Readable tool, ''/p/a'' \<mapsto> Readable ''1'', ''/p/b'' \<mapsto> Readable ''2'']"

definition ex_fp_inputs :: WeakFpInputs where
  "ex_fp_inputs = \<lparr>wi_command = ''tsc'', wi_tool_path = ''/t'', wi_package_path = ''/p'', wi_input_globs = [''*''],
     wi_env = [(''A'', ''1''), (''B'', ''2'')], wi_dep_abi = []\<rparr>"

lemma ex_fp_walk:
  "l_walk ex_fp_libs = (\<lambda>_ _ _. [ex_fp_entry ''b'', ex_fp_entry ''a''])"
  "l_globset ex_fp_libs = (\<lambda>_. Some (\<lambda>_. True))"
  by (simp_all add: ex_fp_libs_def)

lemma ex_fp_resolved: "resolve_globs ex_fp_libs (ex_fp_files t) ''/p'' [''*''] = [(''a'', ''31''), (''b'', ''32'')]"
  by code_simp

theorem weak_fingerprint_exact_witness:
  "weak_message ex_fp_libs (ex_fp_files ''x'') ex_fp_inputs \<noteq> weak_message ex_fp_libs (ex_fp_files ''y'') ex_fp_inputs"
proof -
  have p: "weak_plain ex_fp_libs (ex_fp_files t) ex_fp_inputs" for t
    unfolding weak_plain_def ex_fp_inputs_def by (simp add: ex_fp_resolved one_line_def)
  have "hash_tool_binary ex_fp_libs (ex_fp_files ''x'') ''/t'' \<noteq> hash_tool_binary ex_fp_libs (ex_fp_files ''y'') ''/t''"
    by code_simp
  then show ?thesis
    using weak_fingerprint_exact[OF p p, of "''x''" "''y''"] by (simp add: weak_view_def ex_fp_inputs_def)
qed

text \<open>The fingerprints do not depend on orders that mean nothing: of the directory walk, of the tracked
  environment, of the dependencies' interfaces, and of the recorded reads, which may also repeat.\<close>

theorem fingerprints_order_independent:
  assumes "mset (walk' fs (wi_package_path i) (not_skipped WF_SKIP_DIRS)) =
      mset (l_walk L fs (wi_package_path i) (not_skipped WF_SKIP_DIRS))"
    and "\<forall>m. l_globset L (filter (l_glob_ok L) (wi_input_globs i)) = Some m \<longrightarrow>
      inj_on (\<lambda>f. path_key (fst f)) (set (List.map_filter (glob_file L fs (wi_package_path i) m)
        (l_walk L fs (wi_package_path i) (not_skipped WF_SKIP_DIRS))))"
    and "mset env' = mset (wi_env i)" and "inj_on fst (set (wi_env i))"
    and "mset abi' = mset (wi_dep_abi i)" and "inj_on fst (set (wi_dep_abi i))"
    and "set reads' = set reads" and "inj_on path_key (set reads)"
  shows "compute_weak_fingerprint (L\<lparr>l_walk := walk'\<rparr>) fs (i\<lparr>wi_env := env', wi_dep_abi := abi'\<rparr>) =
      compute_weak_fingerprint L fs i \<and>
    compute_strong_fingerprint L fs w reads' = compute_strong_fingerprint L fs w reads"
proof
  have "resolve_globs (L\<lparr>l_walk := walk'\<rparr>) fs (wi_package_path i) (wi_input_globs i) =
      resolve_globs L fs (wi_package_path i) (wi_input_globs i)"
    by (rule resolve_globs_order) (use assms(1,2) in auto)
  moreover have "sort_key fst env' = sort_key fst (wi_env i)" "sort_key fst abi' = sort_key fst (wi_dep_abi i)"
    using assms(3-6) by (auto intro!: sort_key_perm[symmetric])
  ultimately show "compute_weak_fingerprint (L\<lparr>l_walk := walk'\<rparr>) fs (i\<lparr>wi_env := env', wi_dep_abi := abi'\<rparr>) =
      compute_weak_fingerprint L fs i"
    by (simp add: compute_weak_fingerprint_def weak_message_def weak_lines_def)
  show "compute_strong_fingerprint L fs w reads' = compute_strong_fingerprint L fs w reads"
    using sf_paths_order[OF assms(7)[symmetric] assms(8)]
    by (simp add: compute_strong_fingerprint_def strong_message_def)
qed

theorem fingerprints_order_independent_witness:
  "compute_weak_fingerprint (ex_fp_libs\<lparr>l_walk := \<lambda>_ _ _. [ex_fp_entry ''a'', ex_fp_entry ''b'']\<rparr>) (ex_fp_files ''x'')
     (ex_fp_inputs\<lparr>wi_env := [(''B'', ''2''), (''A'', ''1'')], wi_dep_abi := []\<rparr>) =
   compute_weak_fingerprint ex_fp_libs (ex_fp_files ''x'') ex_fp_inputs"
proof -
  have k: "List.map_filter (glob_file ex_fp_libs (ex_fp_files ''x'') ''/p'' (\<lambda>_. True)) [ex_fp_entry ''b'', ex_fp_entry ''a''] =
      [(''b'', ''32''), (''a'', ''31'')]" by code_simp
  have d: "path_key ''a'' \<noteq> path_key ''b''" by code_simp
  show ?thesis
    by (rule fingerprints_order_independent[where reads = "[]" and reads' = "[]", THEN conjunct1])
      (use d k in \<open>auto simp: ex_fp_walk ex_fp_inputs_def\<close>)
qed

end
