(* ===== verification/Cache_Store.thy ===== *)
theory Cache_Store
  imports Fingerprints
begin

text \<open>
  What the cache keeps on disk (src/crates/cache): entries (entry.rs), the single-phase provider interface
  and its local, S3 and Azure implementations (provider.rs, local.rs, s3.rs, azure.rs), the pathsets seen
  under a weak fingerprint (pathset_store.rs), captured outputs (output_store.rs) and the snapshots behind
  \<^verbatim>\<open>rage why-miss\<close> (why_miss.rs).  JSON codecs are parameters; the law that decoding inverts encoding is
  \<^verbatim>\<open>codec_ok\<close>.  An object store is a map from keys to bytes, and whether a request reaches it is a parameter.
\<close>

section \<open>Entries and the provider interface\<close>

record CacheEntry =
  ce_fingerprint :: string
  ce_command :: string
  ce_exit_code :: int
  ce_elapsed_ms :: "64 word"
  ce_cached_at :: "64 word"
  ce_pathset_reads :: "string list"
  ce_abi :: "string option"

text \<open>The contract of \<^verbatim>\<open>CacheProvider\<close>, for the keys the callers use (digests): what has been put under a
  key is what get finds there, a get finds again what it has found, and operations on other keys, failed
  ones too, do not disturb it.\<close>

locale cache_provider =
  fixes ok :: "'s \<Rightarrow> bool"
    and key_ok :: "string \<Rightarrow> bool"
    and get :: "'s \<Rightarrow> string \<Rightarrow> CacheEntry option \<times> 's"
    and put :: "'s \<Rightarrow> string \<Rightarrow> CacheEntry \<Rightarrow> bool \<times> 's"
  assumes get_ok: "ok s \<Longrightarrow> ok (snd (get s k))"
    and put_ok: "ok s \<Longrightarrow> ok (snd (put s k e))"
    and get_put: "ok s \<Longrightarrow> fst (put s k e) \<Longrightarrow> fst (get (snd (put s k e)) k) = Some e"
    and get_put_other: "ok s \<Longrightarrow> key_ok k \<Longrightarrow> key_ok k' \<Longrightarrow> k' \<noteq> k \<Longrightarrow> fst (get s k') = Some e' \<Longrightarrow>
      fst (get (snd (put s k e)) k') = Some e'"
    and get_get: "ok s \<Longrightarrow> key_ok k \<Longrightarrow> key_ok k' \<Longrightarrow> fst (get s k) = Some e \<Longrightarrow>
      fst (get (snd (get s k')) k) = Some e"

section \<open>The local provider\<close>

definition expand_tilde :: "string option \<Rightarrow> string \<Rightarrow> string option" where
  "expand_tilde home p =
     (case strip_pre ''~/'' p of
        Some rest \<Rightarrow> map_option (\<lambda>h. path_join h rest) home
      | None \<Rightarrow> if p = ''~'' then home else Some p)"

definition local_new :: "string option \<Rightarrow> string option \<Rightarrow> string option" where
  "local_new rage_cache_dir home =
     (case rage_cache_dir of Some d \<Rightarrow> expand_tilde home d
      | None \<Rightarrow> Option.bind home (\<lambda>h. expand_tilde home (path_join (path_join h ''.rage'') ''cache'')))"

definition entry_file :: "string \<Rightarrow> string \<Rightarrow> string" where
  "entry_file dir key = path_join dir (key @ ''.json'')"

definition local_get :: "CacheEntry codec \<Rightarrow> string \<Rightarrow> files \<Rightarrow> string \<Rightarrow> CacheEntry option" where
  "local_get c dir fs key = Option.bind (read_file fs (entry_file dir key)) (dec c)"

definition local_put :: "CacheEntry codec \<Rightarrow> (string \<Rightarrow> bool) \<Rightarrow> string \<Rightarrow> files \<Rightarrow> string \<Rightarrow> CacheEntry \<Rightarrow> files option" where
  "local_put c writable dir fs key e =
     Option.bind (enc c e) (\<lambda>json. write_file writable fs (entry_file dir key) json)"

text \<open>Keys are hexadecimal digests, so they are never absolute paths.\<close>

lemma entry_file_inj: "slash \<notin> set k \<Longrightarrow> slash \<notin> set k' \<Longrightarrow> entry_file d k = entry_file d k' \<longleftrightarrow> k = k'"
proof -
  have "\<not> is_absolute (x @ ''.json'')" if "slash \<notin> set x" for x
    by (rule not_absolute) (use that in simp)
  then show "slash \<notin> set k \<Longrightarrow> slash \<notin> set k' \<Longrightarrow> entry_file d k = entry_file d k' \<longleftrightarrow> k = k'"
    by (simp add: entry_file_def path_join_inj)
qed

lemma local_get_put:
  "codec_ok c \<Longrightarrow> local_put c w d fs k e = Some fs' \<Longrightarrow> local_get c d fs' k = Some e"
  by (auto simp: local_put_def local_get_def write_file_Some bind_eq_Some_conv dest: codec_okD)

lemma local_get_put_other:
  "local_put c w d fs k e = Some fs' \<Longrightarrow> entry_file d k' \<noteq> entry_file d k \<Longrightarrow> local_get c d fs' k' = local_get c d fs k'"
  by (auto simp: local_put_def local_get_def write_file_Some bind_eq_Some_conv)

text \<open>The provider state.  Reading changes nothing; a failed write leaves the files as they were.\<close>

record LocalCache =
  lc_codec :: "CacheEntry codec"
  lc_writable :: "string \<Rightarrow> bool"
  lc_dir :: string
  lc_files :: files

definition lc_ok :: "LocalCache \<Rightarrow> bool" where
  "lc_ok s = codec_ok (lc_codec s)"

definition digest_key :: "string \<Rightarrow> bool" where
  "digest_key k = (slash \<notin> set k)"

definition lc_find :: "LocalCache \<Rightarrow> string \<Rightarrow> CacheEntry option" where
  "lc_find s k = local_get (lc_codec s) (lc_dir s) (lc_files s) k"

definition lc_get :: "LocalCache \<Rightarrow> string \<Rightarrow> CacheEntry option \<times> LocalCache" where
  "lc_get s k = (lc_find s k, s)"

definition lc_put :: "LocalCache \<Rightarrow> string \<Rightarrow> CacheEntry \<Rightarrow> bool \<times> LocalCache" where
  "lc_put s k e = (case local_put (lc_codec s) (lc_writable s) (lc_dir s) (lc_files s) k e of
      None \<Rightarrow> (False, s) | Some fs \<Rightarrow> (True, s\<lparr>lc_files := fs\<rparr>))"

lemma lc_put_ok [simp]: "lc_ok (snd (lc_put s k e)) = lc_ok s"
  by (auto simp: lc_put_def lc_ok_def split: option.splits)

lemma lc_find_put: "lc_ok s \<Longrightarrow> fst (lc_put s k e) \<Longrightarrow> lc_find (snd (lc_put s k e)) k = Some e"
  by (auto simp: lc_put_def lc_find_def lc_ok_def local_get_put split: option.splits)

lemma lc_find_put_other:
  "digest_key k \<Longrightarrow> digest_key k' \<Longrightarrow> k' \<noteq> k \<Longrightarrow> lc_find (snd (lc_put s k e)) k' = lc_find s k'"
  by (auto simp: lc_put_def lc_find_def digest_key_def entry_file_inj local_get_put_other split: option.splits)

interpretation local_cache: cache_provider lc_ok digest_key lc_get lc_put
  by unfold_locales (auto simp: lc_get_def lc_find_put lc_find_put_other)

section \<open>The remote providers\<close>

text \<open>S3 and Azure have the same two operations over different clients: read through the local cache, write
  to it and leave an upload to be done later.  \<^verbatim>\<open>rc_online\<close> says whether the request for an object gets
  through (a runtime is active and the network answers), \<^verbatim>\<open>rc_runtime\<close> whether an upload can be left behind.\<close>

record RemoteCache =
  rc_local :: LocalCache
  rc_codec :: "CacheEntry codec"
  rc_prefix :: string
  rc_objects :: "string \<Rightarrow> string option"
  rc_online :: "string \<Rightarrow> bool"
  rc_runtime :: bool
  rc_pending :: "(string \<times> string) list"

definition object_key :: "RemoteCache \<Rightarrow> string \<Rightarrow> string" where
  "object_key s k = rc_prefix s @ k @ ''.json''"

definition get_remote_sync :: "RemoteCache \<Rightarrow> string \<Rightarrow> CacheEntry option" where
  "get_remote_sync s k =
     (if rc_online s (object_key s k) then Option.bind (rc_objects s (object_key s k)) (dec (rc_codec s)) else None)"

definition rc_get :: "RemoteCache \<Rightarrow> string \<Rightarrow> CacheEntry option \<times> RemoteCache" where
  "rc_get s k = (case lc_get (rc_local s) k of
      (Some e, l) \<Rightarrow> (Some e, s\<lparr>rc_local := l\<rparr>)
    | (None, l) \<Rightarrow> (case get_remote_sync s k of
          None \<Rightarrow> (None, s\<lparr>rc_local := l\<rparr>)
        | Some e \<Rightarrow> (Some e, s\<lparr>rc_local := snd (lc_put l k e)\<rparr>)))"

definition rc_put :: "RemoteCache \<Rightarrow> string \<Rightarrow> CacheEntry \<Rightarrow> bool \<times> RemoteCache" where
  "rc_put s k e = (case lc_put (rc_local s) k e of
      (False, l) \<Rightarrow> (False, s\<lparr>rc_local := l\<rparr>)
    | (True, l) \<Rightarrow> (case enc (rc_codec s) e of
          None \<Rightarrow> (False, s\<lparr>rc_local := l\<rparr>)
        | Some json \<Rightarrow> (True, s\<lparr>rc_local := l,
            rc_pending := rc_pending s @ (if rc_runtime s then [(object_key s k, json)] else [])\<rparr>)))"

text \<open>A pending upload is done, or is lost when the network fails.\<close>

fun rc_upload :: "RemoteCache \<Rightarrow> RemoteCache" where
  "rc_upload s = (case rc_pending s of [] \<Rightarrow> s
     | (o_key, json) # rest \<Rightarrow>
         s\<lparr>rc_pending := rest,
           rc_objects := (if rc_online s o_key then (rc_objects s)(o_key \<mapsto> json) else rc_objects s)\<rparr>)"

definition rc_ok :: "RemoteCache \<Rightarrow> bool" where
  "rc_ok s = lc_ok (rc_local s)"

definition rc_find :: "RemoteCache \<Rightarrow> string \<Rightarrow> CacheEntry option" where
  "rc_find s k = (case lc_find (rc_local s) k of None \<Rightarrow> get_remote_sync s k | Some e \<Rightarrow> Some e)"

lemma rc_get_find: "fst (rc_get s k) = rc_find s k"
  by (auto simp: rc_get_def rc_find_def lc_get_def split: option.splits)

lemma rc_get_local: "rc_local (snd (rc_get s k)) =
    (case lc_find (rc_local s) k of Some _ \<Rightarrow> rc_local s
     | None \<Rightarrow> (case get_remote_sync s k of None \<Rightarrow> rc_local s | Some e \<Rightarrow> snd (lc_put (rc_local s) k e)))"
  by (auto simp: rc_get_def lc_get_def split: option.splits)

lemma get_remote_sync_same [simp]:
  "get_remote_sync (s\<lparr>rc_local := l\<rparr>) k = get_remote_sync s k"
  "get_remote_sync (s\<lparr>rc_local := l, rc_pending := p\<rparr>) k = get_remote_sync s k"
  "get_remote_sync (snd (rc_get s k')) k = get_remote_sync s k"
  "get_remote_sync (snd (rc_put s k' e)) k = get_remote_sync s k"
  by (auto simp: get_remote_sync_def object_key_def rc_get_def rc_put_def split: option.splits prod.splits bool.splits)

lemma rc_put_local: "rc_local (snd (rc_put s k e)) = snd (lc_put (rc_local s) k e)"
  by (auto simp: rc_put_def split: prod.splits bool.splits option.splits)

lemma rc_put_fst: "fst (rc_put s k e) \<Longrightarrow> fst (lc_put (rc_local s) k e)"
  by (auto simp: rc_put_def split: prod.splits bool.splits option.splits)

lemma rc_get_find_again:
  assumes "rc_ok s" "rc_find s k = Some e" "digest_key k" "digest_key k'"
  shows "rc_find (snd (rc_get s k')) k = Some e"
proof (cases "k' = k")
  case True
  then show ?thesis
    using assms lc_find_put[of "rc_local s" k e]
    by (cases "fst (lc_put (rc_local s) k e)")
      (auto simp: rc_find_def rc_get_local rc_ok_def lc_put_def split: option.splits)
next
  case False
  then show ?thesis
    using assms lc_find_put_other[of k' k "rc_local s"]
    by (auto simp: rc_find_def rc_get_local split: option.splits)
qed

interpretation remote_cache: cache_provider rc_ok digest_key rc_get rc_put
proof unfold_locales
  fix s k e assume "rc_ok s"
  then show "rc_ok (snd (rc_get s k))" by (auto simp: rc_ok_def rc_get_local split: option.splits)
  from \<open>rc_ok s\<close> show "rc_ok (snd (rc_put s k e))" by (simp add: rc_ok_def rc_put_local)
  assume "fst (rc_put s k e)"
  with \<open>rc_ok s\<close> show "fst (rc_get (snd (rc_put s k e)) k) = Some e"
    by (simp add: rc_get_find rc_find_def rc_put_local rc_put_fst lc_find_put rc_ok_def)
next
  fix s k k' e' e
  assume "rc_ok s" "digest_key k" "digest_key k'" "k' \<noteq> k" "fst (rc_get s k') = Some e'"
  then show "fst (rc_get (snd (rc_put s k e)) k') = Some e'"
    by (auto simp: rc_get_find rc_find_def rc_put_local lc_find_put_other split: option.splits)
next
  fix s k k' e
  assume "rc_ok s" "digest_key k" "digest_key k'" "fst (rc_get s k) = Some e"
  then show "fst (rc_get (snd (rc_get s k')) k) = Some e"
    using rc_get_find_again by (simp add: rc_get_find)
qed

end
