(* ===== verification/Two_Phase.thy ===== *)
theory Two_Phase
  imports Cache_Store
begin

text \<open>
  The two-phase cache (src/crates/cache: two_phase.rs, pathset_store.rs, output_store.rs, why_miss.rs): under
  a weak fingerprint the sets of files that runs were seen to read, under a strong fingerprint the entry
  of a run.  The theorems relate a lookup to the run that stored what it finds, across any changes
  made to other files in between.
\<close>

section \<open>State\<close>

record StoredPathset =
  ps_reads :: "string list"
  ps_writes :: "string list"

record TaskOutput =
  to_stdout :: string
  to_stderr :: string
  to_exit_code :: int

record Cache =
  c_dir :: string
  c_pathsets :: "StoredPathset list codec"
  c_entries :: "CacheEntry codec"
  c_outputs :: "TaskOutput codec"
  c_writable :: "string \<Rightarrow> bool"

definition cache_codecs_ok :: "Cache \<Rightarrow> bool" where
  "cache_codecs_ok C \<longleftrightarrow> codec_ok (c_pathsets C) \<and> codec_ok (c_entries C) \<and> codec_ok (c_outputs C)"

section \<open>Pathsets\<close>

definition pathsets_path :: "Cache \<Rightarrow> string \<Rightarrow> string" where
  "pathsets_path C w = path_join (c_dir C) (''wf-'' @ w @ ''.pathsets'')"

definition pathsets_list :: "Cache \<Rightarrow> files \<Rightarrow> string \<Rightarrow> StoredPathset list" where
  "pathsets_list C fs w = (case read_file fs (pathsets_path C w) of None \<Rightarrow> []
     | Some raw \<Rightarrow> (case dec (c_pathsets C) raw of None \<Rightarrow> [] | Some pss \<Rightarrow> pss))"

text \<open>Equality of pathsets compares paths component by component.\<close>

definition same_pathset :: "StoredPathset \<Rightarrow> StoredPathset \<Rightarrow> bool" where
  "same_pathset a b \<longleftrightarrow> map path_key (ps_reads a) = map path_key (ps_reads b) \<and>
     map path_key (ps_writes a) = map path_key (ps_writes b)"

definition pathsets_append :: "Cache \<Rightarrow> files \<Rightarrow> string \<Rightarrow> StoredPathset \<Rightarrow> files option" where
  "pathsets_append C fs w ps =
     (let existing = pathsets_list C fs w in
      if list_ex (\<lambda>e. same_pathset e ps) existing then Some fs
      else Option.bind (enc (c_pathsets C) (existing @ [ps]))
             (\<lambda>json. write_file (c_writable C) fs (pathsets_path C w) json))"

section \<open>Entries, lookup and record\<close>

definition entry_path :: "Cache \<Rightarrow> string \<Rightarrow> string" where
  "entry_path C sf = path_join (c_dir C) (''sf-'' @ sf @ ''.entry'')"

definition read_entry :: "Cache \<Rightarrow> files \<Rightarrow> string \<Rightarrow> CacheEntry option" where
  "read_entry C fs sf = Option.bind (read_file fs (entry_path C sf)) (dec (c_entries C))"

definition write_entry :: "Cache \<Rightarrow> files \<Rightarrow> string \<Rightarrow> CacheEntry \<Rightarrow> files option" where
  "write_entry C fs sf e = Option.bind (enc (c_entries C) e)
     (\<lambda>json. write_file (c_writable C) fs (entry_path C sf) json)"

fun first_hit :: "Libs \<Rightarrow> Cache \<Rightarrow> files \<Rightarrow> string \<Rightarrow> StoredPathset list \<Rightarrow> (string \<times> CacheEntry \<times> string list) option" where
  "first_hit L C fs w [] = None"
| "first_hit L C fs w (ps # pss) =
    (let sf = compute_strong_fingerprint L fs w (ps_reads ps) in
     case read_entry C fs sf of
       Some e \<Rightarrow> Some (sf, e, ps_reads ps)
     | None \<Rightarrow> first_hit L C fs w pss)"

definition lookup_with_pathset_reads :: "Libs \<Rightarrow> Cache \<Rightarrow> files \<Rightarrow> WeakFpInputs \<Rightarrow> (string \<times> CacheEntry \<times> string list) option" where
  "lookup_with_pathset_reads L C fs i =
     (let w = compute_weak_fingerprint L fs i in first_hit L C fs w (pathsets_list C fs w))"

definition lookup_entry :: "Libs \<Rightarrow> Cache \<Rightarrow> files \<Rightarrow> WeakFpInputs \<Rightarrow> (string \<times> CacheEntry) option" where
  "lookup_entry L C fs i = map_option (\<lambda>(sf, e, _). (sf, e)) (lookup_with_pathset_reads L C fs i)"

text \<open>None is an error; the files written before it stay.\<close>

definition record_run :: "Libs \<Rightarrow> Cache \<Rightarrow> files \<Rightarrow> WeakFpInputs \<Rightarrow> StoredPathset \<Rightarrow> CacheEntry \<Rightarrow> string option \<times> files" where
  "record_run L C fs i ps template =
     (let w = compute_weak_fingerprint L fs i in
      case pathsets_append C fs w ps of
        None \<Rightarrow> (None, fs)
      | Some fs1 \<Rightarrow>
          (let sf = compute_strong_fingerprint L fs1 w (ps_reads ps);
               e = template\<lparr>ce_fingerprint := sf, ce_pathset_reads := ps_reads ps\<rparr> in
           case write_entry C fs1 sf e of None \<Rightarrow> (None, fs1) | Some fs2 \<Rightarrow> (Some sf, fs2)))"

section \<open>Interface fingerprints and outputs\<close>

definition pkg_name_to_filename :: "string \<Rightarrow> string" where
  "pkg_name_to_filename n = replace_char slash ''__'' (replace_char (CHR ''@'') ''_at_'' n)"

definition abi_path :: "Cache \<Rightarrow> string \<Rightarrow> string" where
  "abi_path C n = path_join (path_join (c_dir C) ''pkg-abi'') (pkg_name_to_filename n)"

definition get_pkg_abi_fp :: "Cache \<Rightarrow> files \<Rightarrow> string \<Rightarrow> string option" where
  "get_pkg_abi_fp C fs n = (case read_file fs (abi_path C n) of None \<Rightarrow> None
     | Some raw \<Rightarrow> if trim raw = [] then None else Some (trim raw))"

definition set_pkg_abi_fp :: "Cache \<Rightarrow> files \<Rightarrow> string \<Rightarrow> string \<Rightarrow> files" where
  "set_pkg_abi_fp C fs n fp = write_ignored (c_writable C) fs (abi_path C n) fp"

definition output_path :: "Cache \<Rightarrow> string \<Rightarrow> string" where
  "output_path C sf = path_join (c_dir C) (''sf-'' @ sf @ ''.output.json'')"

definition write_output :: "Cache \<Rightarrow> files \<Rightarrow> string \<Rightarrow> TaskOutput \<Rightarrow> files" where
  "write_output C fs sf out = (case enc (c_outputs C) out of None \<Rightarrow> fs
     | Some json \<Rightarrow> write_ignored (c_writable C) fs (output_path C sf) json)"

definition read_output :: "Cache \<Rightarrow> files \<Rightarrow> string \<Rightarrow> TaskOutput option" where
  "read_output C fs sf = Option.bind (read_file fs (output_path C sf)) (dec (c_outputs C))"

section \<open>Cache files are told apart by their names\<close>

lemma rel_names [simp]:
  "\<not> is_absolute (''wf-'' @ w)" "\<not> is_absolute (''sf-'' @ w)"
  by (simp_all add: is_absolute_def)

lemma cache_paths [simp]:
  "pathsets_path C w = pathsets_path C w' \<longleftrightarrow> w = w'"
  "entry_path C s = entry_path C s' \<longleftrightarrow> s = s'"
  "output_path C s = output_path C s' \<longleftrightarrow> s = s'"
  "pathsets_path C w \<noteq> entry_path C s" "entry_path C s \<noteq> pathsets_path C w"
  "pathsets_path C w \<noteq> output_path C s" "output_path C s \<noteq> pathsets_path C w"
  by (simp_all add: pathsets_path_def entry_path_def output_path_def path_join_inj is_absolute_def)

lemma entry_output_path [simp]: "entry_path C s \<noteq> output_path C s'" "output_path C s' \<noteq> entry_path C s"
proof -
  have "s @ ''.entry'' \<noteq> s' @ ''.output.json''"
  proof
    assume "s @ ''.entry'' = s' @ ''.output.json''"
    then have "last (s @ ''.entry'') = last (s' @ ''.output.json'')" by (rule arg_cong)
    then show False by simp
  qed
  then show "entry_path C s \<noteq> output_path C s'" "output_path C s' \<noteq> entry_path C s"
    by (auto simp: entry_path_def output_path_def path_join_inj is_absolute_def)
qed

section \<open>Single operations\<close>

lemma pathsets_append_Some:
  assumes "pathsets_append C fs w ps = Some fs'" "codec_ok (c_pathsets C)"
  shows "(fs' = fs \<and> (\<exists>e\<in>set (pathsets_list C fs w). same_pathset e ps)) \<or>
    (pathsets_list C fs' w = pathsets_list C fs w @ [ps] \<and> (\<exists>j. fs' = fs(pathsets_path C w \<mapsto> Readable j)))"
  using assms by (auto simp: pathsets_append_def Let_def bind_eq_Some_conv write_file_Some pathsets_list_def
      list_ex_iff dest: codec_okD split: if_splits)

lemma pathsets_append_files:
  assumes "pathsets_append C fs w ps = Some fs'" "p \<noteq> pathsets_path C w"
  shows "fs' p = fs p"
  using assms by (auto simp: pathsets_append_def Let_def bind_eq_Some_conv write_file_Some split: if_splits)

lemma read_entry_cong: "fs' (entry_path C sf) = fs (entry_path C sf) \<Longrightarrow> read_entry C fs' sf = read_entry C fs sf"
  by (simp add: read_entry_def read_file_def)

lemma write_entry_Some:
  "write_entry C fs sf e = Some fs' \<Longrightarrow>
    (\<exists>j. enc (c_entries C) e = Some j \<and> fs' = fs(entry_path C sf \<mapsto> Readable j))"
  by (auto simp: write_entry_def bind_eq_Some_conv write_file_Some)

lemma read_write_entry:
  assumes "write_entry C fs sf e = Some fs'" "codec_ok (c_entries C)"
  shows "read_entry C fs' sf' = (if sf' = sf then Some e else read_entry C fs sf')"
  using write_entry_Some[OF assms(1)] assms(2) by (auto simp: read_entry_def dest: codec_okD)

lemma first_hit_Some:
  "first_hit L C fs w pss = Some (sf, e, rs) \<Longrightarrow>
    \<exists>ps\<in>set pss. rs = ps_reads ps \<and> sf = compute_strong_fingerprint L fs w rs \<and> read_entry C fs sf = Some e"
  by (induction pss) (auto simp: Let_def split: option.splits)

lemma first_hit_exists:
  "ps \<in> set pss \<Longrightarrow> read_entry C fs (compute_strong_fingerprint L fs w (ps_reads ps)) = Some e \<Longrightarrow>
    first_hit L C fs w pss \<noteq> None"
  by (induction pss) (auto simp: Let_def split: option.splits)

lemma read_write_output:
  "codec_ok (c_outputs C) \<Longrightarrow> enc (c_outputs C) out \<noteq> None \<Longrightarrow> c_writable C (output_path C sf) \<Longrightarrow>
    read_output C (write_output C fs sf out) sf = Some out"
  by (auto simp: read_output_def write_output_def write_ignored_def write_file_def dest: codec_okD)

lemma record_run_Some:
  assumes "record_run L C fs i ps tmpl = (Some sf, fs')"
  obtains fs1 where "pathsets_append C fs (compute_weak_fingerprint L fs i) ps = Some fs1"
    "sf = compute_strong_fingerprint L fs1 (compute_weak_fingerprint L fs i) (ps_reads ps)"
    "write_entry C fs1 sf (tmpl\<lparr>ce_fingerprint := sf, ce_pathset_reads := ps_reads ps\<rparr>) = Some fs'"
  using assms by (auto simp: record_run_def Let_def split: option.splits)

section \<open>What lookups find\<close>

text \<open>A file of the cache that lookups read.\<close>

definition cache_path :: "Cache \<Rightarrow> string \<Rightarrow> bool" where
  "cache_path C p \<longleftrightarrow> (\<exists>w. p = pathsets_path C w) \<or> (\<exists>s. p = entry_path C s)"

text \<open>One recorded run: the files when it was recorded, those after its pathset was stored, what it was
  recorded with.\<close>

record Recorded =
  r_files :: files
  r_files1 :: files
  r_inputs :: WeakFpInputs
  r_pathset :: StoredPathset
  r_entry :: CacheEntry

definition recorded_wf :: "Libs \<Rightarrow> Recorded \<Rightarrow> string" where
  "recorded_wf L r = compute_weak_fingerprint L (r_files r) (r_inputs r)"

definition recorded_sf :: "Libs \<Rightarrow> Recorded \<Rightarrow> string" where
  "recorded_sf L r = compute_strong_fingerprint L (r_files1 r) (recorded_wf L r) (ps_reads (r_pathset r))"

definition stored_entry :: "Libs \<Rightarrow> Recorded \<Rightarrow> CacheEntry" where
  "stored_entry L r = (r_entry r)\<lparr>ce_fingerprint := recorded_sf L r, ce_pathset_reads := ps_reads (r_pathset r)\<rparr>"

text \<open>The files a cache goes through: it starts without entries, runs are recorded, and anything else in
  the file system may change at any time, the cache's own files excepted.\<close>

inductive cache_history :: "Libs \<Rightarrow> Cache \<Rightarrow> files \<Rightarrow> Recorded list \<Rightarrow> bool" for L C where
  history_start: "\<forall>p. cache_path C p \<longrightarrow> fs p = None \<Longrightarrow> cache_history L C fs []"
| history_record: "cache_history L C fs rs \<Longrightarrow> record_run L C fs i ps e = (sf, fs') \<Longrightarrow>
    pathsets_append C fs (compute_weak_fingerprint L fs i) ps = Some fs1 \<Longrightarrow>
    cache_history L C fs' (rs @ [\<lparr>r_files = fs, r_files1 = fs1, r_inputs = i, r_pathset = ps, r_entry = e\<rparr>])"
| history_change: "cache_history L C fs rs \<Longrightarrow> \<forall>p. cache_path C p \<longrightarrow> fs' p = fs p \<Longrightarrow> cache_history L C fs' rs"

lemma history_entries:
  assumes "cache_history L C fs rs" "cache_codecs_ok C" "read_entry C fs sf = Some e"
  shows "\<exists>r\<in>set rs. sf = recorded_sf L r \<and> e = stored_entry L r"
  using assms
proof (induction arbitrary: sf e rule: cache_history.induct)
  case (history_start fs)
  then have "fs (entry_path C sf) = None" by (auto simp: cache_path_def)
  then show ?case using history_start.prems by (simp add: read_entry_def read_file_def)
next
  case (history_record fs rs i ps e0 sf0 fs' fs1)
  let ?r = "\<lparr>r_files = fs, r_files1 = fs1, r_inputs = i, r_pathset = ps, r_entry = e0\<rparr>"
  have kept: "read_entry C fs1 s = read_entry C fs s" for s
    by (rule read_entry_cong) (rule pathsets_append_files[OF history_record.hyps(3)], simp)
  have sf: "recorded_sf L ?r = compute_strong_fingerprint L fs1 (compute_weak_fingerprint L fs i) (ps_reads ps)"
    by (simp add: recorded_sf_def recorded_wf_def)
  show ?case
  proof (cases "write_entry C fs1 (recorded_sf L ?r) (stored_entry L ?r)")
    case None
    then have "fs' = fs1"
      using history_record.hyps(2,3) by (auto simp: record_run_def Let_def sf stored_entry_def)
    then show ?thesis using history_record.IH history_record.prems kept by auto
  next
    case (Some fs2)
    then have "fs' = fs2"
      using history_record.hyps(2,3) by (auto simp: record_run_def Let_def sf stored_entry_def)
    then show ?thesis
      using read_write_entry[OF Some] history_record.IH history_record.prems kept
      by (auto simp: cache_codecs_ok_def split: if_splits)
  qed
next
  case (history_change fs rs fs')
  then have "read_entry C fs' sf = read_entry C fs sf"
    by (intro read_entry_cong) (auto simp: cache_path_def)
  then show ?case using history_change by auto
qed

section \<open>Examples\<close>

definition ex_one_codec :: "'a \<Rightarrow> 'a codec" where
  "ex_one_codec v = \<lparr>enc = (\<lambda>x. if x = v then Some ''1'' else None), dec = (\<lambda>s. if s = ''1'' then Some v else None)\<rparr>"

lemma ex_one_codec_ok: "codec_ok (ex_one_codec v)"
  by (simp add: codec_ok_def ex_one_codec_def)

definition ex_tp_libs :: Libs where
  "ex_tp_libs = \<lparr>l_hash = (\<lambda>m. replicate 32 (if hd m = CHR ''c'' then CHR ''a'' else CHR ''b'')), l_walk = (\<lambda>_ _ _. []),
     l_glob_ok = (\<lambda>_. True), l_globset = (\<lambda>_. None)\<rparr>"

definition ex_tp_inputs :: WeakFpInputs where
  "ex_tp_inputs = \<lparr>wi_command = ''tsc'', wi_tool_path = ''/t'', wi_package_path = ''/p'', wi_input_globs = [],
     wi_env = [], wi_dep_abi = []\<rparr>"

definition ex_tp_ps :: StoredPathset where
  "ex_tp_ps = \<lparr>ps_reads = [], ps_writes = []\<rparr>"

definition ex_tp_sf :: string where
  "ex_tp_sf = concat (replicate 32 ''62'')"

definition ex_tp_entry :: "string \<Rightarrow> CacheEntry" where
  "ex_tp_entry sf = \<lparr>ce_fingerprint = sf, ce_command = ''tsc'', ce_exit_code = 0, ce_elapsed_ms = 5, ce_cached_at = 7,
     ce_pathset_reads = [], ce_abi = None\<rparr>"

definition ex_tp_cache :: Cache where
  "ex_tp_cache = \<lparr>c_dir = ''/c'', c_pathsets = ex_one_codec [ex_tp_ps], c_entries = ex_one_codec (ex_tp_entry ex_tp_sf),
     c_outputs = ex_one_codec \<lparr>to_stdout = [], to_stderr = [], to_exit_code = 0\<rparr>, c_writable = (\<lambda>_. True)\<rparr>"

definition ex_tp_files :: files where
  "ex_tp_files = [''/t'' \<mapsto> Readable ''x'']"

definition ex_tp_files1 :: files where
  "ex_tp_files1 = the (pathsets_append ex_tp_cache ex_tp_files (compute_weak_fingerprint ex_tp_libs ex_tp_files ex_tp_inputs) ex_tp_ps)"

definition ex_tp_files2 :: files where
  "ex_tp_files2 = snd (record_run ex_tp_libs ex_tp_cache ex_tp_files ex_tp_inputs ex_tp_ps (ex_tp_entry []))"

definition ex_tp_log :: "Recorded list" where
  "ex_tp_log = [\<lparr>r_files = ex_tp_files, r_files1 = ex_tp_files1, r_inputs = ex_tp_inputs, r_pathset = ex_tp_ps,
     r_entry = ex_tp_entry []\<rparr>]"

lemma ex_tp_codecs: "cache_codecs_ok ex_tp_cache"
  by (simp add: cache_codecs_ok_def ex_tp_cache_def ex_one_codec_ok)

lemma ex_tp_appended:
  "pathsets_append ex_tp_cache ex_tp_files (compute_weak_fingerprint ex_tp_libs ex_tp_files ex_tp_inputs) ex_tp_ps = Some ex_tp_files1"
proof -
  have "Option.is_none (pathsets_append ex_tp_cache ex_tp_files
      (compute_weak_fingerprint ex_tp_libs ex_tp_files ex_tp_inputs) ex_tp_ps) = False"
    by code_simp
  then show ?thesis by (auto simp: ex_tp_files1_def Option.is_none_def)
qed

lemma ex_tp_recorded:
  "record_run ex_tp_libs ex_tp_cache ex_tp_files ex_tp_inputs ex_tp_ps (ex_tp_entry []) = (Some ex_tp_sf, ex_tp_files2)"
proof -
  have "fst (record_run ex_tp_libs ex_tp_cache ex_tp_files ex_tp_inputs ex_tp_ps (ex_tp_entry [])) = Some ex_tp_sf"
    by code_simp
  then show ?thesis by (simp add: ex_tp_files2_def prod_eq_iff)
qed

lemma ex_tp_history: "cache_history ex_tp_libs ex_tp_cache ex_tp_files2 ex_tp_log"
proof -
  have "\<not> cache_path ex_tp_cache ''/t''"
    by (simp add: cache_path_def pathsets_path_def entry_path_def path_join_def ex_tp_cache_def)
  then have "cache_history ex_tp_libs ex_tp_cache ex_tp_files []"
    by (intro history_start) (auto simp: ex_tp_files_def)
  from history_record[OF this ex_tp_recorded ex_tp_appended] show ?thesis
    by (simp add: ex_tp_log_def)
qed

lemma ex_tp_lookup:
  "lookup_with_pathset_reads ex_tp_libs ex_tp_cache ex_tp_files2 ex_tp_inputs = Some (ex_tp_sf, ex_tp_entry ex_tp_sf, [])"
  by code_simp

section \<open>Properties\<close>

text \<open>The messages whose digests a lookup relies on to be different when the messages are.\<close>

definition hashed_messages :: "Libs \<Rightarrow> Cache \<Rightarrow> files \<Rightarrow> WeakFpInputs \<Rightarrow> Recorded list \<Rightarrow> string set" where
  "hashed_messages L C fs i rs =
     {weak_message L fs i} \<union>
     (\<lambda>ps. strong_message L fs (compute_weak_fingerprint L fs i) (ps_reads ps)) `
       set (pathsets_list C fs (compute_weak_fingerprint L fs i)) \<union>
     (\<lambda>r. weak_message L (r_files r) (r_inputs r)) ` set rs \<union>
     (\<lambda>r. strong_message L (r_files1 r) (recorded_wf L r) (ps_reads (r_pathset r))) ` set rs"

lemma lookup_strong:
  assumes "lookup_with_pathset_reads L C fs i = Some (sf, e, reads)"
  shows "sf = compute_strong_fingerprint L fs (compute_weak_fingerprint L fs i) reads \<and> read_entry C fs sf = Some e \<and>
    strong_message L fs (compute_weak_fingerprint L fs i) reads \<in> hashed_messages L C fs i rs"
  using first_hit_Some[of L C fs "compute_weak_fingerprint L fs i"] assms
  by (fastforce simp: lookup_with_pathset_reads_def Let_def hashed_messages_def)

text \<open>C13. A cache hit is never stale with respect to what was recorded: the entry was stored by a run
  recorded when the command, the tool, the declared inputs with their contents, the environment and the
  dependencies' interfaces were those of now, and for which the recorded reads (those outside
  \<^verbatim>\<open>node_modules\<close>) were the same regular files with the same digests as now.  This holds across any history of
  recordings and of changes to other files, provided the messages hashed in it do not collide, no path
  read contains a colon and no declared input a line break.\<close>

theorem cache_hit_sound:
  assumes "cache_history L C fs rs" and "cache_codecs_ok C"
    and "lookup_with_pathset_reads L C fs i = Some (sf, e, reads)"
    and "inj_on (l_hash L) (hashed_messages L C fs i rs)" and "digests_32 L"
    and "weak_plain L fs i" and "no_colon reads"
    and "\<forall>r\<in>set rs. weak_plain L (r_files r) (r_inputs r) \<and> no_colon (ps_reads (r_pathset r))"
  shows "\<exists>r\<in>set rs. e = stored_entry L r \<and>
    weak_view L fs i = weak_view L (r_files r) (r_inputs r) \<and>
    strong_view L fs reads = strong_view L (r_files1 r) (ps_reads (r_pathset r))"
proof -
  let ?w = "compute_weak_fingerprint L fs i"
  have sf: "sf = compute_strong_fingerprint L fs ?w reads" and re: "read_entry C fs sf = Some e"
    and m: "strong_message L fs ?w reads \<in> hashed_messages L C fs i rs"
    using lookup_strong[OF assms(3)] by auto
  obtain r where r: "r \<in> set rs" "sf = recorded_sf L r" "e = stored_entry L r"
    using history_entries[OF assms(1,2) re] by blast
  have m': "strong_message L (r_files1 r) (recorded_wf L r) (ps_reads (r_pathset r)) \<in> hashed_messages L C fs i rs"
    using r(1) by (auto simp: hashed_messages_def)
  have "l_hash L (strong_message L fs ?w reads) =
      l_hash L (strong_message L (r_files1 r) (recorded_wf L r) (ps_reads (r_pathset r)))"
    using sf r(2) by (auto simp: recorded_sf_def compute_strong_fingerprint_def hex_hash_def intro: to_hex_inj)
  then have eq: "strong_message L fs ?w reads =
      strong_message L (r_files1 r) (recorded_wf L r) (ps_reads (r_pathset r))"
    using m m' assms(4) by (blast dest: inj_onD)
  have v: "?w = recorded_wf L r \<and> strong_view L fs reads = strong_view L (r_files1 r) (ps_reads (r_pathset r))"
    by (rule strong_message_inj[OF eq])
      (use assms(5,7,8) r(1) in \<open>auto simp: compute_weak_fingerprint_def recorded_wf_def hex_hash_def\<close>)
  then have "l_hash L (weak_message L fs i) = l_hash L (weak_message L (r_files r) (r_inputs r))"
    by (auto simp: recorded_wf_def compute_weak_fingerprint_def hex_hash_def intro: to_hex_inj)
  moreover have "weak_message L (r_files r) (r_inputs r) \<in> hashed_messages L C fs i rs"
    "weak_message L fs i \<in> hashed_messages L C fs i rs"
    using r(1) by (auto simp: hashed_messages_def)
  ultimately have "weak_message L fs i = weak_message L (r_files r) (r_inputs r)"
    using assms(4) by (blast dest: inj_onD)
  then have "weak_view L fs i = weak_view L (r_files r) (r_inputs r)"
    using weak_message_inj assms(6,8) r(1) by blast
  then show ?thesis using r v by blast
qed

theorem cache_hit_sound_witness:
  "\<exists>r\<in>set ex_tp_log. ex_tp_entry ex_tp_sf = stored_entry ex_tp_libs r \<and>
     weak_view ex_tp_libs ex_tp_files2 ex_tp_inputs = weak_view ex_tp_libs (r_files r) (r_inputs r)"
proof -
  have d: "digests_32 ex_tp_libs" by (simp add: digests_32_def ex_tp_libs_def)
  have p: "weak_plain ex_tp_libs fs ex_tp_inputs" for fs
    by (simp add: weak_plain_def one_line_def ex_tp_inputs_def resolve_globs_def)
  have m: "hd (weak_message ex_tp_libs fs ex_tp_inputs) = CHR ''c''" for fs
    by (simp add: weak_message_def weak_lines_def)
  have tool: "hash_tool_binary ex_tp_libs ex_tp_files2 ''/t'' = hash_tool_binary ex_tp_libs ex_tp_files ''/t''"
    by code_simp
  then have w: "weak_message ex_tp_libs ex_tp_files2 ex_tp_inputs = weak_message ex_tp_libs ex_tp_files ex_tp_inputs"
    by (simp add: weak_message_def weak_lines_def ex_tp_inputs_def resolve_globs_def)
  have s: "strong_message ex_tp_libs fs x [] = ''wf:'' @ x @ [newline]" for fs x
    by (simp add: strong_message_def sf_paths_def)
  have pl: "pathsets_list ex_tp_cache ex_tp_files2 (compute_weak_fingerprint ex_tp_libs ex_tp_files2 ex_tp_inputs) = [ex_tp_ps]"
    by code_simp
  have wf: "compute_weak_fingerprint ex_tp_libs ex_tp_files2 ex_tp_inputs = compute_weak_fingerprint ex_tp_libs ex_tp_files ex_tp_inputs"
    using w by (simp add: compute_weak_fingerprint_def)
  have hashed: "hashed_messages ex_tp_libs ex_tp_cache ex_tp_files2 ex_tp_inputs ex_tp_log =
      {weak_message ex_tp_libs ex_tp_files ex_tp_inputs,
       ''wf:'' @ compute_weak_fingerprint ex_tp_libs ex_tp_files ex_tp_inputs @ [newline]}"
    using pl unfolding wf hashed_messages_def w
    by (auto simp: ex_tp_log_def recorded_wf_def s ex_tp_ps_def)
  have h: "l_hash ex_tp_libs x = replicate 32 (if hd x = CHR ''c'' then CHR ''a'' else CHR ''b'')" for x
    by (simp add: ex_tp_libs_def)
  have "inj_on (l_hash ex_tp_libs) (hashed_messages ex_tp_libs ex_tp_cache ex_tp_files2 ex_tp_inputs ex_tp_log)"
    unfolding hashed by (auto simp: h m replicate_eq_replicate)
  then show ?thesis
    using cache_hit_sound[OF ex_tp_history ex_tp_codecs ex_tp_lookup _ d p]
    by (simp add: no_colon_def ex_tp_log_def p ex_tp_ps_def)
qed

lemma record_run_stored:
  assumes "record_run L C fs i ps tmpl = (Some sf, fs1)" "cache_codecs_ok C"
    and "\<forall>q\<in>set (pathsets_list C fs (compute_weak_fingerprint L fs i)). same_pathset q ps \<longrightarrow> q = ps"
  shows "ps \<in> set (pathsets_list C fs1 (compute_weak_fingerprint L fs i))"
    "pathsets_list C fs (compute_weak_fingerprint L fs i) = [] \<Longrightarrow> pathsets_list C fs1 (compute_weak_fingerprint L fs i) = [ps]"
    "read_entry C fs1 sf = Some (tmpl\<lparr>ce_fingerprint := sf, ce_pathset_reads := ps_reads ps\<rparr>)"
proof -
  let ?w = "compute_weak_fingerprint L fs i"
  obtain fs0 where a: "pathsets_append C fs ?w ps = Some fs0"
    and we: "write_entry C fs0 sf (tmpl\<lparr>ce_fingerprint := sf, ce_pathset_reads := ps_reads ps\<rparr>) = Some fs1"
    using assms(1) by (rule record_run_Some) blast
  have "fs1 (pathsets_path C ?w) = fs0 (pathsets_path C ?w)"
    using write_entry_Some[OF we] by auto
  then have same: "pathsets_list C fs1 ?w = pathsets_list C fs0 ?w" by (simp add: pathsets_list_def read_file_def)
  show "ps \<in> set (pathsets_list C fs1 ?w)" "pathsets_list C fs ?w = [] \<Longrightarrow> pathsets_list C fs1 ?w = [ps]"
    using pathsets_append_Some[OF a] assms(2,3) by (auto simp: same cache_codecs_ok_def)
  show "read_entry C fs1 sf = Some (tmpl\<lparr>ce_fingerprint := sf, ce_pathset_reads := ps_reads ps\<rparr>)"
    using read_write_entry[OF we] assms(2) by (simp add: cache_codecs_ok_def)
qed

text \<open>A recorded run is found again: whatever else changed since, if the weak fingerprint is the recorded
  one and so is the strong fingerprint of the recorded reads, a lookup hits, and when no other pathset
  was stored under that weak fingerprint it returns exactly the recorded entry and reads.\<close>

theorem cache_hit_complete:
  assumes "cache_codecs_ok C" and "record_run L C fs i ps tmpl = (Some sf, fs1)"
    and "\<forall>p. cache_path C p \<longrightarrow> fs2 p = fs1 p"
    and "compute_weak_fingerprint L fs2 j = compute_weak_fingerprint L fs i"
    and "compute_strong_fingerprint L fs2 (compute_weak_fingerprint L fs i) (ps_reads ps) = sf"
    and "\<forall>q\<in>set (pathsets_list C fs (compute_weak_fingerprint L fs i)). same_pathset q ps \<longrightarrow> q = ps"
  shows "lookup_with_pathset_reads L C fs2 j \<noteq> None \<and>
    (pathsets_list C fs (compute_weak_fingerprint L fs i) = [] \<longrightarrow>
       lookup_with_pathset_reads L C fs2 j =
         Some (sf, tmpl\<lparr>ce_fingerprint := sf, ce_pathset_reads := ps_reads ps\<rparr>, ps_reads ps))"
proof -
  let ?w = "compute_weak_fingerprint L fs i"
  note stored = record_run_stored[OF assms(2,1,6)]
  have re: "read_entry C fs2 sf = Some (tmpl\<lparr>ce_fingerprint := sf, ce_pathset_reads := ps_reads ps\<rparr>)"
    using stored(3) read_entry_cong[of fs2 C sf fs1] assms(3) by (auto simp: cache_path_def)
  have same: "pathsets_list C fs2 ?w = pathsets_list C fs1 ?w"
    using assms(3) by (auto simp: pathsets_list_def read_file_def cache_path_def)
  have look: "lookup_with_pathset_reads L C fs2 j = first_hit L C fs2 ?w (pathsets_list C fs1 ?w)"
    by (simp add: lookup_with_pathset_reads_def Let_def assms(4) same)
  show ?thesis
    using first_hit_exists[OF stored(1)] re assms(5) stored(2) by (auto simp: look Let_def)
qed

theorem cache_hit_complete_witness:
  "lookup_with_pathset_reads ex_tp_libs ex_tp_cache ex_tp_files2 ex_tp_inputs = Some (ex_tp_sf, ex_tp_entry ex_tp_sf, [])"
proof -
  have none: "pathsets_list ex_tp_cache ex_tp_files (compute_weak_fingerprint ex_tp_libs ex_tp_files ex_tp_inputs) = []"
    by code_simp
  have "compute_weak_fingerprint ex_tp_libs ex_tp_files2 ex_tp_inputs = compute_weak_fingerprint ex_tp_libs ex_tp_files ex_tp_inputs"
    "compute_strong_fingerprint ex_tp_libs ex_tp_files2 (compute_weak_fingerprint ex_tp_libs ex_tp_files ex_tp_inputs)
       (ps_reads ex_tp_ps) = ex_tp_sf"
    by code_simp+
  then show ?thesis
    using cache_hit_complete[OF ex_tp_codecs ex_tp_recorded, of ex_tp_files2 ex_tp_inputs] none
    by (simp add: ex_tp_entry_def ex_tp_ps_def)
qed

end
