(* ===== verification/Why_Miss.thy ===== *)
theory Why_Miss
  imports Two_Phase
begin

text \<open>
  The \<^verbatim>\<open>rage why-miss\<close> diagnostic: the last two snapshots of a task's weak-fingerprint inputs
  (src/crates/cache/src/why_miss.rs) and the comparison the command prints (print_why_miss_diff in
  src/crates/cli/src/main.rs).  What is printed is modelled as the list of its sections; a hash map built from
  a list of pairs keeps the last value of a key.
\<close>

section \<open>Snapshots\<close>

record WhyMissSnapshot =
  wm_timestamp :: "64 word"
  wm_pkg :: string
  wm_script :: string
  wm_command :: string
  wm_tool_path :: string
  wm_tool_hash :: string
  wm_inputs :: "(string \<times> string) list"
  wm_env :: "(string \<times> string) list"
  wm_dep_abi_fps :: "(string \<times> string) list"

definition snapshot_path :: "string \<Rightarrow> string \<Rightarrow> string \<Rightarrow> string" where
  "snapshot_path dir pkg script =
     path_join (path_join dir ''why'')
       (replace_char slash ''__'' (replace_char (CHR ''@'') ''_at_'' pkg) @ ''-'' @ script @ ''.snapshot.json'')"

definition read_snapshots :: "WhyMissSnapshot list codec \<Rightarrow> string \<Rightarrow> files \<Rightarrow> string \<Rightarrow> string \<Rightarrow>
    (WhyMissSnapshot \<times> WhyMissSnapshot) option" where
  "read_snapshots c dir fs pkg script =
     Option.bind (read_file fs (snapshot_path dir pkg script)) (\<lambda>raw.
       Option.bind (dec c raw) (\<lambda>snaps.
         if length snaps < 2 then None
         else Some (snaps ! (length snaps - 2), snaps ! (length snaps - 1))))"

definition record_snapshot :: "WhyMissSnapshot list codec \<Rightarrow> (string \<Rightarrow> bool) \<Rightarrow> string \<Rightarrow> files \<Rightarrow> WhyMissSnapshot \<Rightarrow> files" where
  "record_snapshot c writable dir fs snap =
     (let path = snapshot_path dir (wm_pkg snap) (wm_script snap);
          stored = (case Option.bind (read_file fs path) (dec c) of None \<Rightarrow> [] | Some xs \<Rightarrow> xs);
          existing = stored @ [snap];
          kept = (if 2 < length existing then drop (length existing - 2) existing else existing) in
      case enc c kept of None \<Rightarrow> fs | Some json \<Rightarrow> write_ignored writable fs path json)"

text \<open>The snapshot the runner takes of a task (run_single_task_two_phase in runner.rs).\<close>

definition snapshot_of :: "Libs \<Rightarrow> files \<Rightarrow> 64 word \<Rightarrow> string \<Rightarrow> string \<Rightarrow> WeakFpInputs \<Rightarrow> WhyMissSnapshot" where
  "snapshot_of L fs now pkg script i =
     \<lparr>wm_timestamp = now, wm_pkg = pkg, wm_script = script, wm_command = wi_command i, wm_tool_path = wi_tool_path i,
      wm_tool_hash = (case hash_tool_binary L fs (wi_tool_path i) of None \<Rightarrow> ''<missing>'' | Some x \<Rightarrow> x),
      wm_inputs = resolve_globs L fs (wi_package_path i) (wi_input_globs i),
      wm_env = [], wm_dep_abi_fps = wi_dep_abi i\<rparr>"

section \<open>The comparison\<close>

datatype WhySection =
    CommandChanged string string
  | ToolChanged string string string
  | InputsChanged "string list" "string list" "string list"
  | AbiChanged "string list"

definition last_map :: "(string \<times> string) list \<Rightarrow> string \<Rightarrow> string option" where
  "last_map xs = map_of (rev xs)"

definition map_keys :: "(string \<times> string) list \<Rightarrow> string list" where
  "map_keys xs = remdups (map fst xs)"

definition changed_keys :: "(string \<times> string) list \<Rightarrow> (string \<times> string) list \<Rightarrow> string list" where
  "changed_keys old new = filter (\<lambda>k. last_map old k \<noteq> None \<and> last_map old k \<noteq> last_map new k) (map_keys new)"

definition added_keys :: "(string \<times> string) list \<Rightarrow> (string \<times> string) list \<Rightarrow> string list" where
  "added_keys old new = filter (\<lambda>k. last_map old k = None) (map_keys new)"

definition short_hash :: "string \<Rightarrow> string" where
  "short_hash h = take (min 8 (length h)) h"

definition print_why_miss_diff :: "WhyMissSnapshot \<Rightarrow> WhyMissSnapshot \<Rightarrow> WhySection list" where
  "print_why_miss_diff old new =
     (let changed = sort_key path_key (changed_keys (wm_inputs old) (wm_inputs new));
          added = sort_key path_key (added_keys (wm_inputs old) (wm_inputs new));
          removed = sort_key path_key (added_keys (wm_inputs new) (wm_inputs old));
          abi = sort (changed_keys (wm_dep_abi_fps old) (wm_dep_abi_fps new)) in
      (if wm_command old \<noteq> wm_command new then [CommandChanged (wm_command old) (wm_command new)] else []) @
      (if wm_tool_hash old \<noteq> wm_tool_hash new
       then [ToolChanged (wm_tool_path new) (short_hash (wm_tool_hash old)) (short_hash (wm_tool_hash new))] else []) @
      (if changed \<noteq> [] \<or> added \<noteq> [] \<or> removed \<noteq> [] then [InputsChanged changed added removed] else []) @
      (if abi \<noteq> [] then [AbiChanged abi] else []))"

section \<open>Lemmas\<close>

lemma map_keys_set: "set (map_keys xs) = {k. last_map xs k \<noteq> None}"
  by (auto simp: map_keys_def last_map_def map_of_eq_None_iff image_iff)

lemma last_map_distinct: "distinct (map fst xs) \<Longrightarrow> last_map xs k = map_of xs k"
proof -
  assume d: "distinct (map fst xs)"
  then have "distinct (map fst (rev xs))" by (simp add: rev_map[symmetric])
  then have "map_of (rev xs) k = Some v \<longleftrightarrow> map_of xs k = Some v" for v
    using d by (simp only: map_of_eq_Some_iff set_rev)
  then show ?thesis unfolding last_map_def by (metis option.exhaust)
qed

lemma changed_keys_Nil: "changed_keys old new = [] \<longleftrightarrow>
    (\<forall>k a b. last_map old k = Some a \<longrightarrow> last_map new k = Some b \<longrightarrow> a = b)"
  unfolding changed_keys_def filter_empty_conv map_keys_set by (auto; metis option.exhaust)

lemma added_keys_Nil: "added_keys old new = [] \<longleftrightarrow> (\<forall>k. last_map old k = None \<longrightarrow> last_map new k = None)"
  by (auto simp: added_keys_def filter_empty_conv map_keys_set)

lemma inputs_unchanged:
  "changed_keys old new = [] \<and> added_keys old new = [] \<and> added_keys new old = [] \<longleftrightarrow> last_map old = last_map new"
proof
  assume "changed_keys old new = [] \<and> added_keys old new = [] \<and> added_keys new old = []"
  then have h: "\<And>k a b. last_map old k = Some a \<Longrightarrow> last_map new k = Some b \<Longrightarrow> a = b"
    "\<And>k. last_map old k = None \<longleftrightarrow> last_map new k = None"
    unfolding changed_keys_Nil added_keys_Nil by blast+
  show "last_map old = last_map new"
  proof
    fix k show "last_map old k = last_map new k"
      using h(1)[of k] h(2)[of k] by (cases "last_map old k"; cases "last_map new k") auto
  qed
qed (simp add: changed_keys_Nil added_keys_Nil)

lemma sort_key_Nil [simp]: "sort_key f xs = [] \<longleftrightarrow> xs = []"
  by (metis length_0_conv length_sort)

lemma no_difference: "print_why_miss_diff old new = [] \<longleftrightarrow>
    wm_command old = wm_command new \<and> wm_tool_hash old = wm_tool_hash new \<and>
    last_map (wm_inputs old) = last_map (wm_inputs new) \<and>
    changed_keys (wm_dep_abi_fps old) (wm_dep_abi_fps new) = []"
  unfolding inputs_unchanged[symmetric] by (auto simp: print_why_miss_diff_def Let_def)

text \<open>A listing with sorted, distinct paths is determined by its map.\<close>

lemma resolve_globs_strict: "sorted_wrt (<) (map (\<lambda>f. path_key (fst f)) (resolve_globs L fs d gs))"
  unfolding resolve_globs_def
  by (auto split: option.splits intro!: dedup_key_sorted)

lemma strict_listing_unique:
  assumes "sorted_wrt (<) (map (\<lambda>f. path_key (fst f)) xs)" "sorted_wrt (<) (map (\<lambda>f. path_key (fst f)) ys)"
    and "last_map xs = last_map ys"
  shows "xs = ys"
proof (rule strict_sorted_key_unique[OF assms(1,2)])
  have d: "distinct (map fst zs)" if "sorted_wrt (<) (map (\<lambda>f. path_key (fst f)) zs)" for zs :: "(string \<times> string) list"
    using strict_sorted_iff[of "map (\<lambda>f. path_key (fst f)) zs"] that distinct_map[of path_key "map fst zs"]
    by (simp add: o_def)
  have "set zs = {(k, v). last_map zs k = Some v}" if "sorted_wrt (<) (map (\<lambda>f. path_key (fst f)) zs)" for zs
    using d[OF that] unfolding last_map_def by (auto simp: rev_map[symmetric] map_of_eq_Some_iff)
  then show "set xs = set ys" using assms by simp
  show "inj_on (\<lambda>f. path_key (fst f)) (set xs)"
    using assms(1) strict_sorted_iff[of "map (\<lambda>f. path_key (fst f)) xs"] by (simp add: distinct_map)
qed

lemma why_miss_silent:
  assumes "print_why_miss_diff (snapshot_of L fs t p s i) (snapshot_of L fs' t' p s j) = []"
    and "wi_package_path i = wi_package_path j" and "wi_tool_path i = wi_tool_path j"
    and "mset (wi_env i) = mset (wi_env j)" and "inj_on fst (set (wi_env i))"
    and "fst ` set (wi_dep_abi i) = fst ` set (wi_dep_abi j)"
    and "distinct (map fst (wi_dep_abi i))" and "distinct (map fst (wi_dep_abi j))"
  shows "weak_message L fs i = weak_message L fs' j"
proof -
  have same: "wi_command i = wi_command j"
      "hash_tool_binary L fs (wi_tool_path i) = hash_tool_binary L fs' (wi_tool_path j)"
      "resolve_globs L fs (wi_package_path i) (wi_input_globs i) = resolve_globs L fs' (wi_package_path j) (wi_input_globs j)"
    using assms(1) unfolding no_difference
    by (auto simp: snapshot_of_def intro: tool_hash_inj strict_listing_unique[OF resolve_globs_strict resolve_globs_strict])
  have "changed_keys (wi_dep_abi i) (wi_dep_abi j) = []"
    using assms(1)[unfolded no_difference] by (simp add: snapshot_of_def)
  then have common: "a = b" if "map_of (wi_dep_abi i) k = Some a" "map_of (wi_dep_abi j) k = Some b" for k a b
    using that last_map_distinct[OF assms(7), of k] last_map_distinct[OF assms(8), of k]
    unfolding changed_keys_Nil by simp
  have "map_of (wi_dep_abi i) = map_of (wi_dep_abi j)"
  proof
    fix k
    have none: "map_of (wi_dep_abi i) k = None \<longleftrightarrow> map_of (wi_dep_abi j) k = None"
      using assms(6) by (simp add: map_of_eq_None_iff)
    show "map_of (wi_dep_abi i) k = map_of (wi_dep_abi j) k"
    proof (cases "map_of (wi_dep_abi i) k")
      case (Some a)
      with none obtain b where "map_of (wi_dep_abi j) k = Some b" by auto
      with Some common show ?thesis by simp
    qed (use none in simp)
  qed
  then have "set (wi_dep_abi i) = set (wi_dep_abi j)"
    using map_of_inject_set[OF assms(7,8)] by simp
  then have "mset (wi_dep_abi i) = mset (wi_dep_abi j)"
    using assms(7,8) by (simp add: set_eq_iff_mset_eq_distinct distinct_map)
  then have "sort_key fst (wi_dep_abi i) = sort_key fst (wi_dep_abi j)"
    using sort_key_perm[of "wi_dep_abi i" "wi_dep_abi j" fst] assms(7) by (simp add: distinct_map)
  moreover have "sort_key fst (wi_env i) = sort_key fst (wi_env j)"
    using sort_key_perm assms(4,5) by blast
  ultimately show ?thesis
    using same assms(2,3) by (intro weak_message_cong) (simp add: weak_view_def)
qed

lemma length_concat_sort: "length (concat (map f (sort_key g xs))) = (\<Sum>x\<leftarrow>xs. length (f x))"
proof -
  have "sum_list (map (length \<circ> f) (sort_key g xs)) = sum_list (map (length \<circ> f) xs)"
    by (metis mset_map mset_sort sum_mset_sum_list)
  then show ?thesis by (simp add: length_concat o_def)
qed

lemma new_dependency_changes_message:
  "weak_message L fs (i\<lparr>wi_dep_abi := wi_dep_abi i @ [(d, a)]\<rparr>) \<noteq> weak_message L fs i"
proof -
  have "length (weak_message L fs (i\<lparr>wi_dep_abi := wi_dep_abi i @ [(d, a)]\<rparr>)) > length (weak_message L fs i)"
    by (simp add: weak_message_def weak_lines_def o_def length_concat_sort case_prod_beta)
  then show ?thesis by auto
qed

section \<open>Properties\<close>

text \<open>For two runs of a task whose package and tool are where they were: if why-miss finds no difference and
  the same dependencies have an interface fingerprint, the weak fingerprints are digests of the same
  message, so the miss came from the files the task reads; but when a dependency's interface fingerprint
  appears for the first time the message changes and why-miss still finds no difference.\<close>

theorem why_miss_explains:
  assumes "wi_package_path i = wi_package_path j" and "wi_tool_path i = wi_tool_path j"
    and "mset (wi_env i) = mset (wi_env j)" and "inj_on fst (set (wi_env i))"
    and "distinct (map fst (wi_dep_abi i))" and "distinct (map fst (wi_dep_abi j))"
    and "d \<notin> fst ` set (wi_dep_abi i)"
  shows "(print_why_miss_diff (snapshot_of L fs t p s i) (snapshot_of L fs' t' p s j) = [] \<longrightarrow>
      fst ` set (wi_dep_abi i) = fst ` set (wi_dep_abi j) \<longrightarrow> weak_message L fs i = weak_message L fs' j) \<and>
    (let i' = i\<lparr>wi_dep_abi := wi_dep_abi i @ [(d, a)]\<rparr> in
     print_why_miss_diff (snapshot_of L fs t p s i) (snapshot_of L fs t' p s i') = [] \<and>
     weak_message L fs i' \<noteq> weak_message L fs i)"
proof -
  let ?i' = "i\<lparr>wi_dep_abi := wi_dep_abi i @ [(d, a)]\<rparr>"
  have "last_map (wi_dep_abi i) d = None"
    using assms(7) by (simp add: last_map_def map_of_eq_None_iff)
  then have "changed_keys (wi_dep_abi i) (wi_dep_abi i @ [(d, a)]) = []"
    unfolding changed_keys_Nil by (auto simp: last_map_def split: if_splits)
  then have "print_why_miss_diff (snapshot_of L fs t p s i) (snapshot_of L fs t' p s ?i') = []"
    unfolding no_difference by (simp add: snapshot_of_def)
  then show ?thesis
    using why_miss_silent[OF _ assms(1-4) _ assms(5,6)] new_dependency_changes_message by (simp add: Let_def)
qed

theorem why_miss_explains_witness:
  "print_why_miss_diff (snapshot_of ex_tp_libs ex_tp_files 1 ''a'' ''build'' ex_tp_inputs)
     (snapshot_of ex_tp_libs ex_tp_files 2 ''a'' ''build'' (ex_tp_inputs\<lparr>wi_dep_abi := [(''lib'', ''ff'')]\<rparr>)) = [] \<and>
   weak_message ex_tp_libs ex_tp_files (ex_tp_inputs\<lparr>wi_dep_abi := [(''lib'', ''ff'')]\<rparr>) \<noteq>
     weak_message ex_tp_libs ex_tp_files ex_tp_inputs"
proof -
  have "wi_env ex_tp_inputs = []" "wi_dep_abi ex_tp_inputs = []" by (simp_all add: ex_tp_inputs_def)
  then show ?thesis
    using why_miss_explains[of ex_tp_inputs ex_tp_inputs "''lib''" ex_tp_libs ex_tp_files 1 "''a''" "''build''"
        ex_tp_files 2 "''ff''"]
    by (simp add: Let_def)
qed

text \<open>Once two snapshots of a task have been stored, why-miss compares the last two.\<close>

lemma read_recorded_snapshots:
  assumes "codec_ok c" and "\<forall>xs. enc c xs \<noteq> None" and "\<forall>p. writable p"
    and "wm_pkg a = wm_pkg b" and "wm_script a = wm_script b"
  shows "read_snapshots c dir (record_snapshot c writable dir (record_snapshot c writable dir fs a) b) (wm_pkg b) (wm_script b) = Some (a, b)"
proof -
  let ?kept = "\<lambda>fs x. let ys = (case Option.bind (read_file fs (snapshot_path dir (wm_pkg x) (wm_script x))) (dec c)
      of None \<Rightarrow> [] | Some zs \<Rightarrow> zs) @ [x] in if 2 < length ys then drop (length ys - 2) ys else ys"
  have stored: "Option.bind (read_file (record_snapshot c writable dir fs x) (snapshot_path dir (wm_pkg x) (wm_script x))) (dec c) =
      Some (?kept fs x)" for fs x
  proof -
    obtain j where j: "enc c (?kept fs x) = Some j" using assms(2) by (metis not_None_eq)
    have "record_snapshot c writable dir fs x = fs(snapshot_path dir (wm_pkg x) (wm_script x) \<mapsto> Readable j)"
      using j assms(3) unfolding record_snapshot_def Let_def by (simp add: write_ignored_def write_file_def)
    then show ?thesis using assms(1) j by (simp add: codec_ok_def)
  qed
  let ?fs1 = "record_snapshot c writable dir fs a"
  obtain xs where xs: "?kept fs a = xs @ [a]" "length xs \<le> 1"
  proof -
    have "\<exists>xs. (if 2 < length (zs @ [a]) then drop (length (zs @ [a]) - 2) (zs @ [a]) else zs @ [a]) = xs @ [a] \<and> length xs \<le> 1"
      for zs :: "WhyMissSnapshot list" by (cases "2 < length (zs @ [a])") auto
    then show thesis using that unfolding Let_def by blast
  qed
  have "?kept ?fs1 b = [a, b]"
    using stored[of fs a] xs assms(4,5) by (cases xs) (auto simp: Let_def)
  then have "Option.bind (Option.bind (read_file (record_snapshot c writable dir ?fs1 b)
      (snapshot_path dir (wm_pkg b) (wm_script b))) (dec c)) (\<lambda>snaps. if length snaps < 2 then None
         else Some (snaps ! (length snaps - 2), snaps ! (length snaps - 1))) = Some (a, b)"
    unfolding stored by simp
  then show ?thesis by (simp add: read_snapshots_def)
qed

end
