(* ===== verification/Node_Path.thy ===== *)
theory Node_Path
  imports Files
begin

text \<open>
  Where a task's tools are found (src/crates/scheduler/src/node_path.rs, on Unix): the Node version a
  workspace declares, the directory of the version manager that has it, the PATH a task is run with and
  the tool binary that goes into its fingerprint.  The main theorem is that the two agree: the binary that is
  hashed is the first one on that PATH.
\<close>

section \<open>Definitions\<close>

record Host =
  h_files :: files
  h_is_dir :: "string \<Rightarrow> bool"
  h_read_dir :: "string \<Rightarrow> string list option"
  h_env :: "string \<Rightarrow> string option"

text \<open>\<^verbatim>\<open>split_whitespace\<close>.\<close>

fun words_acc :: "string \<Rightarrow> string \<Rightarrow> string list" where
  "words_acc [] acc = (if acc = [] then [] else [acc])"
| "words_acc (c # cs) acc =
    (if is_ws c then (if acc = [] then words_acc cs [] else acc # words_acc cs [])
     else words_acc cs (acc @ [c]))"

definition split_whitespace :: "string \<Rightarrow> string list" where
  "split_whitespace s = words_acc s []"

definition file_line :: "Host \<Rightarrow> string \<Rightarrow> string option" where
  "file_line H p = Option.bind (read_file (h_files H) p) (\<lambda>s. if trim s = [] then None else Some (trim s))"

fun tool_versions_node :: "string list \<Rightarrow> string option" where
  "tool_versions_node [] = None"
| "tool_versions_node (l # ls) =
    (let line = trim l in
     if line = [] \<or> hd line = CHR ''#'' then tool_versions_node ls
     else (case split_whitespace line of
         tool # v # _ \<Rightarrow> if tool = ''nodejs'' \<or> tool = ''node'' then Some v else tool_versions_node ls
       | _ \<Rightarrow> tool_versions_node ls))"

definition resolve_node_version :: "Host \<Rightarrow> string \<Rightarrow> string option" where
  "resolve_node_version H root =
     (case file_line H (path_join root ''.node-version'') of Some v \<Rightarrow> Some v
      | None \<Rightarrow> (case file_line H (path_join root ''.nvmrc'') of Some v \<Rightarrow> Some v
      | None \<Rightarrow> Option.bind (read_file (h_files H) (path_join root ''.tool-versions'')) (\<lambda>s. tool_versions_node (str_lines s))))"

definition strip_vs :: "string \<Rightarrow> string" where
  "strip_vs s = dropWhile (\<lambda>c. c = CHR ''v'') s"

definition version_matches :: "string \<Rightarrow> string \<Rightarrow> bool" where
  "version_matches version name =
     (let bare = strip_vs name; want = strip_vs version in bare = want \<or> starts_with (want @ ''.'') bare)"

text \<open>\<^verbatim>\<open>sort_by(|a, b| b.cmp(a))\<close> is stable, hence the two reversals.\<close>

definition resolve_version_dir :: "Host \<Rightarrow> string \<Rightarrow> string \<Rightarrow> string option" where
  "resolve_version_dir H base version =
     (if h_is_dir H (path_join base version) then Some (path_join base version)
      else if h_is_dir H (path_join base (CHR ''v'' # strip_vs version)) then Some (path_join base (CHR ''v'' # strip_vs version))
      else (case h_read_dir H base of None \<Rightarrow> None
        | Some names \<Rightarrow>
            (case rev (sort_key path_key (rev (map (path_join base)
                (filter (\<lambda>n. h_is_dir H (path_join base n) \<and> version_matches version n) names)))) of
               [] \<Rightarrow> None | p # _ \<Rightarrow> Some p)))"

definition home_dir :: "Host \<Rightarrow> string option" where
  "home_dir H = (case h_env H ''HOME'' of Some h \<Rightarrow> Some h | None \<Rightarrow> h_env H ''USERPROFILE'')"

text \<open>One manager: its directory of versions, and the path of the tools inside a version.\<close>

definition manager_bin :: "Host \<Rightarrow> string \<Rightarrow> string \<Rightarrow> string option \<Rightarrow> string option" where
  "manager_bin H version sub base =
     Option.bind base (\<lambda>b. Option.bind (resolve_version_dir H b version) (\<lambda>d.
       if h_is_dir H (path_join d sub) then Some (path_join d sub) else None))"

definition or_home :: "Host \<Rightarrow> string \<Rightarrow> string \<Rightarrow> string option" where
  "or_home H var sub = (case h_env H var of Some r \<Rightarrow> Some r
     | None \<Rightarrow> map_option (\<lambda>h. path_join h sub) (home_dir H))"

fun first_some :: "'a option list \<Rightarrow> 'a option" where
  "first_some [] = None"
| "first_some (Some x # _) = Some x"
| "first_some (None # xs) = first_some xs"

definition find_version_manager_bin :: "Host \<Rightarrow> string \<Rightarrow> string option" where
  "find_version_manager_bin H version = first_some
     [manager_bin H version ''installation/bin''
        (map_option (\<lambda>r. path_join r ''node-versions'') (or_home H ''FNM_DIR'' ''.local/share/fnm'')),
      manager_bin H version ''bin''
        (map_option (\<lambda>r. path_join r ''versions/node'') (or_home H ''NVM_DIR'' ''.nvm'')),
      manager_bin H version ''bin'' (map_option (\<lambda>h. path_join h ''.asdf/installs/nodejs'') (home_dir H)),
      manager_bin H version ''bin'' (map_option (\<lambda>h. path_join h ''.local/share/mise/installs/node'') (home_dir H)),
      Option.bind (home_dir H) (\<lambda>h.
        let b = path_join (case h_env H ''VOLTA_HOME'' of Some v \<Rightarrow> v | None \<Rightarrow> path_join h ''.volta'') ''bin''
        in if h_is_dir H b then Some b else None)]"

definition same_path :: "string \<Rightarrow> string \<Rightarrow> bool" where
  "same_path a b = (path_components a = path_components b)"

definition node_bin :: "string \<Rightarrow> string" where
  "node_bin d = path_join d ''node_modules/.bin''"

definition prepended_dirs :: "Host \<Rightarrow> string \<Rightarrow> string \<Rightarrow> string list" where
  "prepended_dirs H cwd root =
     (if h_is_dir H (node_bin cwd) then [node_bin cwd] else []) @
     (if \<not> same_path (node_bin root) (node_bin cwd) \<and> h_is_dir H (node_bin root) then [node_bin root] else []) @
     (case Option.bind (resolve_node_version H root) (find_version_manager_bin H) of None \<Rightarrow> [] | Some b \<Rightarrow> [b])"

definition build_node_path :: "Host \<Rightarrow> string \<Rightarrow> string \<Rightarrow> string \<Rightarrow> string" where
  "build_node_path H cwd root system_path =
     concat (map (\<lambda>d. d @ '':'') (prepended_dirs H cwd root)) @ system_path"

text \<open>The first file of that name in a list of directories.\<close>

fun find_in_dirs :: "files \<Rightarrow> string \<Rightarrow> string list \<Rightarrow> string option" where
  "find_in_dirs fs tool [] = None"
| "find_in_dirs fs tool (d # ds) =
    (if is_file fs (path_join d tool) then Some (path_join d tool) else find_in_dirs fs tool ds)"

definition which_first :: "Host \<Rightarrow> string \<Rightarrow> string \<Rightarrow> string \<Rightarrow> string option" where
  "which_first H command cwd root =
     (case split_whitespace command of [] \<Rightarrow> None
      | tool # _ \<Rightarrow>
         if slash \<in> set tool then Some tool
         else if is_file (h_files H) (path_join (node_bin cwd) tool) then Some (path_join (node_bin cwd) tool)
         else if \<not> same_path root cwd \<and> is_file (h_files H) (path_join (node_bin root) tool)
         then Some (path_join (node_bin root) tool)
         else (case find_in_dirs (h_files H) tool
                 (case Option.bind (resolve_node_version H root) (find_version_manager_bin H) of None \<Rightarrow> [] | Some b \<Rightarrow> [b]) of
             Some p \<Rightarrow> Some p
           | None \<Rightarrow> Option.bind (h_env H ''PATH'') (\<lambda>p. find_in_dirs (h_files H) tool (split_on (CHR '':'') p))))"

section \<open>Lemmas\<close>

lemma split_on_concat:
  "\<forall>d\<in>set ds. c \<notin> set d \<Longrightarrow> split_on c (concat (map (\<lambda>d. d @ [c]) ds) @ s) = ds @ split_on c s"
  by (induction ds) (auto simp: split_on_append)

lemma split_on_mid: "split_on c (a @ c # b) = split_on c a @ split_on c b"
  by (induction a) (auto split: list.splits)

lemma path_segs_join: "path_segs (a @ slash # b) = path_segs a @ path_segs b"
  by (simp add: path_segs_def split_on_mid)

lemma split_on_last_sep: "split_on c (a @ [c]) = split_on c a @ [[]]"
  by (simp add: split_on_mid)

lemma node_bin_components:
  assumes "d \<noteq> []"
  shows "path_components (node_bin d) = path_components d @ [''node_modules'', ''.bin'']"
proof -
  have segs: "path_segs ''node_modules/.bin'' = [''node_modules'', ''.bin'']" by code_simp
  have s: "path_segs (node_bin d) = path_segs d @ [''node_modules'', ''.bin'']"
  proof (cases "last d = slash")
    case True
    then obtain e where d: "d = e @ [slash]" using assms by (metis append_butlast_last_id)
    then have "node_bin d = e @ slash # ''node_modules/.bin''"
      by (simp add: node_bin_def path_join_def is_absolute_def)
    then show ?thesis using d segs by (simp add: path_segs_join) (simp add: path_segs_def)
  next
    case False
    then have "node_bin d = d @ slash # ''node_modules/.bin''"
      using assms by (simp add: node_bin_def path_join_def is_absolute_def)
    then show ?thesis using segs by (simp add: path_segs_join)
  qed
  have a: "is_absolute (node_bin d) = is_absolute d"
    using assms by (cases d) (auto simp: node_bin_def path_join_def is_absolute_def)
  have "hd (split_on slash (node_bin d)) = hd (split_on slash d)"
  proof (cases "last d = slash")
    case True
    then obtain e where d: "d = e @ [slash]" using assms by (metis append_butlast_last_id)
    then show ?thesis by (simp add: node_bin_def path_join_def is_absolute_def split_on_mid)
  next
    case False
    then show ?thesis using assms by (simp add: node_bin_def path_join_def is_absolute_def split_on_mid)
  qed
  then show ?thesis by (simp add: path_components_def s a)
qed

lemma find_in_dirs_append:
  "find_in_dirs fs t (xs @ ys) = (case find_in_dirs fs t xs of Some p \<Rightarrow> Some p | None \<Rightarrow> find_in_dirs fs t ys)"
  by (induction xs) auto

lemma first_some_in: "first_some xs = Some y \<Longrightarrow> Some y \<in> set xs"
  by (induction xs rule: first_some.induct) auto

lemma version_dir_matches:
  assumes "resolve_version_dir H base version = Some p"
  shows "h_is_dir H p \<and> (\<exists>n. p = path_join base n \<and>
    (n = version \<or> n = CHR ''v'' # strip_vs version \<or> version_matches version n))"
proof (cases "h_is_dir H (path_join base version) \<or> h_is_dir H (path_join base (CHR ''v'' # strip_vs version))")
  case True
  then show ?thesis using assms by (auto simp: resolve_version_dir_def split: if_splits)
next
  case False
  let ?good = "\<lambda>n. h_is_dir H (path_join base n) \<and> version_matches version n"
  obtain names where n: "h_read_dir H base = Some names"
    using assms False by (cases "h_read_dir H base") (auto simp: resolve_version_dir_def)
  let ?sorted = "rev (sort_key path_key (rev (map (path_join base) (filter ?good names))))"
  have "(case ?sorted of [] \<Rightarrow> None | q # _ \<Rightarrow> Some q) = Some p"
    using assms False n by (simp add: resolve_version_dir_def)
  then have "p \<in> set ?sorted" by (cases ?sorted) simp_all
  then have "p \<in> path_join base ` {n \<in> set names. ?good n}" by simp
  then show ?thesis by blast
qed

lemma manager_bin_dir: "manager_bin H v sub b = Some p \<Longrightarrow> h_is_dir H p"
  by (auto simp: manager_bin_def bind_eq_Some_conv split: if_splits)

section \<open>Properties\<close>

text \<open>The tool binary that goes into a task's fingerprint is the file a search of the task's own PATH
  finds: for a command whose first word names no path, \<^verbatim>\<open>which_first\<close> returns the first file of that name in
  the directories of the PATH that \<^verbatim>\<open>build_node_path\<close> gives the task, as long as directories contain no
  colon (a file's directory being a directory).\<close>

theorem which_first_searches_path:
  assumes "split_whitespace command = tool # args" and "slash \<notin> set tool"
    and "h_env H ''PATH'' = Some system_path"
    and "cwd \<noteq> []" and "root \<noteq> []" and "CHR '':'' \<notin> set cwd" and "CHR '':'' \<notin> set root"
    and "\<forall>b. Option.bind (resolve_node_version H root) (find_version_manager_bin H) = Some b \<longrightarrow> CHR '':'' \<notin> set b"
    and "\<forall>d\<in>{node_bin cwd, node_bin root}. is_file (h_files H) (path_join d tool) \<longrightarrow> h_is_dir H d"
  shows "which_first H command cwd root =
    find_in_dirs (h_files H) tool (split_on (CHR '':'') (build_node_path H cwd root system_path))"
proof -
  have colon: "CHR '':'' \<notin> set (node_bin d)" if "CHR '':'' \<notin> set d" for d
    using that by (auto simp: node_bin_def path_join_def is_absolute_def)
  have "\<forall>d\<in>set (prepended_dirs H cwd root). CHR '':'' \<notin> set d"
    using colon[OF assms(6)] colon[OF assms(7)] assms(8)
    by (auto simp: prepended_dirs_def split: option.splits if_splits)
  then have path: "split_on (CHR '':'') (build_node_path H cwd root system_path) =
      prepended_dirs H cwd root @ split_on (CHR '':'') system_path"
    unfolding build_node_path_def by (rule split_on_concat)
  have same: "same_path (node_bin root) (node_bin cwd) = same_path root cwd"
    using assms(4,5) by (simp add: same_path_def node_bin_components)
  have dirs: "is_file (h_files H) (path_join d tool) \<Longrightarrow> h_is_dir H d" if "d = node_bin cwd \<or> d = node_bin root" for d
    using assms(9) that by blast
  show ?thesis
    unfolding path find_in_dirs_append
    using assms(1-3) dirs[of "node_bin cwd"] dirs[of "node_bin root"]
    by (auto simp: which_first_def prepended_dirs_def same find_in_dirs_append split: option.splits)
qed

definition ex_host :: "string list \<Rightarrow> string list \<Rightarrow> Host" where
  "ex_host files dirs = \<lparr>h_files = (\<lambda>p. if p \<in> set files then Some (Readable ''18'') else None),
     h_is_dir = (\<lambda>d. d \<in> set dirs), h_read_dir = (\<lambda>d. if d = ''/n/node-versions'' then Some [''v18.20.4'', ''v18.9.0'', ''v20.1.0''] else None),
     h_env = (\<lambda>v. if v = ''PATH'' then Some ''/bin:/usr/bin'' else if v = ''FNM_DIR'' then Some ''/n'' else None)\<rparr>"

theorem which_first_searches_path_witness:
  "which_first (ex_host [''/w/node_modules/.bin/tsc''] [''/w/node_modules/.bin'']) ''tsc -b'' ''/w/a'' ''/w'' =
     Some ''/w/node_modules/.bin/tsc''"
proof -
  let ?H = "ex_host [''/w/node_modules/.bin/tsc''] [''/w/node_modules/.bin'']"
  have s: "split_whitespace ''tsc -b'' = [''tsc'', ''-b'']" by code_simp
  have p: "h_env ?H ''PATH'' = Some ''/bin:/usr/bin''" by (simp add: ex_host_def)
  have v: "Option.bind (resolve_node_version ?H ''/w'') (find_version_manager_bin ?H) = None" by code_simp
  have n: "node_bin ''/w/a'' = ''/w/a/node_modules/.bin''" "node_bin ''/w'' = ''/w/node_modules/.bin''" by code_simp+
  have d: "\<forall>d\<in>{node_bin ''/w/a'', node_bin ''/w''}. is_file (h_files ?H) (path_join d ''tsc'') \<longrightarrow> h_is_dir ?H d"
    unfolding n by (simp add: ex_host_def is_file_def path_join_def is_absolute_def)
  have "which_first ?H ''tsc -b'' ''/w/a'' ''/w'' =
      find_in_dirs (h_files ?H) ''tsc'' (split_on (CHR '':'') (build_node_path ?H ''/w/a'' ''/w'' ''/bin:/usr/bin''))"
    by (rule which_first_searches_path[OF s _ p _ _ _ _ _ d]) (use v in simp_all)
  also have "\<dots> = Some ''/w/node_modules/.bin/tsc''" by code_simp
  finally show ?thesis .
qed

text \<open>A version directory that is found matches the declared version, exactly or as the beginning of a
  longer version; but of several that match a partial version the last in path order is taken, which is
  not the highest: 18.9.0 wins over 18.20.4.\<close>

theorem resolve_version_dir_order:
  "resolve_version_dir (ex_host [] [''/n/node-versions/v18.20.4'', ''/n/node-versions/v18.9.0'']) ''/n/node-versions'' ''18'' =
     Some ''/n/node-versions/v18.9.0'' \<and>
   (case resolve_version_dir H base version of
      None \<Rightarrow> \<not> h_is_dir H (path_join base version)
    | Some p \<Rightarrow> h_is_dir H p \<and> (\<exists>n. p = path_join base n \<and>
        n \<in> {version, CHR ''v'' # strip_vs version} \<union> {n. version_matches version n}))"
proof
  show "resolve_version_dir (ex_host [] [''/n/node-versions/v18.20.4'', ''/n/node-versions/v18.9.0'']) ''/n/node-versions'' ''18'' =
     Some ''/n/node-versions/v18.9.0''"
    by code_simp
  show "case resolve_version_dir H base version of
      None \<Rightarrow> \<not> h_is_dir H (path_join base version)
    | Some p \<Rightarrow> h_is_dir H p \<and> (\<exists>n. p = path_join base n \<and>
        n \<in> {version, CHR ''v'' # strip_vs version} \<union> {n. version_matches version n})"
  proof (cases "resolve_version_dir H base version")
    case None
    then show ?thesis by (auto simp: resolve_version_dir_def)
  next
    case (Some p)
    then show ?thesis using version_dir_matches[OF Some] by auto
  qed
qed

end
