(* ===== verification/Scheduler.thy ===== *)
theory Scheduler
  imports Task_List
begin

text \<open>
  Task scheduling (src/crates/scheduler/src/runner.rs): the grouping of tasks into waves
  (\<^verbatim>\<open>compute_task_levels\<close>), waiting for dependencies over watch channels (\<^verbatim>\<open>await_deps\<close>), and
  the continuous-topological execution of the package tasks shared by \<^verbatim>\<open>run_tasks\<close> and
  \<^verbatim>\<open>run_tasks_two_phase\<close>: every task is spawned at once, awaits its dependencies, runs, publishes
  its state and is joined; the first error aborts the tasks that are left.
\<close>

section \<open>Waves\<close>

definition dep_levels :: "(string, nat) hmap \<Rightarrow> (string, Task) hmap \<Rightarrow> Package \<Rightarrow> nat list" where
  "dep_levels lv tm pkg = List.map_filter (hget lv) (filter (\<lambda>d. hget tm d \<noteq> None) (pkg_deps pkg))"

definition next_level :: "nat list \<Rightarrow> nat" where
  "next_level ls = (case ls of [] \<Rightarrow> 0 | l # ls' \<Rightarrow> fold max ls' l + 1)"

definition put_level :: "nat \<Rightarrow> Task \<Rightarrow> Task list list \<Rightarrow> Task list list" where
  "put_level l t levels =
     (let ls = (if length levels \<le> l then levels @ replicate (l + 1 - length levels) [] else levels) in
      ls[l := ls ! l @ [t]])"

fun level_step :: "(string, Package) hmap \<Rightarrow> (string, Task) hmap \<Rightarrow> string
    \<Rightarrow> (string, nat) hmap \<times> Task list list \<Rightarrow> (string, nat) hmap \<times> Task list list" where
  "level_step pkgs tm n (lv, levels) = (case hget tm n of None \<Rightarrow> (lv, levels)
     | Some t \<Rightarrow> (case hget pkgs n of None \<Rightarrow> (lv, levels)
       | Some pkg \<Rightarrow>
           (let l = next_level (dep_levels lv tm pkg) in (hput n l lv, put_level l t levels))))"

definition task_map :: "Task list \<Rightarrow> (string, Task) hmap" where
  "task_map ts = fold (\<lambda>t m. hput (t_package t) t m) (filter (\<lambda>t. \<not> t_is_root t) ts) []"

definition compute_task_levels :: "toposort \<Rightarrow> WorkspaceDag \<Rightarrow> Task list \<Rightarrow> Task list list option" where
  "compute_task_levels ts g tasks =
     (case topological_sort ts g of Inl _ \<Rightarrow> None
      | Inr order \<Rightarrow>
         (let levels = map (sort_key t_package)
                (snd (fold (level_step (g_packages g) (task_map tasks)) order ([], [])));
              roots = filter t_is_root tasks in
          Some (if roots = [] then levels else sort_key t_package roots # levels)))"

section \<open>Awaiting dependencies\<close>

datatype DepState = DPending | DDone | DFailed

text \<open>A watch channel: its last value, and whether its sender is gone.\<close>

record Chan =
  ch_value :: DepState
  ch_closed :: bool

datatype Await = Blocked | AnyFailed | AllDone

fun await_deps :: "Chan list \<Rightarrow> Await" where
  "await_deps [] = AllDone"
| "await_deps (c # cs) = (case ch_value c of
      DFailed \<Rightarrow> AnyFailed
    | DDone \<Rightarrow> await_deps cs
    | DPending \<Rightarrow> if ch_closed c then AnyFailed else Blocked)"

lemma await_deps_done: "await_deps cs = AllDone \<Longrightarrow> c \<in> set cs \<Longrightarrow> ch_value c = DDone"
  by (induction cs) (auto split: DepState.splits if_splits)

lemma await_deps_failed:
  "await_deps cs = AnyFailed \<Longrightarrow> \<exists>c\<in>set cs. ch_value c = DFailed \<or> (ch_value c = DPending \<and> ch_closed c)"
  by (induction cs) (auto split: DepState.splits if_splits)

lemma await_deps_blocked:
  "await_deps cs = Blocked \<Longrightarrow> \<exists>c\<in>set cs. ch_value c = DPending \<and> \<not> ch_closed c"
  by (induction cs) (auto split: DepState.splits if_splits)

section \<open>Continuous execution\<close>

datatype RunError = TaskFailed string int | Killed | Spawn string | Skipped string

datatype Phase = Waiting | Running | Finished "RunError option" | Aborted | Joined

record Sched =
  sc_phase :: "string \<Rightarrow> Phase"
  sc_chan :: "string \<Rightarrow> Chan"
  sc_error :: "RunError option"
  sc_abort :: bool

definition sched_init :: Sched where
  "sched_init = \<lparr>sc_phase = (\<lambda>_. Waiting), sc_chan = (\<lambda>_. \<lparr>ch_value = DPending, ch_closed = False\<rparr>),
     sc_error = None, sc_abort = False\<rparr>"

text \<open>The receivers of a task: the channels of those of its dependencies that run too.\<close>

definition dep_chans :: "Task list \<Rightarrow> Sched \<Rightarrow> Task \<Rightarrow> Chan list" where
  "dep_chans ts s t = map (sc_chan s) (filter (\<lambda>d. d \<in> t_package ` set ts) (t_dep_packages t))"

definition publish :: "string \<Rightarrow> DepState \<Rightarrow> Sched \<Rightarrow> Sched" where
  "publish p v s = s\<lparr>sc_chan := (sc_chan s)(p := \<lparr>ch_value = v, ch_closed = True\<rparr>)\<rparr>"

definition set_phase :: "string \<Rightarrow> Phase \<Rightarrow> Sched \<Rightarrow> Sched" where
  "set_phase p ph s = s\<lparr>sc_phase := (sc_phase s)(p := ph)\<rparr>"

definition start_task :: "Task \<Rightarrow> Sched \<Rightarrow> Sched" where
  "start_task t s = set_phase (t_package t) Running s"

definition skip_task :: "Task \<Rightarrow> Sched \<Rightarrow> Sched" where
  "skip_task t s = set_phase (t_package t) (Finished (Some (Skipped (t_package t))))
     (publish (t_package t) DFailed s)"

definition finish_task :: "Task \<Rightarrow> RunError option \<Rightarrow> Sched \<Rightarrow> Sched" where
  "finish_task t r s = set_phase (t_package t) (Finished r)
     (publish (t_package t) (case r of None \<Rightarrow> DDone | Some _ \<Rightarrow> DFailed) s)"

text \<open>Cancelling a task drops its sender without a value.\<close>

definition cancel_task :: "Task \<Rightarrow> Sched \<Rightarrow> Sched" where
  "cancel_task t s = set_phase (t_package t) Aborted
     (publish (t_package t) (ch_value (sc_chan s (t_package t))) s)"

definition join_task :: "Task \<Rightarrow> Sched \<Rightarrow> Sched" where
  "join_task t s = (case sc_phase s (t_package t) of
      Finished None \<Rightarrow> set_phase (t_package t) Joined s
    | Finished (Some e) \<Rightarrow>
        (set_phase (t_package t) Joined s)\<lparr>sc_error := (case sc_error s of None \<Rightarrow> Some e | Some e' \<Rightarrow> Some e'),
                                           sc_abort := True\<rparr>
    | Aborted \<Rightarrow>
        (set_phase (t_package t) Joined s)\<lparr>sc_error := (case sc_error s of None \<Rightarrow> Some Killed | Some e' \<Rightarrow> Some e')\<rparr>
    | _ \<Rightarrow> s)"

text \<open>What running a task may yield is the relation \<^verbatim>\<open>outcome\<close> (None is success): the exit of the
  command is not in the scheduler's hands.\<close>

inductive sched_step :: "Task list \<Rightarrow> (Task \<Rightarrow> RunError option \<Rightarrow> bool) \<Rightarrow> Sched \<Rightarrow> Sched \<Rightarrow> bool"
  for ts outcome where
  step_start: "t \<in> set ts \<Longrightarrow> sc_phase s (t_package t) = Waiting \<Longrightarrow>
    await_deps (dep_chans ts s t) = AllDone \<Longrightarrow> sched_step ts outcome s (start_task t s)"
| step_skip: "t \<in> set ts \<Longrightarrow> sc_phase s (t_package t) = Waiting \<Longrightarrow>
    await_deps (dep_chans ts s t) = AnyFailed \<Longrightarrow> sched_step ts outcome s (skip_task t s)"
| step_finish: "t \<in> set ts \<Longrightarrow> sc_phase s (t_package t) = Running \<Longrightarrow> outcome t r \<Longrightarrow>
    sched_step ts outcome s (finish_task t r s)"
| step_cancel: "t \<in> set ts \<Longrightarrow> sc_abort s \<Longrightarrow> sc_phase s (t_package t) \<in> {Waiting, Running} \<Longrightarrow>
    sched_step ts outcome s (cancel_task t s)"
| step_join: "t \<in> set ts \<Longrightarrow> (\<exists>r. sc_phase s (t_package t) = Finished r) \<or> sc_phase s (t_package t) = Aborted \<Longrightarrow>
    sched_step ts outcome s (join_task t s)"

inductive_cases sched_stepE: "sched_step ts outcome s s'"

inductive sched_run :: "Task list \<Rightarrow> (Task \<Rightarrow> RunError option \<Rightarrow> bool) \<Rightarrow> nat \<Rightarrow> Sched \<Rightarrow> bool"
  for ts outcome where
  run_init: "sched_run ts outcome 0 sched_init"
| run_step: "sched_run ts outcome n s \<Longrightarrow> sched_step ts outcome s s' \<Longrightarrow> sched_run ts outcome (Suc n) s'"

definition all_joined :: "Task list \<Rightarrow> Sched \<Rightarrow> bool" where
  "all_joined ts s \<longleftrightarrow> (\<forall>t\<in>set ts. sc_phase s (t_package t) = Joined)"

text \<open>The result of the run once the JoinSet is empty.\<close>

definition run_result :: "Sched \<Rightarrow> RunError + unit" where
  "run_result s = (case sc_error s of Some e \<Rightarrow> Inl e | None \<Rightarrow> Inr ())"

end
