(* ===== verification/Run_Task.thy ===== *)
theory Run_Task
  imports Two_Phase Task_Stats Node_Path Scheduler
begin

text \<open>
  One package task (src/crates/scheduler/src/runner.rs): the single-phase \<^verbatim>\<open>run_single_task\<close> over any cache
  provider, and \<^verbatim>\<open>run_single_task_two_phase\<close> with its lookup, admission, execution, interface fingerprint
  and recording.  What runs the command is a parameter that may change any file; the order of the
  steps, and at which state of the files each of them looks, is the code's.  A run returns its result, the
  files and the list of what it did; jobs it leaves to the background are only listed.
\<close>

section \<open>Outputs and interface fingerprints\<close>

definition OUTPUT_SKIP_DIRS :: "string list" where
  "OUTPUT_SKIP_DIRS = [''node_modules'', ''target'', ''.git'']"

definition resolve_output_globs :: "Libs \<Rightarrow> files \<Rightarrow> string \<Rightarrow> string list \<Rightarrow> string list" where
  "resolve_output_globs L fs cwd globs =
     (if globs = [] then []
      else map we_path (filter (\<lambda>e. we_file e \<and>
        (case path_strip_prefix (we_path e) cwd of None \<Rightarrow> False
         | Some rel \<Rightarrow> list_ex (\<lambda>g. output_glob_matches g rel) globs))
        (l_walk L fs cwd (not_skipped OUTPUT_SKIP_DIRS))))"

definition is_declaration :: "string \<Rightarrow> bool" where
  "is_declaration p = (ends_with ''.d.ts'' p \<or> ends_with ''.d.cts'' p \<or> ends_with ''.d.mts'' p)"

definition compute_abi_fingerprint_from_outputs :: "Libs \<Rightarrow> files \<Rightarrow> string list \<Rightarrow> string option" where
  "compute_abi_fingerprint_from_outputs L fs paths =
     (let dts = sort_key path_key (filter is_declaration paths) in
      if dts = [] then None
      else Some (hex_hash L (concat (map (\<lambda>p. p @ (case read_file fs p of None \<Rightarrow> [] | Some c \<Rightarrow> c)) dts))))"

section \<open>Install markers\<close>

text \<open>A directory entry: its name and its modification time, None when that cannot be read, which ends the search.\<close>

fun latest_marker :: "(string \<times> nat option) list \<Rightarrow> (nat \<times> string) option \<Rightarrow> string option" where
  "latest_marker [] best = map_option snd best"
| "latest_marker ((name, mtime) # es) best =
    (case Option.bind (strip_pre ''root-'' name) (strip_suf ''.done'') of
       None \<Rightarrow> latest_marker es best
     | Some fp \<Rightarrow> (case mtime of None \<Rightarrow> None
         | Some m \<Rightarrow> latest_marker es
             (case best of None \<Rightarrow> Some (m, fp)
              | Some (old, b) \<Rightarrow> if old < m then Some (m, fp) else Some (old, b))))"

definition find_latest_install_fingerprint :: "(string \<times> nat option) list option \<Rightarrow> string option" where
  "find_latest_install_fingerprint entries = Option.bind entries (\<lambda>es. latest_marker es None)"

section \<open>The environment of a run\<close>

text \<open>Running a command: its working directory, PATH and the files as it finds them; None is a failure to
  spawn (or, in the sandbox, a sandbox that is not available).\<close>

record ProcResult =
  pr_code :: int
  pr_stdout :: string
  pr_stderr :: string
  pr_peak :: "64 word"
  pr_reads :: "string list"
  pr_writes :: "string list"

type_synonym runner = "string \<Rightarrow> string \<Rightarrow> string \<Rightarrow> files \<Rightarrow> ProcResult option \<times> files"

record RunEnv =
  e_libs :: Libs
  e_cache :: Cache
  e_stats :: "TaskStats codec"
  e_host :: "files \<Rightarrow> Host"
  e_listing :: "files \<Rightarrow> (string \<times> nat option) list option"
  e_spawn :: runner
  e_sandbox :: runner
  e_now :: "64 word"
  e_elapsed :: "64 word"

datatype RunEvent =
    SnapshotJob
  | CaptureJob "string list" string
  | Replayed TaskOutput
  | Admitted "64 word option"
  | Spawned string
  | SpawnedSandboxed string
  | Stored WeakFpInputs files StoredPathset string

definition task_inputs :: "RunEnv \<Rightarrow> Task \<Rightarrow> files \<Rightarrow> WeakFpInputs" where
  "task_inputs E t fs =
    \<lparr>wi_command = t_command t,
     wi_tool_path = (case which_first (e_host E fs) (t_command t) (t_cwd t) (t_workspace_root t) of
        None \<Rightarrow> ''sh'' | Some p \<Rightarrow> p),
     wi_package_path = t_cwd t,
     wi_input_globs = t_declared_input_globs t,
     wi_env = [],
     wi_dep_abi = List.map_filter (\<lambda>d. map_option (\<lambda>fp. (d, fp)) (get_pkg_abi_fp (e_cache E) fs d)) (t_dep_packages t)\<rparr>"

definition task_path :: "RunEnv \<Rightarrow> Task \<Rightarrow> files \<Rightarrow> string" where
  "task_path E t fs = build_node_path (e_host E fs) (t_cwd t) (t_workspace_root t)
     (case h_env (e_host E fs) ''PATH'' of None \<Rightarrow> [] | Some p \<Rightarrow> p)"

definition capture_job :: "RunEnv \<Rightarrow> files \<Rightarrow> string list \<Rightarrow> RunEvent list" where
  "capture_job E fs reads = (if reads = [] then []
     else (case find_latest_install_fingerprint (e_listing E fs) of None \<Rightarrow> [] | Some fp \<Rightarrow> [CaptureJob reads fp]))"

definition save_stats :: "RunEnv \<Rightarrow> string \<Rightarrow> 64 word \<Rightarrow> files \<Rightarrow> files" where
  "save_stats E w peak fs =
     (if w = [] then fs
      else (case stats_save (e_stats E) (c_writable (e_cache E)) fs (c_dir (e_cache E)) w
              (stats_record peak (stats_load (e_stats E) fs (c_dir (e_cache E)) w)) of
          None \<Rightarrow> fs | Some fs' \<Rightarrow> fs'))"

section \<open>Running a task, two-phase\<close>

definition no_pathset :: StoredPathset where
  "no_pathset = \<lparr>ps_reads = [], ps_writes = []\<rparr>"

text \<open>The execution by sandbox mode: exit code, pathset and captured output, or None when the command could not
  be spawned.  A sandbox that is not available falls back to running the command without one.\<close>

definition run_command :: "RunEnv \<Rightarrow> Task \<Rightarrow> string \<Rightarrow> files \<Rightarrow>
    (int \<times> StoredPathset \<times> string \<times> string) option \<times> files \<times> RunEvent list" where
  "run_command E t w fs =
     (case t_sandbox t of
        Loose \<Rightarrow>
          (case e_spawn E (t_command t) (t_cwd t) (task_path E t fs) fs of
             (None, fs1) \<Rightarrow> (None, fs1, [Spawned (task_path E t fs)])
           | (Some r, fs1) \<Rightarrow>
               (Some (pr_code r, no_pathset, pr_stdout r, pr_stderr r), save_stats E w (pr_peak r) fs1,
                [Spawned (task_path E t fs)]))
      | _ \<Rightarrow>
          (case e_sandbox E (t_command t) (t_cwd t) (task_path E t fs) fs of
             (Some r, fs1) \<Rightarrow>
               (Some (pr_code r, \<lparr>ps_reads = pr_reads r, ps_writes = pr_writes r\<rparr>, [], []), fs1,
                [SpawnedSandboxed (task_path E t fs)])
           | (None, fs1) \<Rightarrow>
               (case e_spawn E (t_command t) (t_cwd t) (task_path E t fs1) fs1 of
                  (None, fs2) \<Rightarrow> (None, fs2, [SpawnedSandboxed (task_path E t fs), Spawned (task_path E t fs1)])
                | (Some r, fs2) \<Rightarrow>
                    (Some (pr_code r, no_pathset, pr_stdout r, pr_stderr r), fs2,
                     [SpawnedSandboxed (task_path E t fs), Spawned (task_path E t fs1)]))))"

text \<open>After an exit with 0: the interface fingerprint, the cache entry and the captured output.\<close>

definition record_success :: "RunEnv \<Rightarrow> Task \<Rightarrow> WeakFpInputs \<Rightarrow> StoredPathset \<Rightarrow> string \<Rightarrow> string \<Rightarrow> files \<Rightarrow> files \<times> RunEvent list" where
  "record_success E t i ps out err fs =
     (let C = e_cache E; L = e_libs E;
          outputs = resolve_output_globs L fs (t_cwd t) (t_output_globs t);
          abi = (if outputs = [] then None else compute_abi_fingerprint_from_outputs L fs outputs);
          fs1 = (case abi of None \<Rightarrow> fs | Some fp \<Rightarrow> set_pkg_abi_fp C fs (t_package t) fp);
          entry = \<lparr>ce_fingerprint = [], ce_command = t_command t, ce_exit_code = 0, ce_elapsed_ms = e_elapsed E,
                   ce_cached_at = e_now E, ce_pathset_reads = [], ce_abi = abi\<rparr> in
      case record_run L C fs1 i ps entry of
        (None, fs2) \<Rightarrow> (fs2, capture_job E fs2 (ps_reads ps))
      | (Some sf, fs2) \<Rightarrow>
          (let fs3 = write_output C fs2 sf \<lparr>to_stdout = out, to_stderr = err, to_exit_code = 0\<rparr> in
           (fs3, Stored i fs1 ps sf # capture_job E fs3 (ps_reads ps))))"

definition run_single_task_two_phase :: "RunEnv \<Rightarrow> Task \<Rightarrow> files \<Rightarrow> (RunError + unit) \<times> files \<times> RunEvent list" where
  "run_single_task_two_phase E t fs =
     (let C = e_cache E; L = e_libs E; i = task_inputs E t fs; w = compute_weak_fingerprint L fs i in
      case lookup_with_pathset_reads L C fs i of
        Some (sf, entry, reads) \<Rightarrow>
          (Inr (), fs, SnapshotJob # capture_job E fs reads @
             (case read_output C fs sf of None \<Rightarrow> [] | Some out \<Rightarrow> [Replayed out]))
      | None \<Rightarrow>
          (let est = estimate_bytes (stats_load (e_stats E) fs (c_dir C) w);
               (r, fs1, ev1) = run_command E t w fs;
               evs = SnapshotJob # Admitted est # ev1 in
           case r of
             None \<Rightarrow> (Inl (Spawn (t_package t)), fs1, evs)
           | Some (code, ps, out, err) \<Rightarrow>
               if code = 0 then
                 (let (fs2, stored) = record_success E t i ps out err fs1 in (Inr (), fs2, evs @ stored))
               else (Inl (TaskFailed (t_package t) code), fs1, evs)))"

section \<open>Running a task, single-phase\<close>

text \<open>The provider's operations are arguments; without a cache they are None.  The command's effect is the
  exit code, or None when it could not be spawned; the result says whether it ran.\<close>

definition run_single_task ::
    "('s \<Rightarrow> string \<Rightarrow> CacheEntry option \<times> 's) \<Rightarrow> ('s \<Rightarrow> string \<Rightarrow> CacheEntry \<Rightarrow> bool \<times> 's) \<Rightarrow> Task \<Rightarrow> string \<Rightarrow> int option \<Rightarrow>
     64 word \<Rightarrow> 64 word \<Rightarrow> 's \<Rightarrow> (RunError + bool) \<times> 's" where
  "run_single_task get put t fp code elapsed now s =
     (case get s fp of
        (Some _, s1) \<Rightarrow> (Inr False, s1)
      | (None, s1) \<Rightarrow>
          (case code of
             None \<Rightarrow> (Inl (Spawn (t_package t)), s1)
           | Some c \<Rightarrow>
               if c = 0 then
                 (Inr True, snd (put s1 fp \<lparr>ce_fingerprint = fp, ce_command = t_command t, ce_exit_code = 0,
                    ce_elapsed_ms = elapsed, ce_cached_at = now, ce_pathset_reads = [], ce_abi = None\<rparr>))
               else (Inl (TaskFailed (t_package t) c), s1)))"

section \<open>Single-phase runs over any provider\<close>

context cache_provider
begin

text \<open>A stored success is found by every later run with the same key, whatever else is run in between.\<close>

lemma run_keeps:
  assumes "ok s" "key_ok k" "key_ok fp" "fst (get s k) = Some e"
  shows "fst (get (snd (run_single_task get put t fp code el now s)) k) \<noteq> None \<and>
    ok (snd (run_single_task get put t fp code el now s))"
proof -
  obtain r s1 where g: "get s fp = (r, s1)" by (cases "get s fp")
  then have k1: "fst (get s1 k) = Some e" and ok1: "ok s1"
    using get_get[OF assms(1,2,3,4)] get_ok[OF assms(1), of fp] by simp_all
  let ?e = "\<lparr>ce_fingerprint = fp, ce_command = t_command t, ce_exit_code = 0,
     ce_elapsed_ms = el, ce_cached_at = now, ce_pathset_reads = [], ce_abi = None\<rparr>"
  have put1: "fst (get (snd (put s1 fp ?e)) k) = Some e" if "fp \<noteq> k"
    using get_put_other[OF ok1 assms(3,2) _ k1] that by simp
  show ?thesis
  proof (cases "r = None \<and> code = Some 0")
    case True
    then have "fp \<noteq> k" using g assms(4) by auto
    then show ?thesis using True g put1 put_ok[OF ok1] by (simp add: run_single_task_def)
  next
    case False
    then show ?thesis using g k1 ok1
      by (cases r; cases code) (auto simp: run_single_task_def)
  qed
qed

lemma runs_keep:
  assumes "ok s" "key_ok k" "\<forall>r\<in>set rs. key_ok (fst (snd r))" "fst (get s k) \<noteq> None"
  shows "fst (get (fold (\<lambda>(t, fp, code, el, now) s. snd (run_single_task get put t fp code el now s)) rs s) k) \<noteq> None"
  using assms
proof (induction rs arbitrary: s)
  case (Cons r rs)
  obtain t fp code el now where r: "r = (t, fp, code, el, now)" by (cases r)
  obtain e where "fst (get s k) = Some e" using Cons.prems(4) by auto
  with run_keeps[of s k fp e t code el now] Cons.prems r
  have "fst (get (snd (run_single_task get put t fp code el now s)) k) \<noteq> None"
    "ok (snd (run_single_task get put t fp code el now s))" by auto
  then show ?case using Cons.IH Cons.prems r by simp
qed simp

lemma run_skips:
  assumes "fst (get s fp) \<noteq> None"
  shows "fst (run_single_task get put t fp code el now s) = Inr False"
  using assms by (cases "get s fp") (auto simp: run_single_task_def)

end

section \<open>Two-phase runs\<close>

text \<open>What a run executed, if it executed.\<close>

fun is_execution :: "RunEvent \<Rightarrow> bool" where
  "is_execution (Spawned _) = True"
| "is_execution (SpawnedSandboxed _) = True"
| "is_execution _ = False"

definition executed :: "RunEvent list \<Rightarrow> bool" where
  "executed evs = list_ex is_execution evs"

lemma capture_job_shape: "list_all (\<lambda>e. \<not> is_execution e \<and> (\<forall>i f p s. e \<noteq> Stored i f p s)) (capture_job E fs reads)"
  by (simp add: capture_job_def split: option.splits)

lemma capture_job_not_stored: "Stored i f p s \<notin> set (capture_job E fs reads)"
  by (simp add: capture_job_def split: option.splits)

lemma capture_job_no_execution [simp]: "list_ex is_execution (capture_job E fs reads) = False"
  by (simp add: capture_job_def split: option.splits)

lemma run_command_events: "run_command E t w fs = (r, fs', ev1) \<Longrightarrow> executed ev1 \<and> (\<forall>i f p s. Stored i f p s \<notin> set ev1)"
  by (auto simp: run_command_def executed_def split: SandboxMode.splits prod.splits option.splits)

lemma run_hit:
  assumes "lookup_with_pathset_reads (e_libs E) (e_cache E) fs (task_inputs E t fs) = Some (sf, entry, reads)"
  shows "run_single_task_two_phase E t fs = (Inr (), fs, SnapshotJob # capture_job E fs reads @
    (case read_output (e_cache E) fs sf of None \<Rightarrow> [] | Some out \<Rightarrow> [Replayed out]))"
  using assms by (simp add: run_single_task_two_phase_def Let_def)

lemma run_miss:
  assumes "lookup_with_pathset_reads (e_libs E) (e_cache E) fs (task_inputs E t fs) = None"
  obtains est r fs1 ev1 where
    "run_command E t (compute_weak_fingerprint (e_libs E) fs (task_inputs E t fs)) fs = (r, fs1, ev1)"
    "run_single_task_two_phase E t fs = (case r of
        None \<Rightarrow> (Inl (Spawn (t_package t)), fs1, SnapshotJob # Admitted est # ev1)
      | Some (code, ps, out, err) \<Rightarrow>
          if code = 0 then
            (let (fs2, stored) = record_success E t (task_inputs E t fs) ps out err fs1 in
             (Inr (), fs2, SnapshotJob # Admitted est # ev1 @ stored))
          else (Inl (TaskFailed (t_package t) code), fs1, SnapshotJob # Admitted est # ev1))"
proof -
  let ?w = "compute_weak_fingerprint (e_libs E) fs (task_inputs E t fs)"
  obtain r fs1 ev1 where r: "run_command E t ?w fs = (r, fs1, ev1)" by (cases "run_command E t ?w fs")
  show thesis
    by (rule that[OF r, of "estimate_bytes (stats_load (e_stats E) fs (c_dir (e_cache E)) ?w)"])
      (use assms r in \<open>simp add: run_single_task_two_phase_def Let_def split: option.split prod.split\<close>)
qed

lemma record_success_stored:
  assumes "record_success E t i ps out err fs = (fs', evs)" "Stored i' fs1 ps' sf \<in> set evs"
  obtains entry fs2 where "i' = i" "ps' = ps" "record_run (e_libs E) (e_cache E) fs1 i ps entry = (Some sf, fs2)"
    "fs' = write_output (e_cache E) fs2 sf \<lparr>to_stdout = out, to_stderr = err, to_exit_code = 0\<rparr>"
  using assms by (auto simp: record_success_def Let_def capture_job_not_stored split: prod.splits option.splits)

lemma write_output_other: "\<forall>s. p \<noteq> output_path C s \<Longrightarrow> write_output C fs sf out p = fs p"
  by (auto simp: write_output_def write_ignored_def write_file_def split: option.splits)

lemma run_stored:
  assumes "run_single_task_two_phase E t fs = (r, fs', evs)" "Stored i fs1 ps sf \<in> set evs"
  obtains entry fs2 out where "record_run (e_libs E) (e_cache E) fs1 i ps entry = (Some sf, fs2)"
    "fs' = write_output (e_cache E) fs2 sf out" "i = task_inputs E t fs"
proof (cases "lookup_with_pathset_reads (e_libs E) (e_cache E) fs (task_inputs E t fs)")
  case None
  obtain est x fsx ev1 where c: "run_command E t (compute_weak_fingerprint (e_libs E) fs (task_inputs E t fs)) fs = (x, fsx, ev1)"
    and run: "run_single_task_two_phase E t fs = (case x of
        None \<Rightarrow> (Inl (Spawn (t_package t)), fsx, SnapshotJob # Admitted est # ev1)
      | Some (code, ps, out, err) \<Rightarrow>
          if code = 0 then
            (let (fs2, stored) = record_success E t (task_inputs E t fs) ps out err fsx in
             (Inr (), fs2, SnapshotJob # Admitted est # ev1 @ stored))
          else (Inl (TaskFailed (t_package t) code), fsx, SnapshotJob # Admitted est # ev1))"
    by (rule run_miss[OF None])
  have not_ran: "Stored i fs1 ps sf \<notin> set ev1" using run_command_events[OF c] by blast
  obtain code q out err where x: "x = Some (code, q, out, err)"
    using run assms not_ran by (cases x) auto
  obtain fs2 stored where rs: "record_success E t (task_inputs E t fs) q out err fsx = (fs2, stored)"
    by (cases "record_success E t (task_inputs E t fs) q out err fsx")
  have "code = 0" "fs2 = fs'" "Stored i fs1 ps sf \<in> set stored"
    using run assms not_ran x rs by (auto split: if_splits)
  then show thesis using record_success_stored[OF rs] that by (metis (no_types))
next
  case (Some h)
  then show thesis using assms run_hit
    by (cases h) (auto simp: capture_job_not_stored split: option.splits)
qed

section \<open>Properties\<close>


text \<open>C15. A successful run that stored its result is not executed again: in any later state whose cache files
  are as the run left them, and whose weak fingerprint and recorded reads are those at the time it was
  recorded, which is after the command has run, the task succeeds without executing anything.\<close>

theorem successful_run_is_cached:
  assumes "cache_codecs_ok (e_cache E)"
    and "run_single_task_two_phase E t fs = (r, fs', evs)" and "Stored i fs1 ps sf \<in> set evs"
    and "\<forall>p. cache_path (e_cache E) p \<longrightarrow> fs2 p = fs' p"
    and "compute_weak_fingerprint (e_libs E) fs2 (task_inputs E t fs2) = compute_weak_fingerprint (e_libs E) fs1 i"
    and "compute_strong_fingerprint (e_libs E) fs2 (compute_weak_fingerprint (e_libs E) fs1 i) (ps_reads ps) = sf"
    and "\<forall>q\<in>set (pathsets_list (e_cache E) fs1 (compute_weak_fingerprint (e_libs E) fs1 i)). same_pathset q ps \<longrightarrow> q = ps"
  shows "\<exists>evs2. run_single_task_two_phase E t fs2 = (Inr (), fs2, evs2) \<and> \<not> executed evs2"
proof -
  let ?C = "e_cache E"
  obtain entry fs3 out where rec: "record_run (e_libs E) ?C fs1 i ps entry = (Some sf, fs3)"
    and out: "fs' = write_output ?C fs3 sf out"
    using run_stored[OF assms(2,3)] by blast
  have "fs2 p = fs3 p" if "cache_path ?C p" for p
  proof -
    have "\<forall>s. p \<noteq> output_path ?C s" using that unfolding cache_path_def by (elim disjE exE) simp_all
    then show ?thesis using assms(4) that out write_output_other by simp
  qed
  then have "lookup_with_pathset_reads (e_libs E) ?C fs2 (task_inputs E t fs2) \<noteq> None"
    using cache_hit_complete[OF assms(1) rec _ assms(5,6,7)] by blast
  then obtain sf' e' reads where "lookup_with_pathset_reads (e_libs E) ?C fs2 (task_inputs E t fs2) = Some (sf', e', reads)"
    by (metis not_Some_eq surj_pair)
  then show ?thesis
    using run_hit by (auto simp: executed_def split: option.splits)
qed

text \<open>An environment in which a declared input, \<^verbatim>\<open>/p/a\<close>, is edited from 1 to 2 while the command runs.\<close>

definition ex_run_libs :: Libs where
  "ex_run_libs = \<lparr>l_hash = (\<lambda>m. take 3 (rev m)), l_walk = (\<lambda>_ _ _. [ex_fp_entry ''a'']),
     l_glob_ok = (\<lambda>_. True), l_globset = (\<lambda>_. Some (\<lambda>_. True))\<rparr>"

definition ex_run_sf :: string where
  "ex_run_sf = to_hex (take 3 (rev (''wf:'' @ to_hex (newline # ''23'') @ [newline])))"

definition ex_run_env :: RunEnv where
  "ex_run_env = \<lparr>e_libs = ex_run_libs,
     e_cache = \<lparr>c_dir = ''/c'', c_pathsets = ex_one_codec [no_pathset],
       c_entries = ex_one_codec \<lparr>ce_fingerprint = ex_run_sf, ce_command = ''make'', ce_exit_code = 0, ce_elapsed_ms = 5,
         ce_cached_at = 7, ce_pathset_reads = [], ce_abi = None\<rparr>,
       c_outputs = ex_one_codec \<lparr>to_stdout = ''ok'', to_stderr = [], to_exit_code = 0\<rparr>, c_writable = (\<lambda>_. True)\<rparr>,
     e_stats = \<lparr>enc = (\<lambda>_. None), dec = (\<lambda>_. None)\<rparr>,
     e_host = (\<lambda>fs. \<lparr>h_files = fs, h_is_dir = (\<lambda>_. False), h_read_dir = (\<lambda>_. None), h_env = (\<lambda>_. None)\<rparr>),
     e_listing = (\<lambda>_. None),
     e_spawn = (\<lambda>_ _ _ fs. (Some \<lparr>pr_code = 0, pr_stdout = ''ok'', pr_stderr = [], pr_peak = 1, pr_reads = [], pr_writes = []\<rparr>,
       fs(''/p/a'' \<mapsto> Readable ''2''))),
     e_sandbox = (\<lambda>_ _ _ fs. (None, fs)), e_now = 7, e_elapsed = 5\<rparr>"

definition ex_run_task :: Task where
  "ex_run_task = \<lparr>t_package = ''p'', t_script = ''build'', t_command = ''make'', t_cwd = ''/p'', t_sandbox = Loose,
     t_is_root = False, t_input_paths = [], t_workspace_root = ''/p'', t_declared_input_globs = [''*''],
     t_dep_packages = [], t_output_globs = [], t_env_hash_inputs = []\<rparr>"

definition ex_run_before :: files where
  "ex_run_before = [''/p/a'' \<mapsto> Readable ''1'']"

definition ex_run_after :: files where
  "ex_run_after = fst (snd (run_single_task_two_phase ex_run_env ex_run_task ex_run_before))"

definition ex_run_events :: "RunEvent list" where
  "ex_run_events = snd (snd (run_single_task_two_phase ex_run_env ex_run_task ex_run_before))"

fun stored_parts :: "RunEvent list \<Rightarrow> (WeakFpInputs \<times> files \<times> StoredPathset \<times> string) list" where
  "stored_parts [] = []"
| "stored_parts (Stored i f p s # evs) = (i, f, p, s) # stored_parts evs"
| "stored_parts (_ # evs) = stored_parts evs"

lemma stored_parts_in: "(i, f, p, s) \<in> set (stored_parts evs) \<Longrightarrow> Stored i f p s \<in> set evs"
  by (induction evs rule: stored_parts.induct) auto

definition ex_run_stored :: "WeakFpInputs \<times> files \<times> StoredPathset \<times> string" where
  "ex_run_stored = hd (stored_parts ex_run_events)"

theorem successful_run_is_cached_witness:
  "(\<exists>evs2. run_single_task_two_phase ex_run_env ex_run_task ex_run_after = (Inr (), ex_run_after, evs2) \<and> \<not> executed evs2) \<and>
   executed ex_run_events \<and>
   read_file ex_run_before ''/p/a'' = Some ''1'' \<and> read_file ex_run_after ''/p/a'' = Some ''2''"
proof -
  obtain i f p s where st: "ex_run_stored = (i, f, p, s)" by (cases ex_run_stored)
  have one: "length (stored_parts ex_run_events) = 1" by code_simp
  then have "ex_run_stored \<in> set (stored_parts ex_run_events)"
    unfolding ex_run_stored_def by (cases "stored_parts ex_run_events") auto
  then have mem: "Stored i f p s \<in> set ex_run_events" unfolding st by (rule stored_parts_in)
  have run: "run_single_task_two_phase ex_run_env ex_run_task ex_run_before =
      (fst (run_single_task_two_phase ex_run_env ex_run_task ex_run_before), ex_run_after, ex_run_events)"
    by (simp add: ex_run_after_def ex_run_events_def)
  have ok: "cache_codecs_ok (e_cache ex_run_env)"
    by (simp add: cache_codecs_ok_def ex_run_env_def ex_one_codec_ok)
  have w: "case ex_run_stored of (i, f, p, s) \<Rightarrow>
      compute_weak_fingerprint (e_libs ex_run_env) ex_run_after (task_inputs ex_run_env ex_run_task ex_run_after) =
        compute_weak_fingerprint (e_libs ex_run_env) f i \<and>
      compute_strong_fingerprint (e_libs ex_run_env) ex_run_after (compute_weak_fingerprint (e_libs ex_run_env) f i) (ps_reads p) = s \<and>
      pathsets_list (e_cache ex_run_env) f (compute_weak_fingerprint (e_libs ex_run_env) f i) = []"
    by code_simp
  have "executed ex_run_events" by code_simp
  moreover have "read_file ex_run_before ''/p/a'' = Some ''1''" "read_file ex_run_after ''/p/a'' = Some ''2''"
    by code_simp+
  moreover have "\<exists>evs2. run_single_task_two_phase ex_run_env ex_run_task ex_run_after = (Inr (), ex_run_after, evs2) \<and> \<not> executed evs2"
    by (rule successful_run_is_cached[OF ok run mem]) (use w[unfolded st prod.case] in simp_all)
  ultimately show ?thesis by blast
qed

text \<open>A sequence of single-phase runs of any tasks.\<close>

definition single_runs ::
    "('s \<Rightarrow> string \<Rightarrow> CacheEntry option \<times> 's) \<Rightarrow> ('s \<Rightarrow> string \<Rightarrow> CacheEntry \<Rightarrow> bool \<times> 's) \<Rightarrow>
     (Task \<times> string \<times> int option \<times> 64 word \<times> 64 word) list \<Rightarrow> 's \<Rightarrow> 's" where
  "single_runs get put rs s = fold (\<lambda>(t, fp, code, el, now) s. snd (run_single_task get put t fp code el now s)) rs s"

text \<open>With the single-phase cache, local or remote (S3, Azure), a task whose entry the cache finds is not
  run, and it is still found after any further runs, whose keys and outcomes do not matter and whose
  writes, downloads and uploads may fail.\<close>

theorem single_phase_hit_lasts:
  assumes "digest_key fp" and "\<forall>r\<in>set rs. digest_key (fst (snd r))"
    and "lc_ok l" and "lc_find l fp \<noteq> None" and "rc_ok s" and "rc_find s fp \<noteq> None"
  shows "fst (run_single_task lc_get lc_put t fp code el now (single_runs lc_get lc_put rs l)) = Inr False \<and>
    fst (run_single_task rc_get rc_put t fp code el now (single_runs rc_get rc_put rs s)) = Inr False"
proof
  have "fst (lc_get l fp) \<noteq> None" using assms(4) by (simp add: lc_get_def)
  then show "fst (run_single_task lc_get lc_put t fp code el now (single_runs lc_get lc_put rs l)) = Inr False"
    unfolding single_runs_def
    by (rule local_cache.run_skips[OF local_cache.runs_keep[OF assms(3,1,2)]])
  have "fst (rc_get s fp) \<noteq> None" using assms(6) by (simp add: rc_get_find)
  then show "fst (run_single_task rc_get rc_put t fp code el now (single_runs rc_get rc_put rs s)) = Inr False"
    unfolding single_runs_def
    by (rule remote_cache.run_skips[OF remote_cache.runs_keep[OF assms(5,1,2)]])
qed

definition ex_lc :: LocalCache where
  "ex_lc = \<lparr>lc_codec = ex_one_codec (ex_tp_entry ''ab''), lc_writable = (\<lambda>_. True), lc_dir = ''/c'',
     lc_files = [''/c/ab.json'' \<mapsto> Readable ''1'']\<rparr>"

definition ex_rc :: RemoteCache where
  "ex_rc = \<lparr>rc_local = ex_lc\<lparr>lc_files := (\<lambda>_. None)\<rparr>, rc_codec = ex_one_codec (ex_tp_entry ''ab''), rc_prefix = ''x/'',
     rc_objects = [''x/ab.json'' \<mapsto> ''1''], rc_online = (\<lambda>_. True), rc_runtime = True, rc_pending = []\<rparr>"

theorem single_phase_hit_lasts_witness:
  "fst (run_single_task rc_get rc_put ex_run_task ''ab'' (Some 1) 0 0
     (single_runs rc_get rc_put [(ex_run_task, ''cd'', Some 0, 0, 0)] ex_rc)) = Inr False"
proof -
  have "digest_key ''ab''" "digest_key ''cd''" by (simp_all add: digest_key_def)
  moreover have "lc_ok ex_lc" "rc_ok ex_rc"
    by (simp_all add: lc_ok_def rc_ok_def ex_lc_def ex_rc_def ex_one_codec_ok)
  moreover have "Option.is_none (lc_find ex_lc ''ab'') = False" "Option.is_none (rc_find ex_rc ''ab'') = False"
    by code_simp+
  ultimately show ?thesis
    using single_phase_hit_lasts[of "''ab''" "[(ex_run_task, ''cd'', Some 0, 0, 0)]" ex_lc ex_rc ex_run_task "Some 1" 0 0]
    by (simp add: Option.is_none_def)
qed

end
