(* ===== verification/Early_Cutoff.thy ===== *)
theory Early_Cutoff
  imports Run_Task
begin

text \<open>
  What a rebuilt dependency does to the tasks that depend on it (src/crates/scheduler/src/runner.rs with
  src/crates/cache): a run records the fingerprint of the declarations it has written, and the weak fingerprints of its
  dependents contain that and nothing else of the dependency.  And what a hit leaves as it is: the outputs on disk and the
  recorded fingerprint, which may be those of another run.
\<close>

section \<open>The interface of a package\<close>

definition interface_of :: "RunEnv \<Rightarrow> Task \<Rightarrow> files \<Rightarrow> string option" where
  "interface_of E t fs =
     (let outputs = resolve_output_globs (e_libs E) fs (t_cwd t) (t_output_globs t) in
      if outputs = [] then None else compute_abi_fingerprint_from_outputs (e_libs E) fs outputs)"

text \<open>The plugin's own fingerprint of the declarations is the same (src/crates/plugin-typescript/src/lib.rs).\<close>

record OutputFile =
  of_path :: string

definition abi_fingerprint :: "Libs \<Rightarrow> files \<Rightarrow> OutputFile list \<Rightarrow> string option" where
  "abi_fingerprint L fs outputs =
     (let dts = sort_key path_key (filter is_declaration (map of_path outputs)) in
      if dts = [] then None
      else Some (hex_hash L (concat (map (\<lambda>p. p @ (case read_file fs p of None \<Rightarrow> [] | Some c \<Rightarrow> c)) dts))))"

lemma plugin_abi_fingerprint: "abi_fingerprint L fs outputs = compute_abi_fingerprint_from_outputs L fs (map of_path outputs)"
  by (simp add: abi_fingerprint_def compute_abi_fingerprint_from_outputs_def)

text \<open>It depends neither on the order of the outputs nor on those that are not declarations; but paths and contents are
  hashed without a separator, so text that moves from one declaration to the next may leave it as it is.\<close>

lemma abi_fingerprint_order:
  assumes "mset (filter is_declaration ps) = mset (filter is_declaration qs)" "inj_on path_key (set ps)"
    and "\<And>p. p \<in> set ps \<Longrightarrow> is_declaration p \<Longrightarrow> read_file fs p = read_file fs' p"
  shows "compute_abi_fingerprint_from_outputs L fs ps = compute_abi_fingerprint_from_outputs L fs' qs"
proof -
  have "inj_on path_key (set (filter is_declaration ps))" using assms(2) by (rule inj_on_subset) auto
  then have "sort_key path_key (filter is_declaration ps) = sort_key path_key (filter is_declaration qs)"
    using assms(1) by (intro sort_key_perm)
  moreover have "set (filter is_declaration qs) = set (filter is_declaration ps)" using assms(1) by (metis set_mset_mset)
  ultimately show ?thesis
    using assms(3) by (auto simp: compute_abi_fingerprint_from_outputs_def Let_def intro!: arg_cong[where f = "hex_hash L"] arg_cong[where f = concat])
qed

lemma abi_fingerprint_collides:
  "compute_abi_fingerprint_from_outputs L [''/p/a.d.ts'' \<mapsto> Readable ''x/p/b.d.tsy'', ''/p/b.d.ts'' \<mapsto> Readable ''z''] [''/p/a.d.ts'', ''/p/b.d.ts''] =
   compute_abi_fingerprint_from_outputs L [''/p/a.d.ts'' \<mapsto> Readable ''x'', ''/p/b.d.ts'' \<mapsto> Readable ''y/p/b.d.tsz''] [''/p/a.d.ts'', ''/p/b.d.ts'']"
proof -
  have "sort_key path_key (filter is_declaration [''/p/a.d.ts'', ''/p/b.d.ts'']) = [''/p/a.d.ts'', ''/p/b.d.ts'']" by code_simp
  then show ?thesis by (simp add: compute_abi_fingerprint_from_outputs_def read_file_def)
qed

text \<open>The file that keeps it is none of those a lookup reads.\<close>

definition interface_path :: "Cache \<Rightarrow> string \<Rightarrow> bool" where
  "interface_path C p \<longleftrightarrow> (\<exists>n. p = abi_path C n)"

lemma plain_filename: "slash \<notin> set (pkg_name_to_filename n)"
  by (simp add: pkg_name_to_filename_def replace_char_def split: if_splits)

lemma abi_path_join: "abi_path C n = path_join (c_dir C) (''pkg-abi'' @ slash # pkg_name_to_filename n)"
proof -
  have "\<not> is_absolute (pkg_name_to_filename n)"
    using plain_filename[of n] by (cases "pkg_name_to_filename n") (auto simp: is_absolute_def)
  then show ?thesis by (auto simp: abi_path_def path_join_def is_absolute_def)
qed

lemma abi_paths [simp]:
  "abi_path C n = abi_path C m \<longleftrightarrow> pkg_name_to_filename n = pkg_name_to_filename m"
  "abi_path C n \<noteq> pathsets_path C w" "abi_path C n \<noteq> entry_path C s" "abi_path C n \<noteq> output_path C s"
  by (simp_all add: abi_path_join pathsets_path_def entry_path_def output_path_def path_join_inj is_absolute_def)

lemma cache_not_interface: "cache_path C p \<Longrightarrow> \<not> interface_path C p"
  by (auto simp: cache_path_def interface_path_def dest: sym)

lemma trim_hex: "trim (to_hex s) = to_hex s"
proof -
  have "\<forall>c \<in> set (to_hex s). \<not> is_ws c" using to_hex_chars[of s] by (auto simp: is_ws_def)
  then have "dropWhile is_ws (to_hex s) = to_hex s" "dropWhile is_ws (rev (to_hex s)) = rev (to_hex s)"
    by (metis dropWhile_eq_self_iff hd_in_set set_rev)+
  then show ?thesis by (simp add: trim_def trim_start_def trim_end_def)
qed

lemma interface_hex:
  assumes "interface_of E t fs = Some a" "digests_32 (e_libs E)"
  shows "trim a = a \<and> a \<noteq> [] \<and> newline \<notin> set a"
proof -
  obtain c where a: "a = to_hex c" "length c = 32"
    using assms by (auto simp: interface_of_def compute_abi_fingerprint_from_outputs_def hex_hash_def digests_32_def Let_def split: if_splits)
  then have "to_hex c \<noteq> []" by (cases c) (simp_all add: to_hex_def hex_byte_def)
  then show ?thesis by (simp add: a trim_hex)
qed

lemma get_pkg_abi_cong: "fs' (abi_path C n) = fs (abi_path C n) \<Longrightarrow> get_pkg_abi_fp C fs' n = get_pkg_abi_fp C fs n"
  by (simp add: get_pkg_abi_fp_def read_file_def)

section \<open>What recording leaves\<close>

lemma record_run_files:
  assumes "record_run L C fs i ps e = (r, fs')" "\<not> cache_path C p"
  shows "fs' p = fs p"
proof -
  have ne: "p \<noteq> pathsets_path C w" "p \<noteq> entry_path C s" for w s using assms(2) by (auto simp: cache_path_def)
  show ?thesis
    using assms(1) pathsets_append_files[OF _ ne(1)] ne(2)
    by (auto simp: record_run_def Let_def dest!: write_entry_Some split: option.splits)
qed

lemma record_run_keeps:
  assumes "record_run L C fs i ps e = (r, fs')" "cache_codecs_ok C"
  shows "set (pathsets_list C fs w) \<subseteq> set (pathsets_list C fs' w)" "read_entry C fs s \<noteq> None \<Longrightarrow> read_entry C fs' s \<noteq> None"
proof -
  let ?w = "compute_weak_fingerprint L fs i"
  have codecs: "codec_ok (c_pathsets C)" "codec_ok (c_entries C)" using assms(2) by (simp_all add: cache_codecs_ok_def)
  consider "fs' = fs"
    | fs1 where "pathsets_append C fs ?w ps = Some fs1" "fs' = fs1 \<or> (\<exists>s e. write_entry C fs1 s e = Some fs')"
    using assms(1) by (auto simp: record_run_def Let_def split: option.splits)
  then have "set (pathsets_list C fs w) \<subseteq> set (pathsets_list C fs' w) \<and> (read_entry C fs s \<noteq> None \<longrightarrow> read_entry C fs' s \<noteq> None)"
  proof cases
    case 2
    have grown: "set (pathsets_list C fs w) \<subseteq> set (pathsets_list C fs1 w)"
    proof (cases "w = ?w")
      case True
      then show ?thesis using pathsets_append_Some[OF 2(1) codecs(1)] by auto
    next
      case False
      then have "fs1 (pathsets_path C w) = fs (pathsets_path C w)" by (intro pathsets_append_files[OF 2(1)]) simp
      then show ?thesis by (simp add: pathsets_list_def read_file_def)
    qed
    have entry: "read_entry C fs1 s = read_entry C fs s"
      by (rule read_entry_cong) (rule pathsets_append_files[OF 2(1)], simp)
    from 2(2) show ?thesis
    proof
      assume "\<exists>s e. write_entry C fs1 s e = Some fs'"
      then obtain s' e' where we: "write_entry C fs1 s' e' = Some fs'" by blast
      then have "pathsets_list C fs' w = pathsets_list C fs1 w"
        by (auto simp: pathsets_list_def read_file_def dest!: write_entry_Some)
      then show ?thesis using grown entry read_write_entry[OF we codecs(2), of s] by auto
    qed (use grown entry in auto)
  qed simp
  then show "set (pathsets_list C fs w) \<subseteq> set (pathsets_list C fs' w)" "read_entry C fs s \<noteq> None \<Longrightarrow> read_entry C fs' s \<noteq> None"
    by blast+
qed

lemma set_abi_frame: "p \<noteq> abi_path C n \<Longrightarrow> set_pkg_abi_fp C fs n fp p = fs p"
  by (simp add: set_pkg_abi_fp_def write_ignored_def write_file_def)

lemma get_set_abi:
  assumes "c_writable C (abi_path C n)" "trim fp = fp" "fp \<noteq> []"
  shows "get_pkg_abi_fp C (set_pkg_abi_fp C fs n fp) m =
    (if pkg_name_to_filename m = pkg_name_to_filename n then Some fp else get_pkg_abi_fp C fs m)"
  using assms by (simp add: get_pkg_abi_fp_def set_pkg_abi_fp_def write_ignored_def write_file_def)

lemma record_success_interface:
  "record_success E t i ps out err fs =
     (let C = e_cache E; abi = interface_of E t fs;
          fs1 = (case abi of None \<Rightarrow> fs | Some fp \<Rightarrow> set_pkg_abi_fp C fs (t_package t) fp) in
      case record_run (e_libs E) C fs1 i ps \<lparr>ce_fingerprint = [], ce_command = t_command t, ce_exit_code = 0,
          ce_elapsed_ms = e_elapsed E, ce_cached_at = e_now E, ce_pathset_reads = [], ce_abi = abi\<rparr> of
        (None, fs2) \<Rightarrow> (fs2, capture_job E fs2 (ps_reads ps))
      | (Some sf, fs2) \<Rightarrow>
          (let fs3 = write_output C fs2 sf \<lparr>to_stdout = out, to_stderr = err, to_exit_code = 0\<rparr> in
           (fs3, Stored i fs1 ps sf # capture_job E fs3 (ps_reads ps))))"
  by (simp add: record_success_def interface_of_def Let_def)

lemma record_success_steps:
  assumes "record_success E t i ps out err fs = (fs', evs)"
  obtains e r fs2 where
    "record_run (e_libs E) (e_cache E)
       (case interface_of E t fs of None \<Rightarrow> fs | Some fp \<Rightarrow> set_pkg_abi_fp (e_cache E) fs (t_package t) fp) i ps e = (r, fs2)"
    "\<And>p. \<forall>s. p \<noteq> output_path (e_cache E) s \<Longrightarrow> fs' p = fs2 p"
  using assms write_output_other unfolding record_success_def interface_of_def Let_def
  by (auto split: prod.splits option.splits)

text \<open>A successful run replaces the recorded interface when it has written declarations; what lookups find stays.\<close>

lemma record_success_leaves:
  assumes "record_success E t i ps out err fs = (fs', evs)" "cache_codecs_ok (e_cache E)"
  shows "set (pathsets_list (e_cache E) fs w) \<subseteq> set (pathsets_list (e_cache E) fs' w)"
    "read_entry (e_cache E) fs s \<noteq> None \<Longrightarrow> read_entry (e_cache E) fs' s \<noteq> None"
    "\<not> cache_path (e_cache E) p \<Longrightarrow> \<not> interface_path (e_cache E) p \<Longrightarrow> \<forall>s. p \<noteq> output_path (e_cache E) s \<Longrightarrow> fs' p = fs p"
    "digests_32 (e_libs E) \<Longrightarrow> c_writable (e_cache E) (abi_path (e_cache E) (t_package t)) \<Longrightarrow>
      get_pkg_abi_fp (e_cache E) fs' n =
        (case interface_of E t fs of
           Some a \<Rightarrow> if pkg_name_to_filename n = pkg_name_to_filename (t_package t) then Some a else get_pkg_abi_fp (e_cache E) fs n
         | None \<Rightarrow> get_pkg_abi_fp (e_cache E) fs n)"
proof -
  let ?C = "e_cache E"
  let ?fs1 = "case interface_of E t fs of None \<Rightarrow> fs | Some fp \<Rightarrow> set_pkg_abi_fp ?C fs (t_package t) fp"
  obtain e r fs2 where rec: "record_run (e_libs E) ?C ?fs1 i ps e = (r, fs2)"
    and out: "\<And>p. \<forall>s. p \<noteq> output_path ?C s \<Longrightarrow> fs' p = fs2 p"
    using record_success_steps[OF assms(1)] by blast
  have frame: "?fs1 p = fs p" if "\<not> interface_path ?C p" for p
    using that set_abi_frame by (auto simp: interface_path_def split: option.split)
  have "?fs1 (pathsets_path ?C w) = fs (pathsets_path ?C w)" "?fs1 (entry_path ?C s) = fs (entry_path ?C s)"
    by (rule frame, simp add: interface_path_def not_sym)+
  then have "pathsets_list ?C ?fs1 w = pathsets_list ?C fs w" "read_entry ?C ?fs1 s = read_entry ?C fs s"
    by (simp_all add: pathsets_list_def read_entry_def read_file_def)
  moreover have "pathsets_list ?C fs' w = pathsets_list ?C fs2 w" "read_entry ?C fs' s = read_entry ?C fs2 s"
    using out[of "pathsets_path ?C w"] out[of "entry_path ?C s"] by (simp_all add: pathsets_list_def read_entry_def read_file_def)
  ultimately show "set (pathsets_list ?C fs w) \<subseteq> set (pathsets_list ?C fs' w)"
    "read_entry ?C fs s \<noteq> None \<Longrightarrow> read_entry ?C fs' s \<noteq> None"
    using record_run_keeps(1)[OF rec assms(2), of w] record_run_keeps(2)[OF rec assms(2), of s] by simp_all
  show "fs' p = fs p" if "\<not> cache_path ?C p" "\<not> interface_path ?C p" "\<forall>s. p \<noteq> output_path ?C s"
    using out[OF that(3)] record_run_files[OF rec that(1)] frame[OF that(2)] by simp
  show "get_pkg_abi_fp ?C fs' n =
      (case interface_of E t fs of
         Some a \<Rightarrow> if pkg_name_to_filename n = pkg_name_to_filename (t_package t) then Some a else get_pkg_abi_fp ?C fs n
       | None \<Rightarrow> get_pkg_abi_fp ?C fs n)"
    if "digests_32 (e_libs E)" "c_writable ?C (abi_path ?C (t_package t))"
  proof -
    have "\<not> cache_path ?C (abi_path ?C n)" using cache_not_interface by (auto simp: interface_path_def)
    then have "fs' (abi_path ?C n) = ?fs1 (abi_path ?C n)"
      using out[of "abi_path ?C n"] record_run_files[OF rec] by simp
    then have "get_pkg_abi_fp ?C fs' n = get_pkg_abi_fp ?C ?fs1 n" by (rule get_pkg_abi_cong)
    then show ?thesis
      using get_set_abi[OF that(2)] interface_hex[OF _ that(1)] by (auto split: option.split)
  qed
qed

section \<open>The weak fingerprint of a dependent\<close>

text \<open>What a task's weak fingerprint contains besides the interfaces of its dependencies.\<close>

definition own_inputs :: "RunEnv \<Rightarrow> Task \<Rightarrow> files \<Rightarrow> string \<times> string option \<times> (string \<times> string) list" where
  "own_inputs E t fs =
     (let tool = wi_tool_path (task_inputs E t fs) in
      (tool, hash_tool_binary (e_libs E) fs tool, resolve_globs (e_libs E) fs (t_cwd t) (t_declared_input_globs t)))"

lemma task_weak_view:
  "weak_view L fs (task_inputs E t fs) = weak_view L fs' (task_inputs E t fs') \<longleftrightarrow>
     own_inputs E t fs = own_inputs E t fs' \<and>
     sort_key fst (wi_dep_abi (task_inputs E t fs)) = sort_key fst (wi_dep_abi (task_inputs E t fs'))"
  if "L = e_libs E"
  by (auto simp: weak_view_def own_inputs_def task_inputs_def that Let_def)

lemma dep_abi_changed:
  assumes "p \<in> set (t_dep_packages t)" "inj_on pkg_name_to_filename (set (t_dep_packages t))"
    and "get_pkg_abi_fp (e_cache E) fs p = Some a"
    and "\<And>n. get_pkg_abi_fp (e_cache E) fs' n =
      (if pkg_name_to_filename n = pkg_name_to_filename p then Some b else get_pkg_abi_fp (e_cache E) fs n)"
  shows "sort_key fst (wi_dep_abi (task_inputs E t fs')) = sort_key fst (wi_dep_abi (task_inputs E t fs)) \<longleftrightarrow> b = a"
proof
  assume "sort_key fst (wi_dep_abi (task_inputs E t fs')) = sort_key fst (wi_dep_abi (task_inputs E t fs))"
  then have "set (wi_dep_abi (task_inputs E t fs')) = set (wi_dep_abi (task_inputs E t fs))" by (metis set_sort)
  moreover have "(p, a) \<in> set (wi_dep_abi (task_inputs E t fs))"
    using assms(1,3) by (auto simp: task_inputs_def in_set_map_filter)
  ultimately have "(p, a) \<in> set (wi_dep_abi (task_inputs E t fs'))" by simp
  then show "b = a" by (auto simp: task_inputs_def in_set_map_filter assms(4))
next
  assume "b = a"
  then have "get_pkg_abi_fp (e_cache E) fs' n = get_pkg_abi_fp (e_cache E) fs n" if "n \<in> set (t_dep_packages t)" for n
    using assms(1-4) that by (auto dest: inj_onD)
  then have "wi_dep_abi (task_inputs E t fs') = wi_dep_abi (task_inputs E t fs)"
    by (auto simp: task_inputs_def List.map_filter_def intro!: map_cong filter_cong arg_cong[where f = "map _"])
  then show "sort_key fst (wi_dep_abi (task_inputs E t fs')) = sort_key fst (wi_dep_abi (task_inputs E t fs))" by simp
qed

lemma executed_success:
  assumes "run_single_task_two_phase E t fs = (r, fs2, evs)" "executed evs"
    and "run_command E t (compute_weak_fingerprint (e_libs E) fs (task_inputs E t fs)) fs = (Some (0, ps, out, err), fs1, ev)"
  obtains stored where "record_success E t (task_inputs E t fs) ps out err fs1 = (fs2, stored)"
proof (cases "lookup_with_pathset_reads (e_libs E) (e_cache E) fs (task_inputs E t fs)")
  case None
  let ?i = "task_inputs E t fs"
  obtain fs' stored where rs: "record_success E t ?i ps out err fs1 = (fs', stored)" by (cases "record_success E t ?i ps out err fs1")
  have "fst (snd (run_single_task_two_phase E t fs)) = fs'"
    by (rule run_miss[OF None]) (use assms(3) rs in simp)
  then show ?thesis using that rs assms(1) by simp
next
  case (Some h)
  then show ?thesis using run_hit assms(1,2) by (cases h) (auto simp: executed_def split: option.splits)
qed

lemma kept_hit:
  assumes "ps \<in> set (pathsets_list (e_cache E) fs (compute_weak_fingerprint (e_libs E) fs (task_inputs E t fs)))"
    and "read_entry (e_cache E) fs (compute_strong_fingerprint (e_libs E) fs
      (compute_weak_fingerprint (e_libs E) fs (task_inputs E t fs)) (ps_reads ps)) \<noteq> None"
  shows "\<exists>evs. run_single_task_two_phase E t fs = (Inr (), fs, evs) \<and> \<not> executed evs"
proof -
  have "lookup_with_pathset_reads (e_libs E) (e_cache E) fs (task_inputs E t fs) \<noteq> None"
    using first_hit_exists[OF assms(1)] assms(2) by (auto simp: lookup_with_pathset_reads_def Let_def)
  then obtain sf e reads where "lookup_with_pathset_reads (e_libs E) (e_cache E) fs (task_inputs E t fs) = Some (sf, e, reads)"
    by (metis not_Some_eq surj_pair)
  then show ?thesis using run_hit by (auto simp: executed_def split: option.splits)
qed

section \<open>Properties\<close>

text \<open>C38. A dependency that has been rebuilt leaves the weak fingerprint of a dependent as it was exactly when the
  declarations it has written have the recorded fingerprint, or it has written none at all; then a dependent that was up
  to date and whose own inputs and recorded reads are unchanged is not run.\<close>

theorem early_cutoff:
  assumes "digests_32 (e_libs E)" "cache_codecs_ok (e_cache E)" "c_writable (e_cache E) (abi_path (e_cache E) (t_package d))"
    and "run_command E d (compute_weak_fingerprint (e_libs E) fs (task_inputs E d fs)) fs = (Some (0, ps, out, err), fs1, ev)"
    and "run_single_task_two_phase E d fs = (Inr (), fs2, evs)" "executed evs"
    and "\<forall>p. cache_path (e_cache E) p \<or> interface_path (e_cache E) p \<longrightarrow> fs1 p = fs p"
    and "t_package d \<in> set (t_dep_packages t)" "inj_on pkg_name_to_filename (set (t_dep_packages t))"
    and "get_pkg_abi_fp (e_cache E) fs (t_package d) = Some a"
    and "own_inputs E t fs2 = own_inputs E t fs"
    and "weak_plain (e_libs E) fs (task_inputs E t fs)" "weak_plain (e_libs E) fs2 (task_inputs E t fs2)"
    and "lookup_with_pathset_reads (e_libs E) (e_cache E) fs (task_inputs E t fs) = Some (sf, e, reads)"
    and "compute_strong_fingerprint (e_libs E) fs2 (compute_weak_fingerprint (e_libs E) fs (task_inputs E t fs)) reads = sf"
  shows "(weak_message (e_libs E) fs2 (task_inputs E t fs2) = weak_message (e_libs E) fs (task_inputs E t fs) \<longleftrightarrow>
      interface_of E d fs1 \<in> {None, Some a}) \<and>
    (interface_of E d fs1 \<in> {None, Some a} \<longrightarrow>
      (\<exists>evs2. run_single_task_two_phase E t fs2 = (Inr (), fs2, evs2) \<and> \<not> executed evs2))"
proof -
  let ?L = "e_libs E" and ?C = "e_cache E" and ?b = "case interface_of E d fs1 of None \<Rightarrow> a | Some b \<Rightarrow> b"
  let ?w = "compute_weak_fingerprint ?L fs (task_inputs E t fs)"
  obtain stored where rs: "record_success E d (task_inputs E d fs) ps out err fs1 = (fs2, stored)"
    by (rule executed_success[OF assms(5,6,4)])
  note left = record_success_leaves[OF rs assms(2)]
  have "get_pkg_abi_fp ?C fs1 n = get_pkg_abi_fp ?C fs n" for n
    by (rule get_pkg_abi_cong) (use assms(7) in \<open>auto simp: interface_path_def\<close>)
  then have abi: "get_pkg_abi_fp ?C fs2 n =
      (if pkg_name_to_filename n = pkg_name_to_filename (t_package d) then Some ?b else get_pkg_abi_fp ?C fs n)" for n
    using left(4)[OF assms(1,3), of n] assms(10) by (auto simp: get_pkg_abi_fp_def abi_path_def split: option.split)
  have same: "weak_message ?L fs2 (task_inputs E t fs2) = weak_message ?L fs (task_inputs E t fs) \<longleftrightarrow> ?b = a"
  proof -
    have "weak_message ?L fs2 (task_inputs E t fs2) = weak_message ?L fs (task_inputs E t fs) \<longleftrightarrow>
        weak_view ?L fs2 (task_inputs E t fs2) = weak_view ?L fs (task_inputs E t fs)"
      using weak_message_inj[OF _ assms(13,12)] weak_message_cong by blast
    then show ?thesis
      using task_weak_view[OF refl, of E fs2 t fs] assms(11) dep_abi_changed[OF assms(8,9,10) abi] by simp
  qed
  have kept: "pathsets_list ?C fs1 w = pathsets_list ?C fs w" "read_entry ?C fs1 s = read_entry ?C fs s" for w s
    using assms(7) by (simp_all add: pathsets_list_def read_entry_def read_file_def cache_path_def)
  obtain q where q: "q \<in> set (pathsets_list ?C fs ?w)" "reads = ps_reads q" "read_entry ?C fs sf = Some e"
    using first_hit_Some[of ?L ?C fs ?w] assms(14) by (force simp: lookup_with_pathset_reads_def Let_def)
  have hit: "\<exists>evs2. run_single_task_two_phase E t fs2 = (Inr (), fs2, evs2) \<and> \<not> executed evs2" if "?b = a"
  proof (rule kept_hit)
    have w: "compute_weak_fingerprint ?L fs2 (task_inputs E t fs2) = ?w"
      using same that by (simp add: compute_weak_fingerprint_def)
    show "q \<in> set (pathsets_list ?C fs2 (compute_weak_fingerprint ?L fs2 (task_inputs E t fs2)))"
      using left(1) q(1) kept w by auto
    show "read_entry ?C fs2 (compute_strong_fingerprint ?L fs2 (compute_weak_fingerprint ?L fs2 (task_inputs E t fs2)) (ps_reads q)) \<noteq> None"
      using left(2)[of sf] q kept w assms(15) by simp
  qed
  have "?b = a \<longleftrightarrow> interface_of E d fs1 \<in> {None, Some a}" by (auto split: option.split)
  then show ?thesis using same hit by blast
qed

text \<open>C39. A task that is built again, edited, built, and edited back is not run: the run finds the first result and succeeds,
  but its outputs on disk and its recorded interface stay those of the second build.\<close>

theorem reverted_run_is_stale:
  assumes "cache_codecs_ok (e_cache E)" "digests_32 (e_libs E)" "c_writable (e_cache E) (abi_path (e_cache E) (t_package t))"
    and "run_single_task_two_phase E t fs = (r, fs1, evs)" "Stored i fsr ps sf \<in> set evs"
    and "\<forall>p. cache_path (e_cache E) p \<longrightarrow> fs2 p = fs1 p"
    and "run_command E t (compute_weak_fingerprint (e_libs E) fs2 (task_inputs E t fs2)) fs2 = (Some (0, ps2, out, err), fs3, ev)"
    and "run_single_task_two_phase E t fs2 = (r2, fs4, evs2)" "executed evs2"
    and "\<forall>p. cache_path (e_cache E) p \<longrightarrow> fs3 p = fs2 p" "interface_of E t fs3 = Some b"
    and "\<forall>p\<in>outputs. \<not> cache_path (e_cache E) p \<and> \<not> interface_path (e_cache E) p \<and> (\<forall>s. p \<noteq> output_path (e_cache E) s)"
    and "\<forall>p. cache_path (e_cache E) p \<or> interface_path (e_cache E) p \<or> p \<in> outputs \<longrightarrow> fs5 p = fs4 p"
    and "compute_weak_fingerprint (e_libs E) fs5 (task_inputs E t fs5) = compute_weak_fingerprint (e_libs E) fsr i"
    and "compute_strong_fingerprint (e_libs E) fs5 (compute_weak_fingerprint (e_libs E) fsr i) (ps_reads ps) = sf"
    and "\<forall>q\<in>set (pathsets_list (e_cache E) fsr (compute_weak_fingerprint (e_libs E) fsr i)). same_pathset q ps \<longrightarrow> q = ps"
  shows "(\<exists>evs5. run_single_task_two_phase E t fs5 = (Inr (), fs5, evs5) \<and> \<not> executed evs5) \<and>
    (\<forall>p\<in>outputs. fs5 p = fs3 p) \<and> get_pkg_abi_fp (e_cache E) fs5 (t_package t) = Some b"
proof (intro conjI)
  let ?L = "e_libs E" and ?C = "e_cache E"
  let ?w = "compute_weak_fingerprint ?L fsr i"
  obtain entry fs0 out0 where rec: "record_run ?L ?C fsr i ps entry = (Some sf, fs0)" and fs1: "fs1 = write_output ?C fs0 sf out0"
    using run_stored[OF assms(4,5)] by blast
  obtain stored where rs: "record_success E t (task_inputs E t fs2) ps2 out err fs3 = (fs4, stored)"
    by (rule executed_success[OF assms(8,9,7)])
  note left = record_success_leaves[OF rs assms(1)]
  have "fs0 p = fs3 p" if "cache_path ?C p" for p
    using that assms(6,10) write_output_other[of p ?C fs0 sf out0] unfolding fs1
    by (auto simp: cache_path_def)
  then have kept: "pathsets_list ?C fs3 w = pathsets_list ?C fs0 w" "read_entry ?C fs3 s = read_entry ?C fs0 s" for w s
    by (simp_all add: pathsets_list_def read_entry_def read_file_def cache_path_def)
  have reverted: "pathsets_list ?C fs5 w = pathsets_list ?C fs4 w" "read_entry ?C fs5 s = read_entry ?C fs4 s" for w s
    using assms(13) by (simp_all add: pathsets_list_def read_entry_def read_file_def cache_path_def)
  show "\<exists>evs5. run_single_task_two_phase E t fs5 = (Inr (), fs5, evs5) \<and> \<not> executed evs5"
  proof (rule kept_hit)
    show "ps \<in> set (pathsets_list ?C fs5 (compute_weak_fingerprint ?L fs5 (task_inputs E t fs5)))"
      using record_run_stored(1)[OF rec assms(1,16)] left(1)[of ?w] by (auto simp: assms(14) kept reverted)
    show "read_entry ?C fs5 (compute_strong_fingerprint ?L fs5 (compute_weak_fingerprint ?L fs5 (task_inputs E t fs5)) (ps_reads ps)) \<noteq> None"
      using record_run_stored(3)[OF rec assms(1,16)] left(2)[of sf] by (simp add: assms(14,15) kept reverted)
  qed
  show "\<forall>p\<in>outputs. fs5 p = fs3 p" using assms(12,13) left(3) by simp
  have "get_pkg_abi_fp ?C fs5 (t_package t) = get_pkg_abi_fp ?C fs4 (t_package t)"
    by (rule get_pkg_abi_cong) (use assms(13) in \<open>auto simp: interface_path_def\<close>)
  then show "get_pkg_abi_fp ?C fs5 (t_package t) = Some b" using left(4)[OF assms(2,3)] by (simp add: assms(11))
qed

section \<open>An example\<close>

text \<open>A compiler that copies its source to an output and the first letter of it, the interface, to a declaration file.  The
  hash tells whether the number of twos in a text is odd.\<close>

definition ex_ec_hash :: "string \<Rightarrow> string" where
  "ex_ec_hash m = replicate 31 (CHR ''a'') @ [if foldl (\<lambda>odd c. if c = CHR ''2'' then \<not> odd else odd) False m then CHR ''b'' else CHR ''a'']"

definition ex_ec_libs :: Libs where
  "ex_ec_libs = \<lparr>l_hash = ex_ec_hash,
     l_walk = (\<lambda>_ root _. map (\<lambda>n. \<lparr>we_path = root @ ''/'' @ n, we_name = n, we_dir = False, we_file = True\<rparr>) [''a'', ''i.d.ts'', ''i.js'']),
     l_glob_ok = (\<lambda>_. True), l_globset = (\<lambda>_. Some (\<lambda>rel. rel = ''a''))\<rparr>"

definition ex_ec_effect :: "string \<Rightarrow> files \<Rightarrow> files" where
  "ex_ec_effect cwd fs = (let source = (case read_file fs (cwd @ ''/a'') of None \<Rightarrow> [] | Some c \<Rightarrow> c) in
     fs(cwd @ ''/i.d.ts'' \<mapsto> Readable (take 1 source), cwd @ ''/i.js'' \<mapsto> Readable source))"

definition ex_ec_task :: "string \<Rightarrow> string \<Rightarrow> string list \<Rightarrow> Task" where
  "ex_ec_task name command deps = \<lparr>t_package = name, t_script = ''build'', t_command = command, t_cwd = ''/'' @ name, t_sandbox = Loose,
     t_is_root = False, t_input_paths = [], t_workspace_root = ''/'', t_declared_input_globs = [''a''],
     t_dep_packages = deps, t_output_globs = [''*.d.ts'', ''*.js''], t_env_hash_inputs = []\<rparr>"

abbreviation ex_ec_dep :: Task where "ex_ec_dep \<equiv> ex_ec_task ''d'' ''make2'' []"

abbreviation ex_ec_user :: Task where "ex_ec_user \<equiv> ex_ec_task ''u'' ''tsc'' [''d'']"

definition ex_ec_hex :: "bool \<Rightarrow> string" where
  "ex_ec_hex x = concat (replicate 31 ''61'') @ (if x then ''62'' else ''61'')"

definition ex_ec_entry :: CacheEntry where
  "ex_ec_entry = \<lparr>ce_fingerprint = ex_ec_hex True, ce_command = ''make2'', ce_exit_code = 0,
     ce_elapsed_ms = 5, ce_cached_at = 7, ce_pathset_reads = [], ce_abi = Some (ex_ec_hex False)\<rparr>"

definition ex_ec_env :: RunEnv where
  "ex_ec_env = \<lparr>e_libs = ex_ec_libs,
     e_cache = \<lparr>c_dir = ''/c'', c_pathsets = ex_one_codec [no_pathset], c_entries = ex_one_codec ex_ec_entry,
       c_outputs = ex_one_codec \<lparr>to_stdout = [], to_stderr = [], to_exit_code = 0\<rparr>, c_writable = (\<lambda>_. True)\<rparr>,
     e_stats = \<lparr>enc = (\<lambda>_. None), dec = (\<lambda>_. None)\<rparr>,
     e_host = (\<lambda>fs. \<lparr>h_files = fs, h_is_dir = (\<lambda>_. False), h_read_dir = (\<lambda>_. None), h_env = (\<lambda>_. None)\<rparr>),
     e_listing = (\<lambda>_. None),
     e_spawn = (\<lambda>_ cwd _ fs. (Some \<lparr>pr_code = 0, pr_stdout = [], pr_stderr = [], pr_peak = 1, pr_reads = [], pr_writes = []\<rparr>, ex_ec_effect cwd fs)),
     e_sandbox = (\<lambda>_ _ _ fs. (None, fs)), e_now = 7, e_elapsed = 5\<rparr>"

lemma ex_ec_simps [simp]:
  "e_libs ex_ec_env = ex_ec_libs" "c_dir (e_cache ex_ec_env) = ''/c''" "c_writable (e_cache ex_ec_env) p"
  "t_package (ex_ec_task n c ds) = n" "t_dep_packages (ex_ec_task n c ds) = ds" "t_cwd (ex_ec_task n c ds) = CHR ''/'' # n"
  by (simp_all add: ex_ec_env_def ex_ec_task_def)

lemma ex_ec_ok: "cache_codecs_ok (e_cache ex_ec_env)" "digests_32 ex_ec_libs"
  by (simp_all add: cache_codecs_ok_def ex_ec_env_def ex_one_codec_ok digests_32_def ex_ec_libs_def ex_ec_hash_def)

lemma ex_ec_command:
  "run_command ex_ec_env (ex_ec_task n c ds) w fs =
     (Some (0, no_pathset, [], []), ex_ec_effect (CHR ''/'' # n) fs, [Spawned (task_path ex_ec_env (ex_ec_task n c ds) fs)])"
  by (simp add: run_command_def save_stats_def stats_save_def ex_ec_env_def ex_ec_task_def)

lemma ex_ec_outputs: "p \<in> {''/d/i.d.ts'', ''/d/i.js'', ''/d/a''} \<Longrightarrow>
    \<not> cache_path (e_cache ex_ec_env) p \<and> \<not> interface_path (e_cache ex_ec_env) p \<and> (\<forall>s. p \<noteq> output_path (e_cache ex_ec_env) s)"
  by (auto simp: cache_path_def interface_path_def pathsets_path_def entry_path_def output_path_def abi_path_join path_join_def is_absolute_def)

lemma ex_ec_kept:
  assumes "cache_path (e_cache ex_ec_env) p \<or> interface_path (e_cache ex_ec_env) p"
  shows "ex_ec_effect ''/d'' fs p = fs p" "(fs(''/d/a'' \<mapsto> x)) p = fs p"
  using ex_ec_outputs assms by (auto simp: ex_ec_effect_def Let_def)

abbreviation ex_ec_C :: Cache where "ex_ec_C \<equiv> e_cache ex_ec_env"

text \<open>What recording a build makes of the files; an entry other than that of the first build cannot be written.\<close>

definition ex_ec_with :: "files \<Rightarrow> string \<Rightarrow> files" where
  "ex_ec_with fs a = fs(''/c/pkg-abi/d'' \<mapsto> Readable a)"

definition ex_ec_save :: "files \<Rightarrow> string \<Rightarrow> string \<Rightarrow> bool \<Rightarrow> files" where
  "ex_ec_save fs w s saved = (let fs1 = fs(pathsets_path ex_ec_C w \<mapsto> Readable ''1'') in
     if saved then fs1(entry_path ex_ec_C s \<mapsto> Readable ''1'', output_path ex_ec_C s \<mapsto> Readable ''1'') else fs1)"

lemma ex_ec_record:
  assumes "interface_of ex_ec_env ex_ec_dep fs = Some a" "compute_weak_fingerprint ex_ec_libs (ex_ec_with fs a) i = w"
    and "ex_ec_with fs a (pathsets_path ex_ec_C w) = None"
    and "compute_strong_fingerprint ex_ec_libs ((ex_ec_with fs a)(pathsets_path ex_ec_C w \<mapsto> Readable ''1'')) w [] = s"
    and "saved = (s = ex_ec_hex True \<and> a = ex_ec_hex False)"
  shows "record_success ex_ec_env ex_ec_dep i no_pathset [] [] fs =
    (ex_ec_save (ex_ec_with fs a) w s saved, if saved then [Stored i (ex_ec_with fs a) no_pathset s] else [])"
proof -
  note entry = ex_ec_entry_def
  have abi: "abi_path ex_ec_C ''d'' = ''/c/pkg-abi/d''" by code_simp
  have job: "capture_job ex_ec_env fs' [] = []" for fs' by (simp add: capture_job_def)
  have codecs: "c_pathsets ex_ec_C = ex_one_codec [no_pathset]" "c_entries ex_ec_C = ex_one_codec ex_ec_entry"
    "c_outputs ex_ec_C = ex_one_codec \<lparr>to_stdout = [], to_stderr = [], to_exit_code = 0\<rparr>"
    "e_elapsed ex_ec_env = 5" "e_now ex_ec_env = 7" "t_command ex_ec_dep = ''make2''"
    by (simp_all add: ex_ec_env_def ex_ec_task_def)
  have none: "pathsets_list ex_ec_C (ex_ec_with fs a) w = []" by (simp add: pathsets_list_def read_file_def assms(3))
  have set: "set_pkg_abi_fp ex_ec_C fs ''d'' a = ex_ec_with fs a"
    by (simp add: set_pkg_abi_fp_def write_ignored_def write_file_def abi ex_ec_with_def)
  have appended: "pathsets_append ex_ec_C (ex_ec_with fs a) w no_pathset = Some ((ex_ec_with fs a)(pathsets_path ex_ec_C w \<mapsto> Readable ''1''))"
    by (simp add: pathsets_append_def none codecs ex_one_codec_def write_file_def)
  have reads: "ps_reads no_pathset = []" by (simp add: no_pathset_def)
  have rec: "record_run ex_ec_libs ex_ec_C (ex_ec_with fs a) i no_pathset \<lparr>ce_fingerprint = [], ce_command = ''make2'', ce_exit_code = 0,
      ce_elapsed_ms = 5, ce_cached_at = 7, ce_pathset_reads = [], ce_abi = Some a\<rparr> =
    (let fs1 = (ex_ec_with fs a)(pathsets_path ex_ec_C w \<mapsto> Readable ''1'') in
     if saved then (Some s, fs1(entry_path ex_ec_C s \<mapsto> Readable ''1'')) else (None, fs1))"
    unfolding record_run_def Let_def assms(2) appended option.case reads assms(4)
    by (auto simp: assms(5) write_entry_def codecs ex_one_codec_def entry write_file_def)
  show ?thesis
    unfolding record_success_interface Let_def assms(1) option.case ex_ec_simps set codecs rec reads job
    by (auto simp: ex_ec_save_def write_output_def codecs ex_one_codec_def write_ignored_def write_file_def)
qed

lemma ex_ec_run:
  assumes "lookup_with_pathset_reads ex_ec_libs ex_ec_C fs (task_inputs ex_ec_env ex_ec_dep fs) = None"
    and "record_success ex_ec_env ex_ec_dep (task_inputs ex_ec_env ex_ec_dep fs) no_pathset [] [] (ex_ec_effect ''/d'' fs) = (fs', stored)"
  obtains ev where "run_single_task_two_phase ex_ec_env ex_ec_dep fs = (Inr (), fs', ev @ stored)" "executed (ev @ stored)"
  using assms by (simp add: run_single_task_two_phase_def Let_def ex_ec_command executed_def)

text \<open>The files after the first build, after it was edited and built again, and after it was edited back.\<close>

definition ex_ec_source :: files where
  "ex_ec_source = [''/d/a'' \<mapsto> Readable ''1'']"

definition ex_ec_compiled :: files where
  "ex_ec_compiled = ex_ec_with (ex_ec_effect ''/d'' ex_ec_source) (ex_ec_hex False)"

definition ex_ec_built :: files where
  "ex_ec_built = ex_ec_save ex_ec_compiled (ex_ec_hex True) (ex_ec_hex True) True"

definition ex_ec_edited :: files where
  "ex_ec_edited = ex_ec_built(''/d/a'' \<mapsto> Readable ''2'')"

definition ex_ec_rebuilt :: files where
  "ex_ec_rebuilt = ex_ec_save (ex_ec_with (ex_ec_effect ''/d'' ex_ec_edited) (ex_ec_hex True)) (ex_ec_hex False) (ex_ec_hex False) False"

definition ex_ec_reverted :: files where
  "ex_ec_reverted = ex_ec_rebuilt(''/d/a'' \<mapsto> Readable ''1'')"

lemma ex_ec_first_facts:
  "Option.is_none (lookup_with_pathset_reads ex_ec_libs ex_ec_C ex_ec_source (task_inputs ex_ec_env ex_ec_dep ex_ec_source))"
  "interface_of ex_ec_env ex_ec_dep (ex_ec_effect ''/d'' ex_ec_source) = Some (ex_ec_hex False)"
  "compute_weak_fingerprint ex_ec_libs ex_ec_compiled (task_inputs ex_ec_env ex_ec_dep ex_ec_source) = ex_ec_hex True"
  "compute_strong_fingerprint ex_ec_libs (ex_ec_compiled(pathsets_path ex_ec_C (ex_ec_hex True) \<mapsto> Readable ''1'')) (ex_ec_hex True) [] = ex_ec_hex True"
  "Option.is_none (ex_ec_compiled (pathsets_path ex_ec_C (ex_ec_hex True)))"
  by code_simp+

lemma ex_ec_second_facts:
  "Option.is_none (lookup_with_pathset_reads ex_ec_libs ex_ec_C ex_ec_edited (task_inputs ex_ec_env ex_ec_dep ex_ec_edited))"
  "interface_of ex_ec_env ex_ec_dep (ex_ec_effect ''/d'' ex_ec_edited) = Some (ex_ec_hex True)"
  "compute_weak_fingerprint ex_ec_libs (ex_ec_with (ex_ec_effect ''/d'' ex_ec_edited) (ex_ec_hex True)) (task_inputs ex_ec_env ex_ec_dep ex_ec_edited) = ex_ec_hex False"
  "compute_strong_fingerprint ex_ec_libs ((ex_ec_with (ex_ec_effect ''/d'' ex_ec_edited) (ex_ec_hex True))(pathsets_path ex_ec_C (ex_ec_hex False) \<mapsto> Readable ''1'')) (ex_ec_hex False) [] = ex_ec_hex False"
  "Option.is_none (ex_ec_with (ex_ec_effect ''/d'' ex_ec_edited) (ex_ec_hex True) (pathsets_path ex_ec_C (ex_ec_hex False)))"
  by code_simp+

lemma ex_ec_reverted_facts:
  "compute_weak_fingerprint ex_ec_libs ex_ec_reverted (task_inputs ex_ec_env ex_ec_dep ex_ec_reverted) = ex_ec_hex True"
  "compute_strong_fingerprint ex_ec_libs ex_ec_reverted (ex_ec_hex True) [] = ex_ec_hex True"
  "map (read_file ex_ec_reverted) [''/d/a'', ''/d/i.d.ts'', ''/d/i.js''] = [Some ''1'', Some ''2'', Some ''2'']"
  by code_simp+

lemma reverted_run_is_stale_witness:
  "(\<exists>evs. run_single_task_two_phase ex_ec_env ex_ec_dep ex_ec_reverted = (Inr (), ex_ec_reverted, evs) \<and> \<not> executed evs) \<and>
   map (read_file ex_ec_reverted) [''/d/a'', ''/d/i.d.ts'', ''/d/i.js''] = [Some ''1'', Some ''2'', Some ''2''] \<and>
   get_pkg_abi_fp ex_ec_C ex_ec_reverted ''d'' = Some (ex_ec_hex True)"
proof -
  have hex: "ex_ec_hex True \<noteq> ex_ec_hex False" by code_simp
  have none: "f = None" if "Option.is_none f" for f :: "'a option" using that by (simp add: Option.is_none_def)
  note rec1 = ex_ec_record[OF ex_ec_first_facts(2) ex_ec_first_facts(3)[unfolded ex_ec_compiled_def]
      none[OF ex_ec_first_facts(5)[unfolded ex_ec_compiled_def]] ex_ec_first_facts(4)[unfolded ex_ec_compiled_def],
      of True, simplified simp_thms if_True, folded ex_ec_compiled_def, folded ex_ec_built_def]
  note rec2 = ex_ec_record[OF ex_ec_second_facts(2,3) none[OF ex_ec_second_facts(5)] ex_ec_second_facts(4),
      of False, simplified hex simp_thms if_False, folded ex_ec_rebuilt_def]
  obtain ev1 where run1: "run_single_task_two_phase ex_ec_env ex_ec_dep ex_ec_source =
      (Inr (), ex_ec_built, ev1 @ [Stored (task_inputs ex_ec_env ex_ec_dep ex_ec_source) ex_ec_compiled no_pathset (ex_ec_hex True)])"
    using ex_ec_run[OF none[OF ex_ec_first_facts(1)] rec1] by blast
  have stored: "Stored (task_inputs ex_ec_env ex_ec_dep ex_ec_source) ex_ec_compiled no_pathset (ex_ec_hex True) \<in>
      set (ev1 @ [Stored (task_inputs ex_ec_env ex_ec_dep ex_ec_source) ex_ec_compiled no_pathset (ex_ec_hex True)])" by simp
  obtain ev2 where run2: "run_single_task_two_phase ex_ec_env ex_ec_dep ex_ec_edited = (Inr (), ex_ec_rebuilt, ev2)" "executed ev2"
    using ex_ec_run[OF none[OF ex_ec_second_facts(1)] rec2] by blast
  have list: "pathsets_list ex_ec_C ex_ec_compiled (ex_ec_hex True) = []"
    using none[OF ex_ec_first_facts(5)] by (simp add: pathsets_list_def read_file_def)
  have "(\<exists>evs. run_single_task_two_phase ex_ec_env ex_ec_dep ex_ec_reverted = (Inr (), ex_ec_reverted, evs) \<and> \<not> executed evs) \<and>
      (\<forall>p\<in>{''/d/i.d.ts'', ''/d/i.js''}. ex_ec_reverted p = ex_ec_effect ''/d'' ex_ec_edited p) \<and>
      get_pkg_abi_fp ex_ec_C ex_ec_reverted (t_package ex_ec_dep) = Some (ex_ec_hex True)"
  proof (rule reverted_run_is_stale[OF ex_ec_ok(1) _ _ run1 stored _ ex_ec_command run2])
    show "\<forall>p. cache_path ex_ec_C p \<longrightarrow> ex_ec_edited p = ex_ec_built p"
      using ex_ec_kept(2) by (simp add: ex_ec_edited_def)
    show "\<forall>p. cache_path ex_ec_C p \<longrightarrow> ex_ec_effect ''/d'' ex_ec_edited p = ex_ec_edited p" using ex_ec_kept(1) by blast
    show "\<forall>p. cache_path ex_ec_C p \<or> interface_path ex_ec_C p \<or> p \<in> {''/d/i.d.ts'', ''/d/i.js''} \<longrightarrow> ex_ec_reverted p = ex_ec_rebuilt p"
      using ex_ec_kept(2) by (auto simp: ex_ec_reverted_def)
  qed (use ex_ec_ok ex_ec_outputs ex_ec_second_facts(2) ex_ec_reverted_facts ex_ec_first_facts(3) list in
      \<open>simp_all add: no_pathset_def\<close>)
  then show ?thesis using ex_ec_reverted_facts(3) by simp
qed

section \<open>A dependency whose declarations stay\<close>

text \<open>The dependent has been built; then the dependency is edited behind its first letter, so that its declarations stay.\<close>

definition ex_ec_before :: files where
  "ex_ec_before = [''/d/a'' \<mapsto> Readable ''1y'', ''/d/i.js'' \<mapsto> Readable ''1x'', ''/u/a'' \<mapsto> Readable ''x'',
     ''/c/pkg-abi/d'' \<mapsto> Readable (ex_ec_hex False), pathsets_path ex_ec_C (ex_ec_hex False) \<mapsto> Readable ''1'',
     entry_path ex_ec_C (ex_ec_hex False) \<mapsto> Readable ''1'']"

definition ex_ec_after :: files where
  "ex_ec_after = ex_ec_save (ex_ec_with (ex_ec_effect ''/d'' ex_ec_before) (ex_ec_hex False)) (ex_ec_hex True) (ex_ec_hex True) True"

lemma ex_ec_before_facts:
  "Option.is_none (lookup_with_pathset_reads ex_ec_libs ex_ec_C ex_ec_before (task_inputs ex_ec_env ex_ec_dep ex_ec_before))"
  "interface_of ex_ec_env ex_ec_dep (ex_ec_effect ''/d'' ex_ec_before) = Some (ex_ec_hex False)"
  "compute_weak_fingerprint ex_ec_libs (ex_ec_with (ex_ec_effect ''/d'' ex_ec_before) (ex_ec_hex False)) (task_inputs ex_ec_env ex_ec_dep ex_ec_before) = ex_ec_hex True"
  "compute_strong_fingerprint ex_ec_libs ((ex_ec_with (ex_ec_effect ''/d'' ex_ec_before) (ex_ec_hex False))(pathsets_path ex_ec_C (ex_ec_hex True) \<mapsto> Readable ''1'')) (ex_ec_hex True) [] = ex_ec_hex True"
  "Option.is_none (ex_ec_with (ex_ec_effect ''/d'' ex_ec_before) (ex_ec_hex False) (pathsets_path ex_ec_C (ex_ec_hex True)))"
  by code_simp+

lemma ex_ec_user_facts:
  "map_option (\<lambda>(sf, e, reads). (sf, reads)) (lookup_with_pathset_reads ex_ec_libs ex_ec_C ex_ec_before (task_inputs ex_ec_env ex_ec_user ex_ec_before)) =
     Some (ex_ec_hex False, [])"
  "compute_weak_fingerprint ex_ec_libs ex_ec_before (task_inputs ex_ec_env ex_ec_user ex_ec_before) = ex_ec_hex False"
  "compute_strong_fingerprint ex_ec_libs ex_ec_after (ex_ec_hex False) [] = ex_ec_hex False"
  "own_inputs ex_ec_env ex_ec_user ex_ec_after = own_inputs ex_ec_env ex_ec_user ex_ec_before"
  "weak_plain ex_ec_libs ex_ec_before (task_inputs ex_ec_env ex_ec_user ex_ec_before)"
  "weak_plain ex_ec_libs ex_ec_after (task_inputs ex_ec_env ex_ec_user ex_ec_after)"
  "get_pkg_abi_fp ex_ec_C ex_ec_before ''d'' = Some (ex_ec_hex False)"
  "map (read_file ex_ec_before) [''/d/i.js''] = [Some ''1x'']" "map (read_file ex_ec_after) [''/d/i.js''] = [Some ''1y'']"
  by code_simp+

lemma early_cutoff_witness:
  "(\<exists>evs. run_single_task_two_phase ex_ec_env ex_ec_user ex_ec_after = (Inr (), ex_ec_after, evs) \<and> \<not> executed evs) \<and>
   weak_message ex_ec_libs ex_ec_after (task_inputs ex_ec_env ex_ec_user ex_ec_after) =
     weak_message ex_ec_libs ex_ec_before (task_inputs ex_ec_env ex_ec_user ex_ec_before) \<and>
   read_file ex_ec_before ''/d/i.js'' \<noteq> read_file ex_ec_after ''/d/i.js''"
proof -
  have none: "f = None" if "Option.is_none f" for f :: "'a option" using that by (simp add: Option.is_none_def)
  note rec = ex_ec_record[OF ex_ec_before_facts(2,3) none[OF ex_ec_before_facts(5)] ex_ec_before_facts(4),
      of True, simplified simp_thms if_True, folded ex_ec_after_def]
  obtain ev where run: "run_single_task_two_phase ex_ec_env ex_ec_dep ex_ec_before = (Inr (), ex_ec_after, ev)" "executed ev"
    using ex_ec_run[OF none[OF ex_ec_before_facts(1)] rec] by blast
  obtain e where look: "lookup_with_pathset_reads ex_ec_libs ex_ec_C ex_ec_before (task_inputs ex_ec_env ex_ec_user ex_ec_before) =
      Some (ex_ec_hex False, e, [])"
    using ex_ec_user_facts(1) by (auto split: prod.splits)
  have "\<forall>p. cache_path ex_ec_C p \<or> interface_path ex_ec_C p \<longrightarrow> ex_ec_effect ''/d'' ex_ec_before p = ex_ec_before p"
    using ex_ec_kept(1) by blast
  then show ?thesis
    using early_cutoff[where E = ex_ec_env and d = ex_ec_dep and t = ex_ec_user and fs = ex_ec_before and ?fs2.0 = ex_ec_after,
        OF _ ex_ec_ok(1) _ ex_ec_command run] ex_ec_ok(2) look ex_ec_user_facts(2-) ex_ec_before_facts(2)
    by (simp add: inj_on_def)
qed

end
