(* ===== verification/Sandbox_Modes.thy ===== *)
theory Sandbox_Modes
  imports Early_Cutoff
begin

text \<open>
  Which sandbox a build of rage has (src/crates/sandbox/src/lib.rs and unsupported.rs), and what the sandbox mode of a task
  changes in its run (src/crates/scheduler/src/runner.rs): nothing between strict and observed, and without a sandbox
  nothing at all is recorded, whatever the mode.
\<close>

section \<open>The sandbox of a platform\<close>

datatype Os = MacOs | LinuxOs | WindowsOs | OtherOs

datatype SandboxModule = MacosModule | LinuxModule | WindowsModule | UnsupportedModule

definition sandbox_module :: "Os \<Rightarrow> bool \<Rightarrow> SandboxModule" where
  "sandbox_module os ebpf =
     (case os of
        MacOs \<Rightarrow> MacosModule
      | WindowsOs \<Rightarrow> WindowsModule
      | LinuxOs \<Rightarrow> if ebpf then LinuxModule else UnsupportedModule
      | OtherOs \<Rightarrow> UnsupportedModule)"

text \<open>The stub returns an error and runs nothing.\<close>

definition unsupported_run_sandboxed :: runner where
  "unsupported_run_sandboxed cmd cwd path fs = (None, fs)"

definition platform_sandbox :: "(SandboxModule \<Rightarrow> runner) \<Rightarrow> Os \<Rightarrow> bool \<Rightarrow> runner" where
  "platform_sandbox run os ebpf =
     (case sandbox_module os ebpf of UnsupportedModule \<Rightarrow> unsupported_run_sandboxed | m \<Rightarrow> run m)"

section \<open>What the mode changes\<close>

lemma task_inputs_mode [simp]: "task_inputs E (t\<lparr>t_sandbox := m\<rparr>) fs = task_inputs E t fs"
  by (simp add: task_inputs_def)

lemma run_command_strict: "run_command E (t\<lparr>t_sandbox := Strict\<rparr>) w fs = run_command E (t\<lparr>t_sandbox := Observed\<rparr>) w fs"
  by (simp add: run_command_def task_path_def cong: option.case_cong prod.case_cong)

lemma record_success_mode [simp]: "record_success E (t\<lparr>t_sandbox := m\<rparr>) i ps out err fs = record_success E t i ps out err fs"
  by (simp add: record_success_def Let_def cong: option.case_cong prod.case_cong if_cong)

lemma run_strict_observed:
  "run_single_task_two_phase E (t\<lparr>t_sandbox := Strict\<rparr>) fs = run_single_task_two_phase E (t\<lparr>t_sandbox := Observed\<rparr>) fs"
  by (simp add: run_single_task_two_phase_def run_command_strict Let_def cong: option.case_cong prod.case_cong if_cong)

lemma unsandboxed_pathset:
  assumes "e_sandbox E = unsupported_run_sandboxed" "run_command E t w fs = (Some (code, ps, out, err), fs1, ev)"
  shows "ps = no_pathset"
  using assms by (auto simp: run_command_def unsupported_run_sandboxed_def split: SandboxMode.splits prod.splits option.splits)

lemma stored_pathset:
  assumes "run_single_task_two_phase E t fs = (r, fs', evs)" "Stored i fsr ps sf \<in> set evs"
  obtains code out err fs1 ev where
    "run_command E t (compute_weak_fingerprint (e_libs E) fs (task_inputs E t fs)) fs = (Some (code, ps, out, err), fs1, ev)"
proof (cases "lookup_with_pathset_reads (e_libs E) (e_cache E) fs (task_inputs E t fs)")
  case None
  obtain est x fs1 ev where c: "run_command E t (compute_weak_fingerprint (e_libs E) fs (task_inputs E t fs)) fs = (x, fs1, ev)"
    and run: "run_single_task_two_phase E t fs = (case x of
        None \<Rightarrow> (Inl (Spawn (t_package t)), fs1, SnapshotJob # Admitted est # ev)
      | Some (code, ps, out, err) \<Rightarrow>
          if code = 0 then
            (let (fs2, stored) = record_success E t (task_inputs E t fs) ps out err fs1 in
             (Inr (), fs2, SnapshotJob # Admitted est # ev @ stored))
          else (Inl (TaskFailed (t_package t) code), fs1, SnapshotJob # Admitted est # ev))"
    by (rule run_miss[OF None])
  have not_ran: "Stored i fsr ps sf \<notin> set ev" using run_command_events[OF c] by blast
  obtain code q out err where x: "x = Some (code, q, out, err)" using run assms not_ran by (cases x) auto
  obtain fs2 stored where rs: "record_success E t (task_inputs E t fs) q out err fs1 = (fs2, stored)" by fastforce
  have "Stored i fsr ps sf \<in> set stored" using run assms not_ran x rs by (auto split: if_splits)
  then have "ps = q" using record_success_stored[OF rs] by metis
  then show thesis using that c x by blast
next
  case (Some h)
  then show thesis using assms run_hit
    by (cases h) (auto simp: capture_job_not_stored split: option.splits)
qed

lemma strong_without_reads: "compute_strong_fingerprint L fs w [] = compute_strong_fingerprint L fs' w []"
  by (simp add: compute_strong_fingerprint_def strong_message_def sf_paths_def)


text \<open>A file that is no declared input changes after the build.\<close>

abbreviation ex_strict_task :: Task where "ex_strict_task \<equiv> ex_ec_dep\<lparr>t_sandbox := Strict\<rparr>"

definition ex_undeclared :: files where
  "ex_undeclared = ex_ec_built(''/d/b'' \<mapsto> Readable ''2'')"

lemma ex_undeclared_facts:
  "compute_weak_fingerprint ex_ec_libs ex_undeclared (task_inputs ex_ec_env ex_ec_dep ex_undeclared) = ex_ec_hex True"
  by code_simp


end
