(* ===== verification/Shell.thy ===== *)
theory Shell
  imports Files
begin

text \<open>
  How the scheduler starts a command (src/crates/scheduler/src/shell.rs): through the shell of the platform.  On Windows the
  standard library joins the arguments to one command line (\<^verbatim>\<open>windows_command_line\<close>, the documented rules of
  std::process::Command); the text of the command is passed around them.
\<close>

section \<open>The commands\<close>

datatype Family = UnixFamily | WindowsFamily

datatype Arg = Regular string | RawArg string

record ShellCommand =
  sh_program :: string
  sh_args :: "Arg list"

definition shell_command :: "Family \<Rightarrow> string \<Rightarrow> ShellCommand" where
  "shell_command f cmd =
     (case f of
        UnixFamily \<Rightarrow> \<lparr>sh_program = ''sh'', sh_args = [Regular ''-c'', Regular cmd]\<rparr>
      | WindowsFamily \<Rightarrow> \<lparr>sh_program = ''cmd'', sh_args = [Regular ''/c'', RawArg cmd]\<rparr>)"

definition shell_std_command :: "Family \<Rightarrow> string \<Rightarrow> ShellCommand" where
  "shell_std_command f cmd =
     (case f of
        UnixFamily \<Rightarrow> \<lparr>sh_program = ''sh'', sh_args = [Regular ''-c'', Regular cmd]\<rparr>
      | WindowsFamily \<Rightarrow> \<lparr>sh_program = ''cmd'', sh_args = [Regular ''/c'', RawArg cmd]\<rparr>)"

section \<open>Joining arguments on Windows\<close>

text \<open>The second argument counts the backslashes just before.\<close>

fun escape_arg :: "nat \<Rightarrow> string \<Rightarrow> string" where
  "escape_arg n [] = []"
| "escape_arg n (c # cs) =
     (if c = CHR 0x5C then c # escape_arg (Suc n) cs
      else if c = CHR 0x22 then replicate (Suc n) (CHR 0x5C) @ c # escape_arg 0 cs
      else c # escape_arg 0 cs)"

definition append_arg :: "Arg \<Rightarrow> string" where
  "append_arg a =
     (case a of
        RawArg s \<Rightarrow> s
      | Regular s \<Rightarrow>
          if s = [] \<or> CHR '' '' \<in> set s \<or> CHR 0x09 \<in> set s
          then CHR 0x22 # escape_arg 0 s @ replicate (length (takeWhile (\<lambda>c. c = CHR 0x5C) (rev s))) (CHR 0x5C) @ [CHR 0x22]
          else escape_arg 0 s)"

definition windows_command_line :: "ShellCommand \<Rightarrow> string" where
  "windows_command_line c =
     [CHR 0x22] @ sh_program c @ [CHR 0x22] @ concat (map (\<lambda>a. CHR '' '' # append_arg a) (sh_args c))"

section \<open>What the shell receives\<close>

text \<open>The shell of Windows receives the command as it is written, so two commands never start the same process.\<close>

lemma shell_command_verbatim:
  "windows_command_line (shell_command WindowsFamily cmd) = CHR 0x22 # ''cmd'' @ CHR 0x22 # '' /c '' @ cmd"
  by (simp add: windows_command_line_def shell_command_def append_arg_def)

lemma shell_command_inj: "shell_command f a = shell_command f b \<longleftrightarrow> a = b"
  by (cases f) (simp_all add: shell_command_def)

lemma shell_std_command_alike: "shell_std_command f = shell_command f"
  by (rule ext) (simp add: shell_std_command_def shell_command_def)

lemma escape_arg_plain: "CHR 0x22 \<notin> set s \<Longrightarrow> escape_arg n s = s"
  by (induction s arbitrary: n) auto

lemma escape_arg_length: "length s \<le> length (escape_arg n s)"
  by (induction n s rule: escape_arg.induct) auto

text \<open>Why the command is not an ordinary argument: every quote in it would reach the shell behind a backslash.\<close>

lemma regular_changes_quotes:
  assumes "CHR 0x22 \<in> set cmd"
  shows "append_arg (Regular cmd) \<noteq> append_arg (RawArg cmd)"
proof -
  have "length cmd < length (escape_arg n cmd)" for n
    using assms
  proof (induction cmd arbitrary: n)
    case (Cons c cs)
    then show ?case using escape_arg_length[of cs 0] by (auto simp: le_imp_less_Suc)
  qed simp
  from this[of 0] show ?thesis by (auto simp: append_arg_def dest: arg_cong[where f = length])
qed

end
