(* ===== verification/Lockfile.thy ===== *)
theory Lockfile
  imports Workspace Files
begin

text \<open>
  The lockfile parsers of the TypeScript plugin (src/crates/plugin-typescript/src/lockfile.rs): yarn berry,
  yarn classic, pnpm and npm, the local tarballs of a yarn lockfile, the keys of packages in the store and the
  search for tarballs in the package manager's cache.
\<close>

section \<open>String searches\<close>

text \<open>\<^verbatim>\<open>split(sep)\<close> for a non-empty string.\<close>

function split_text :: "string \<Rightarrow> string \<Rightarrow> string list" where
  "split_text sep s =
     (if sep = [] then [s]
      else (case split_at sep s of None \<Rightarrow> [s] | Some (a, b) \<Rightarrow> a # split_text sep b))"
  by pat_completeness auto
termination
proof (relation "measure (\<lambda>(sep, s). length s)")
  fix sep s :: string and x2 a b
  assume "sep \<noteq> []" "split_at sep s = Some x2" "(a, b) = x2"
  then show "((sep, b), sep, s) \<in> measure (\<lambda>(sep, s). length s)"
    using split_at_Some[of sep s a b] by auto
qed simp

declare split_text.simps [simp del]

text \<open>The text before the last occurrence of a pattern, and after it (\<^verbatim>\<open>rfind\<close>).\<close>

definition rsplit_at :: "string \<Rightarrow> string \<Rightarrow> (string \<times> string) option" where
  "rsplit_at p s = map_option (\<lambda>(a, b). (rev b, rev a)) (split_at (rev p) (rev s))"

definition trim_start_char :: "char \<Rightarrow> string \<Rightarrow> string" where
  "trim_start_char c s = dropWhile (\<lambda>x. x = c) s"

definition trim_end_char :: "char \<Rightarrow> string \<Rightarrow> string" where
  "trim_end_char c s = rev (dropWhile (\<lambda>x. x = c) (rev s))"

definition trim_char :: "char \<Rightarrow> string \<Rightarrow> string" where
  "trim_char c s = trim_end_char c (trim_start_char c s)"

abbreviation quote :: char where "quote \<equiv> CHR 34"

definition first_spec :: "string \<Rightarrow> string" where
  "first_spec s = trim_char quote (trim (hd (split_on (CHR '','') s)))"

section \<open>Packages\<close>

record LockfilePackage =
  lp_name :: string
  lp_version :: string
  lp_integrity :: string
  lp_tarball :: "string option"

definition name_version :: "LockfilePackage \<Rightarrow> string \<times> string" where
  "name_version p = (lp_name p, lp_version p)"

definition sort_dedup :: "LockfilePackage list \<Rightarrow> LockfilePackage list" where
  "sort_dedup ps = dedup_key name_version (sort_key name_version ps)"

section \<open>Yarn berry\<close>

record Berry =
  by_name :: "string option"
  by_version :: "string option"
  by_checksum :: "string option"
  by_resolution :: "string option"
  by_workspace :: bool

definition berry_init :: Berry where
  "berry_init = \<lparr>by_name = None, by_version = None, by_checksum = None, by_resolution = None, by_workspace = False\<rparr>"

definition berry_line :: "string \<Rightarrow> Berry \<Rightarrow> Berry" where
  "berry_line raw st =
     (let line = trim raw in
      if starts_with [quote] line \<and> ends_with '':'' line \<and> by_name st = None then
        (let spec = first_spec (trim_end_char (CHR '':'') (trim_start_char quote line)) in
         case rsplit_at ''@npm:'' spec of
           Some (name, _) \<Rightarrow> st\<lparr>by_name := Some name\<rparr>
         | None \<Rightarrow> (case rsplit_at ''@workspace:'' spec of Some _ \<Rightarrow> st\<lparr>by_workspace := True\<rparr> | None \<Rightarrow> st))
      else (case strip_pre ''version: '' line of
          Some v \<Rightarrow> st\<lparr>by_version := Some (trim v)\<rparr>
        | None \<Rightarrow> (case strip_pre ''checksum: '' line of
            Some cs \<Rightarrow> st\<lparr>by_checksum := Some (trim cs)\<rparr>
          | None \<Rightarrow> (case strip_pre ''resolution: '' line of
              Some res \<Rightarrow> st\<lparr>by_resolution := Some (trim_char quote (trim res))\<rparr>
            | None \<Rightarrow> if line = ''languageName: unknown'' \<or> line = ''linkType: soft'' then st\<lparr>by_workspace := True\<rparr> else st))))"

definition berry_package :: "Berry \<Rightarrow> LockfilePackage option" where
  "berry_package st =
     (case (by_workspace st, by_name st, by_version st, by_checksum st) of
        (False, Some alias, Some version, Some checksum) \<Rightarrow>
          Some \<lparr>lp_name = (case Option.bind (by_resolution st) (rsplit_at ''@npm:'') of None \<Rightarrow> alias | Some (real, _) \<Rightarrow> real),
                lp_version = version, lp_integrity = checksum, lp_tarball = None\<rparr>
      | _ \<Rightarrow> None)"

definition berry_block :: "string \<Rightarrow> LockfilePackage option" where
  "berry_block raw =
     (let block = trim raw in
      if block = [] \<or> starts_with ''__metadata'' block then None
      else berry_package (fold berry_line (str_lines block) berry_init))"

definition parse_yarn_berry_lockfile :: "string \<Rightarrow> LockfilePackage list" where
  "parse_yarn_berry_lockfile content = sort_dedup (List.map_filter berry_block (split_text [newline, newline] content))"

section \<open>Yarn classic\<close>

record Classic =
  cl_version :: "string option"
  cl_integrity :: "string option"
  cl_resolved :: "string option"

definition classic_line :: "string \<Rightarrow> Classic \<Rightarrow> Classic" where
  "classic_line raw st =
     (let trimmed = trim raw in
      case strip_pre ''version '' trimmed of
        Some v \<Rightarrow> st\<lparr>cl_version := Some (trim_char quote (trim v))\<rparr>
      | None \<Rightarrow> (case strip_pre ''resolved '' trimmed of
          Some r \<Rightarrow> st\<lparr>cl_resolved := Some (trim_char quote (trim r))\<rparr>
        | None \<Rightarrow> (case strip_pre ''integrity '' trimmed of
            Some cs \<Rightarrow> st\<lparr>cl_integrity := Some (trim cs)\<rparr>
          | None \<Rightarrow> st)))"

definition classic_name :: "string \<Rightarrow> string option" where
  "classic_name line =
     map_option fst (rsplit_at ''@'' (first_spec (trim_char quote (trim_end_char (CHR '':'') (trim line)))))"

definition classic_block :: "string \<Rightarrow> LockfilePackage option" where
  "classic_block raw =
     (let block = trim raw in
      if block = [] \<or> starts_with ''#'' block then None
      else (case str_lines block of
          [] \<Rightarrow> None
        | l # ls \<Rightarrow>
            (let st = fold classic_line ls \<lparr>cl_version = None, cl_integrity = None, cl_resolved = None\<rparr> in
             case (classic_name l, cl_version st) of
               (Some name, Some version) \<Rightarrow>
                 if cl_resolved st = None \<and> cl_integrity st = None then None
                 else Some \<lparr>lp_name = name, lp_version = version,
                   lp_integrity = (case cl_integrity st of None \<Rightarrow> [] | Some i \<Rightarrow> i), lp_tarball = cl_resolved st\<rparr>
             | _ \<Rightarrow> None)))"

definition parse_yarn_classic_lockfile :: "string \<Rightarrow> LockfilePackage list" where
  "parse_yarn_classic_lockfile content = sort_dedup (List.map_filter classic_block (split_text [newline, newline] content))"

section \<open>pnpm\<close>

record PnpmState =
  pn_in_packages :: bool
  pn_name :: "string option"
  pn_version :: "string option"
  pn_integrity :: "string option"
  pn_out :: "LockfilePackage list"

text \<open>Pushing the current entry takes the name and the version away, and the integrity when there was an entry.\<close>

definition pnpm_push :: "PnpmState \<Rightarrow> PnpmState" where
  "pnpm_push st =
     (let st1 = st\<lparr>pn_name := None, pn_version := None\<rparr> in
      case (pn_name st, pn_version st) of
        (Some n, Some v) \<Rightarrow>
          (let int = (case pn_integrity st of None \<Rightarrow> [] | Some i \<Rightarrow> i); st2 = st1\<lparr>pn_integrity := None\<rparr> in
           if int = [] then st2
           else st2\<lparr>pn_out := pn_out st @ [\<lparr>lp_name = n, lp_version = v, lp_integrity = int, lp_tarball = None\<rparr>]\<rparr>)
      | _ \<Rightarrow> st1)"

definition until_delimiter :: "string \<Rightarrow> string" where
  "until_delimiter s = takeWhile (\<lambda>c. c \<noteq> CHR '','' \<and> c \<noteq> CHR ''}'') s"

definition pnpm_line :: "string \<Rightarrow> PnpmState \<Rightarrow> PnpmState" where
  "pnpm_line line st =
     (if starts_with ''packages:'' line then st\<lparr>pn_in_packages := True\<rparr>
      else if \<not> pn_in_packages st then st
      else if \<not> starts_with '' '' line \<and> \<not> starts_with [CHR 9] line \<and> ends_with '':'' line then st\<lparr>pn_in_packages := False\<rparr>
      else (let trimmed = trim line in
        if ends_with '':'' trimmed \<and> \<not> starts_with ''resolution:'' trimmed \<and> starts_with ''  /'' line then
          (let st1 = pnpm_push st; spec = trim_start_char slash (trim_end_char (CHR '':'') trimmed) in
           case rsplit_at ''@'' spec of
             Some (n, v) \<Rightarrow> st1\<lparr>pn_name := Some n, pn_version := Some v\<rparr>
           | None \<Rightarrow> st1)
        else (case strip_pre ''integrity:'' trimmed of
            Some rest \<Rightarrow> st\<lparr>pn_integrity := Some (trim rest)\<rparr>
          | None \<Rightarrow>
              if contains_str ''integrity:'' trimmed \<and> starts_with ''resolution:'' trimmed then
                (case split_at ''integrity: '' trimmed of
                   Some (_, rest) \<Rightarrow> st\<lparr>pn_integrity := Some (trim (until_delimiter rest))\<rparr>
                 | None \<Rightarrow> st)
              else st)))"

definition parse_pnpm_lockfile :: "string \<Rightarrow> LockfilePackage list" where
  "parse_pnpm_lockfile content =
     sort_dedup (pn_out (pnpm_push (fold pnpm_line (str_lines content)
       \<lparr>pn_in_packages = False, pn_name = None, pn_version = None, pn_integrity = None, pn_out = []\<rparr>)))"

section \<open>npm\<close>

definition npm_entry :: "string \<times> json \<Rightarrow> LockfilePackage option" where
  "npm_entry kv =
     (case kv of (key, pkg) \<Rightarrow>
       (let name = (case strip_pre ''node_modules/'' key of Some n \<Rightarrow> n | None \<Rightarrow> key);
            field = (\<lambda>k. Option.bind (json_get k pkg) json_str);
            integrity = (case field ''integrity'' of Some i \<Rightarrow> i | None \<Rightarrow> []) in
        if name = [] \<or> json_get ''link'' pkg = Some (JBool True) \<or> integrity = [] then None
        else Some \<lparr>lp_name = name, lp_version = (case field ''version'' of Some v \<Rightarrow> v | None \<Rightarrow> []),
                   lp_integrity = integrity, lp_tarball = field ''resolved''\<rparr>))"

definition parse_npm_lockfile :: "(string \<Rightarrow> json option) \<Rightarrow> string \<Rightarrow> LockfilePackage list" where
  "parse_npm_lockfile json content =
     (case json content of
        None \<Rightarrow> []
      | Some v \<Rightarrow> (case Option.bind (json_get ''packages'' v) json_obj of
            None \<Rightarrow> []
          | Some pkgs \<Rightarrow> sort_key name_version (List.map_filter npm_entry pkgs)))"

section \<open>Local tarballs, keys and caches\<close>

fun file_paths_of :: "string \<Rightarrow> string list \<Rightarrow> string list \<Rightarrow> string list" where
  "file_paths_of root [] paths = paths"
| "file_paths_of root (line # ls) paths =
    (case strip_pre (''resolution: '' @ [quote]) (trim line) of
       None \<Rightarrow> file_paths_of root ls paths
     | Some rest \<Rightarrow> (case split_at ''@file:./'' rest of
           None \<Rightarrow> file_paths_of root ls paths
         | Some (_, after) \<Rightarrow>
             (let rel = takeWhile (\<lambda>c. c \<noteq> CHR ''#'' \<and> c \<noteq> quote) (''./'' @ after); abs = path_join root rel in
              file_paths_of root ls (if rel = [] \<or> abs \<in> set paths then paths else paths @ [abs]))))"

definition collect_file_protocol_paths :: "string \<Rightarrow> string \<Rightarrow> string list" where
  "collect_file_protocol_paths content root = file_paths_of root (str_lines content) []"

definition compute_cas_key :: "(string \<Rightarrow> string) \<Rightarrow> string \<Rightarrow> string" where
  "compute_cas_key hash integrity = hash integrity"

definition find_yarn_berry_zip :: "(string \<Rightarrow> string list option) \<Rightarrow> string \<Rightarrow> string \<Rightarrow> string \<Rightarrow> string option" where
  "find_yarn_berry_zip ls dir name version =
     (case ls dir of None \<Rightarrow> None
      | Some entries \<Rightarrow> map_option (path_join dir) (List.find (\<lambda>n.
          starts_with (replace_char slash ''-'' name @ ''-npm-'' @ version @ ''-'') n \<and> ends_with ''.zip'' n) entries))"

definition find_yarn_classic_tgz :: "(string \<Rightarrow> string list option) \<Rightarrow> string \<Rightarrow> string \<Rightarrow> string \<Rightarrow> string option" where
  "find_yarn_classic_tgz ls dir name version =
     (case ls dir of None \<Rightarrow> None
      | Some entries \<Rightarrow> map_option (path_join dir) (List.find (\<lambda>n.
          starts_with (''npm-'' @ replace_char slash ''-'' name @ ''-'' @ version @ ''-'') n \<and> ends_with ''.tgz'' n) entries))"

section \<open>Examples of what goes wrong\<close>

text \<open>The version is matched as a prefix: a prerelease listed first is taken for the release, and its bytes are
  stored under the key of the release.\<close>

lemma prerelease_taken_for_release:
  "find_yarn_berry_zip (\<lambda>d. Some [''ms-npm-1.0.0-beta.1-ab.zip'', ''ms-npm-1.0.0-cd.zip'']) ''/c'' ''ms'' ''1.0.0'' =
    Some ''/c/ms-npm-1.0.0-beta.1-ab.zip''"
  by code_simp

text \<open>An entry whose key has no version after an at sign leaves its integrity to the next entry.\<close>

lemma pnpm_integrity_leak:
  "parse_pnpm_lockfile (join_with [newline] [''packages:'', ''  /ms/2.1.3:'', ''    integrity: sha-ms'', ''  /foo@1.0.0:'', ''    dev: false'']) =
    [\<lparr>lp_name = ''foo'', lp_version = ''1.0.0'', lp_integrity = ''sha-ms'', lp_tarball = None\<rparr>]"
  by code_simp

text \<open>A peer suffix becomes part of the name.\<close>

lemma pnpm_peer_suffix:
  "parse_pnpm_lockfile (join_with [newline] [''packages:'', ''  /ui@1.0.0(react@18.0.0):'', ''    integrity: sha-ui'']) =
    [\<lparr>lp_name = ''ui@1.0.0(react'', lp_version = ''18.0.0)'', lp_integrity = ''sha-ui'', lp_tarball = None\<rparr>]"
  by code_simp

end
