(* ===== verification/Berry_Roundtrip.thy ===== *)
theory Berry_Roundtrip
  imports Lockfile
begin

text \<open>
  The yarn berry parser reads back what yarn writes: the text of a lockfile with a header and one block per
  entry, and what the parser makes of each line, each block and the whole.
\<close>

section \<open>Lines and blocks\<close>

lemma strip_pre_append [simp]: "strip_pre p (p @ r) = Some r"
  by simp

lemma rsplit_at_last: "c \<notin> set b \<Longrightarrow> rsplit_at (p @ [c]) (a @ p @ c # b) = Some (a, b)"
proof -
  have "split_at (c # q) (y @ c # q @ x) = Some (y, x)" if "c \<notin> set y" for q x y
    using that by (induction y) (auto simp del: strip_pre_Some_iff)
  from this[of "rev b" "rev p" "rev a"] show "c \<notin> set b \<Longrightarrow> rsplit_at (p @ [c]) (a @ p @ c # b) = Some (a, b)"
    by (simp add: rsplit_at_def)
qed

lemma split_at_skip: "c \<notin> set l \<Longrightarrow> split_at (c # p) (l @ x) = map_option (\<lambda>r. (l @ fst r, snd r)) (split_at (c # p) x)"
  by (induction l) (auto simp: option.map_comp comp_def case_prod_beta option.map_ident)

abbreviation blank :: string where "blank \<equiv> [newline, newline]"

text \<open>A block: lines that are not empty and have no newline.\<close>
definition plain_line :: "string \<Rightarrow> bool" where
  "plain_line l \<longleftrightarrow> l \<noteq> [] \<and> newline \<notin> set l"

lemma blank_in_block:
  assumes "ls \<noteq> []" "\<forall>l\<in>set ls. plain_line l"
  shows "split_at blank (join_with [newline] ls @ x) = map_option (\<lambda>r. (join_with [newline] ls @ fst r, snd r)) (split_at blank x)"
  using assms
proof (induction "[newline]" ls rule: join_with.induct)
  case (2 l)
  then show ?case by (simp add: plain_line_def split_at_skip)
next
  case (3 l m ls)
  obtain c r where m: "m = c # r" "c \<noteq> newline" using 3 by (cases m) (auto simp: plain_line_def)
  have j: "join_with [newline] (m # ls) @ x = c # tl (join_with [newline] (m # ls) @ x)"
    using m by (cases ls) auto
  have "split_at blank (newline # join_with [newline] (m # ls) @ x) =
      map_option (\<lambda>r. (newline # fst r, snd r)) (split_at blank (join_with [newline] (m # ls) @ x))"
    by (subst (1 2) j) (use m in \<open>simp add: case_prod_unfold\<close>)
  then show ?case using 3 by (simp add: plain_line_def split_at_skip option.map_comp comp_def split_beta)
qed simp

lemma split_blocks:
  assumes "bs \<noteq> []" "\<forall>b\<in>set bs. b \<noteq> [] \<and> (\<forall>l\<in>set b. plain_line l)" "t = [] \<or> t = [newline]"
  shows "split_text blank (join_with blank (map (join_with [newline]) bs) @ t) =
    map (join_with [newline]) (butlast bs) @ [join_with [newline] (last bs) @ t]"
  using assms
proof (induction bs rule: induct_list012)
  case (2 b)
  have "split_at blank t = None" using 2 by auto
  then show ?case using 2 by (subst split_text.simps) (auto simp: blank_in_block)
next
  case (3 b c bs)
  let ?r = "join_with blank (map (join_with [newline]) (c # bs)) @ t"
  have "split_at blank (join_with [newline] b @ blank @ ?r) = Some (join_with [newline] b, ?r)"
    using 3 by (subst blank_in_block) auto
  then show ?case using 3 by (subst split_text.simps) auto
qed simp

lemma str_lines_join:
  assumes "ls \<noteq> []" "\<forall>l\<in>set ls. plain_line l \<and> last l \<noteq> CHR 13"
  shows "str_lines (join_with [newline] ls) = ls"
proof -
  have s: "split_on newline (join_with [newline] ls) = ls"
    using assms by (intro split_join) (auto simp: plain_line_def)
  have "map drop_cr (butlast ls) = butlast ls"
    using assms(2) by (intro map_idI) (auto simp: drop_cr_def dest: in_set_butlastD)
  moreover have "last ls \<noteq> []" using assms last_in_set[OF assms(1)] by (auto simp: plain_line_def)
  ultimately show ?thesis using assms(1) by (simp add: str_lines_def s)
qed


section \<open>A yarn berry lockfile, written\<close>

record BerryEntry =
  be_alias :: string
  be_range :: string
  be_name :: string
  be_version :: string
  be_checksum :: string
  be_workspace :: bool

definition berry_lines :: "BerryEntry \<Rightarrow> string list" where
  "berry_lines e =
     (if be_workspace e then
        [[quote] @ be_alias e @ ''@workspace:'' @ be_range e @ [quote] @ '':'', ''  version: '' @ be_version e,
         ''  resolution: '' @ [quote] @ be_name e @ ''@workspace:'' @ be_range e @ [quote],
         ''  languageName: unknown'', ''  linkType: soft'']
      else
        [[quote] @ be_alias e @ ''@npm:'' @ be_range e @ [quote] @ '':'', ''  version: '' @ be_version e,
         ''  resolution: '' @ [quote] @ be_name e @ ''@npm:'' @ be_version e @ [quote],
         ''  checksum: '' @ be_checksum e, ''  languageName: node'', ''  linkType: hard''])"

definition berry_header :: "string list" where
  "berry_header = [''__metadata:'', ''  version: 8'', ''  cacheKey: 10c0'']"

definition berry_text :: "BerryEntry list \<Rightarrow> string" where
  "berry_text es = join_with blank (map (join_with [newline]) (berry_header # map berry_lines es)) @ [newline]"

definition token :: "string \<Rightarrow> bool" where
  "token s \<longleftrightarrow> s \<noteq> [] \<and> (\<forall>c\<in>set s. \<not> is_ws c \<and> c \<noteq> quote \<and> c \<noteq> CHR '','')"

definition berry_ok :: "BerryEntry \<Rightarrow> bool" where
  "berry_ok e \<longleftrightarrow> token (be_alias e) \<and> token (be_range e) \<and> token (be_name e) \<and> token (be_version e) \<and> token (be_checksum e) \<and>
     CHR '':'' \<notin> set (be_alias e) \<and> CHR '':'' \<notin> set (be_range e) \<and> CHR '':'' \<notin> set (be_version e)"

definition berry_result :: "BerryEntry \<Rightarrow> LockfilePackage" where
  "berry_result e = \<lparr>lp_name = be_name e, lp_version = be_version e, lp_integrity = be_checksum e, lp_tarball = None\<rparr>"

lemma tokenD:
  assumes "token s"
  shows "s \<noteq> []" "newline \<notin> set s" "\<not> is_ws (hd s)" "\<not> is_ws (last s)" "quote \<notin> set s" "CHR '','' \<notin> set s"
    "\<forall>c\<in>set s. \<not> is_ws c"
  using assms by (auto simp: token_def is_ws_def)

lemma trim_edges:
  assumes "s \<noteq> []" "\<not> is_ws (hd s)" "\<not> is_ws (last s)" "\<forall>c\<in>set a. is_ws c" "\<forall>c\<in>set b. is_ws c"
  shows "trim (a @ s @ b) = s"
proof -
  have start: "dropWhile is_ws (a @ s @ b) = s @ b"
    using assms(1,2,4) by (simp add: dropWhile_append2) (simp add: dropWhile_eq_self_iff)
  have "dropWhile is_ws (rev b @ rev s) = rev s"
    using assms(1,3,5) by (subst dropWhile_append2) (auto simp: dropWhile_eq_self_iff hd_rev)
  then show ?thesis by (simp add: trim_def trim_start_def trim_end_def start)
qed

lemma trim_token: "token s \<Longrightarrow> trim s = s"
  using trim_edges[of s "[]" "[]"] tokenD[of s] by simp

lemma trim_indented: "s \<noteq> [] \<Longrightarrow> \<not> is_ws (hd s) \<Longrightarrow> \<not> is_ws (last s) \<Longrightarrow> trim (CHR '' '' # CHR '' '' # s) = s"
  using trim_edges[of s "''  ''" "[]"] by (simp add: is_ws_def)

lemma trim_char_quoted: "quote \<notin> set s \<Longrightarrow> trim_char quote (quote # s @ [quote]) = s" "quote \<notin> set s \<Longrightarrow> trim_char quote (s @ [quote]) = s"
proof -
  have d: "dropWhile (\<lambda>x. x = quote) (y @ [quote]) = y @ [quote]" if "quote \<notin> set y" "y \<noteq> []" for y
    using that by (cases y) auto
  have e: "dropWhile (\<lambda>x. x = quote) y = y" if "quote \<notin> set y" for y using that by (cases y) auto
  show "quote \<notin> set s \<Longrightarrow> trim_char quote (quote # s @ [quote]) = s" "quote \<notin> set s \<Longrightarrow> trim_char quote (s @ [quote]) = s"
    by (cases "s = []"; simp add: trim_char_def trim_start_char_def trim_end_char_def d e)+
qed

lemma first_spec_key:
  assumes "token s"
  shows "first_spec (trim_end_char (CHR '':'') (trim_start_char quote (quote # s @ [quote, CHR '':'']))) = s"
proof -
  have n: "quote \<notin> set s" "s \<noteq> []" "CHR '','' \<notin> set s" using tokenD[OF assms] by auto
  then obtain c r where s: "s = c # r" "c \<noteq> quote" by (cases s) auto
  have "trim_start_char quote (quote # s @ [quote, CHR '':'']) = s @ [quote, CHR '':'']"
    using s by (simp add: trim_start_char_def)
  moreover have "trim_end_char (CHR '':'') (s @ [quote, CHR '':'']) = s @ [quote]" by (simp add: trim_end_char_def)
  moreover have "split_on (CHR '','') (s @ [quote]) = [s @ [quote]]" using n by (intro split_on_single) simp
  moreover have "trim (s @ [quote]) = s @ [quote]"
    using trim_edges[of "s @ [quote]" "[]" "[]"] tokenD(1,3)[OF assms] by (simp add: is_ws_def)
  ultimately show ?thesis using n by (simp add: first_spec_def trim_char_quoted)
qed

lemma key_token: "token a \<Longrightarrow> token b \<Longrightarrow> token (a @ ''@npm:'' @ b)" "token a \<Longrightarrow> token b \<Longrightarrow> token (a @ ''@workspace:'' @ b)"
  by (auto simp: token_def is_ws_def)

lemma key_split:
  assumes "CHR '':'' \<notin> set b"
  shows "rsplit_at ''@npm:'' (a @ ''@npm:'' @ b) = Some (a, b)" "rsplit_at ''@workspace:'' (a @ ''@workspace:'' @ b) = Some (a, b)"
  using rsplit_at_last[OF assms, of "''@npm''" a] rsplit_at_last[OF assms, of "''@workspace''" a] by simp_all

text \<open>Line by line.\<close>

lemma berry_line_key:
  assumes "token a" "token b" "CHR '':'' \<notin> set b" "by_name st = None"
  shows "berry_line ([quote] @ a @ ''@npm:'' @ b @ [quote] @ '':'') st = st\<lparr>by_name := Some a\<rparr>"
proof -
  let ?l = "quote # (a @ ''@npm:'' @ b) @ [quote, CHR '':'']"
  have t: "trim ?l = ?l" using trim_edges[of ?l "[]" "[]"] by (simp add: is_ws_def)
  have q: "starts_with [quote] ?l" "ends_with '':'' ?l" by (auto simp: starts_with_iff ends_with_iff)
  have "berry_line ?l st = st\<lparr>by_name := Some a\<rparr>"
    unfolding berry_line_def t Let_def first_spec_key[OF key_token(1)[OF assms(1,2)]] key_split(1)[OF assms(3)]
    using q assms(4) by simp
  then show ?thesis by simp
qed

lemma berry_line_workspace:
  assumes "token a" "token b" "CHR '':'' \<notin> set b" "by_name st = None" "rsplit_at ''@npm:'' (a @ ''@workspace:'' @ b) = None"
  shows "berry_line ([quote] @ a @ ''@workspace:'' @ b @ [quote] @ '':'') st = st\<lparr>by_workspace := True\<rparr>"
proof -
  let ?l = "quote # (a @ ''@workspace:'' @ b) @ [quote, CHR '':'']"
  have t: "trim ?l = ?l" using trim_edges[of ?l "[]" "[]"] by (simp add: is_ws_def)
  have q: "starts_with [quote] ?l" "ends_with '':'' ?l" by (auto simp: starts_with_iff ends_with_iff)
  have "berry_line ?l st = st\<lparr>by_workspace := True\<rparr>"
    unfolding berry_line_def t Let_def first_spec_key[OF key_token(2)[OF assms(1,2)]] key_split(2)[OF assms(3)]
    using q assms(4,5) by simp
  then show ?thesis by simp
qed

lemma last_append_ne: "y \<noteq> [] \<Longrightarrow> last (x @ y) = last y"
  by simp

lemma berry_line_version:
  assumes "token v"
  shows "berry_line (''  version: '' @ v) st = st\<lparr>by_version := Some v\<rparr>"
proof -
  have t: "trim (''  version: '' @ v) = ''version: '' @ v"
    using trim_indented[of "''version: '' @ v"] tokenD[OF assms] by (simp add: is_ws_def)
  show ?thesis unfolding berry_line_def t Let_def using trim_token[OF assms] by (simp add: starts_with_iff)
qed

lemma berry_line_checksum:
  assumes "token v"
  shows "berry_line (''  checksum: '' @ v) st = st\<lparr>by_checksum := Some v\<rparr>"
proof -
  have t: "trim (''  checksum: '' @ v) = ''checksum: '' @ v"
    using trim_indented[of "''checksum: '' @ v"] tokenD[OF assms] by (simp add: is_ws_def)
  show ?thesis unfolding berry_line_def t Let_def using trim_token[OF assms] by (simp add: starts_with_iff)
qed

lemma berry_line_resolution:
  assumes "token v"
  shows "berry_line (''  resolution: '' @ [quote] @ v @ [quote]) st = st\<lparr>by_resolution := Some v\<rparr>"
proof -
  have t: "trim (''  resolution: '' @ [quote] @ v @ [quote]) = ''resolution: '' @ [quote] @ v @ [quote]"
    using trim_indented[of "''resolution: '' @ [quote] @ v @ [quote]"] by (simp add: is_ws_def)
  have u: "trim (quote # v @ [quote]) = quote # v @ [quote]"
    using trim_edges[of "quote # v @ [quote]" "[]" "[]"] by (simp add: is_ws_def)
  show ?thesis unfolding berry_line_def t Let_def
    using u trim_char_quoted(1)[OF tokenD(5)[OF assms]] by (simp add: starts_with_iff)
qed

lemma berry_line_tail:
  "berry_line ''  languageName: node'' st = st" "berry_line ''  linkType: hard'' st = st"
  "berry_line ''  languageName: unknown'' st = st\<lparr>by_workspace := True\<rparr>" "berry_line ''  linkType: soft'' st = st\<lparr>by_workspace := True\<rparr>"
  by (simp_all add: berry_line_def trim_def trim_start_def trim_end_def is_ws_def starts_with_def ends_with_def strip_suf_def
      del: strip_pre_Some_iff)

lemma no_npm_key:
  assumes "CHR '':'' \<notin> set a" "CHR '':'' \<notin> set b"
  shows "rsplit_at ''@npm:'' (a @ ''@workspace:'' @ b) = None"
proof (rule ccontr)
  assume "rsplit_at ''@npm:'' (a @ ''@workspace:'' @ b) \<noteq> None"
  then obtain x y where "split_at (rev ''@npm:'') (rev (a @ ''@workspace:'' @ b)) = Some (y, x)"
    by (auto simp: rsplit_at_def)
  from split_at_Some[OF this] have "rev (a @ ''@workspace:'' @ b) = y @ rev ''@npm:'' @ x" .
  then have "rev (rev (a @ ''@workspace:'' @ b)) = rev (y @ rev ''@npm:'' @ x)" by (rule arg_cong)
  then have e: "(a @ ''@workspace'') @ CHR '':'' # b = (rev x @ ''@npm'') @ CHR '':'' # rev y" by simp
  define l where "l = a @ ''@workspace''"
  have l: "CHR '':'' \<notin> set l" using assms(1) by (simp add: l_def)
  have "rev x @ ''@npm'' = l"
  proof -
    have "takeWhile (\<lambda>c. c \<noteq> CHR '':'') (l @ CHR '':'' # b) = l" using l by (auto simp: takeWhile_eq_all_conv takeWhile_append)
    moreover have "CHR '':'' \<notin> set (rev x @ ''@npm'')"
    proof
      assume "CHR '':'' \<in> set (rev x @ ''@npm'')"
      then obtain u v where "rev x @ ''@npm'' = u @ CHR '':'' # v" by (meson split_list)
      then have "l @ CHR '':'' # b = u @ CHR '':'' # (v @ CHR '':'' # rev y)" using e l_def by simp
      then have "count_list (l @ CHR '':'' # b) (CHR '':'') = count_list (u @ CHR '':'' # (v @ CHR '':'' # rev y)) (CHR '':'')" by simp
      then show False using l assms(2) by (simp add: count_list_0_iff)
    qed
    then have "takeWhile (\<lambda>c. c \<noteq> CHR '':'') ((rev x @ ''@npm'') @ CHR '':'' # rev y) = rev x @ ''@npm''"
      by (auto simp: takeWhile_eq_all_conv takeWhile_append)
    ultimately show ?thesis using e l_def by metis
  qed
  then have "rev (rev x @ ''@npm'') = rev l" by simp
  then show False by (simp add: l_def)
qed

lemma join_ne: "ls \<noteq> [] \<Longrightarrow> hd ls \<noteq> [] \<Longrightarrow> join_with sep ls \<noteq> []"
  by (cases ls rule: remdups_adj.cases) auto

lemma last_join: "ls \<noteq> [] \<Longrightarrow> \<forall>l\<in>set ls. l \<noteq> [] \<Longrightarrow> last (join_with [newline] ls) = last (last ls)"
  by (induction "[newline]" ls rule: join_with.induct) (auto simp: join_ne)

lemma hd_join: "ls \<noteq> [] \<Longrightarrow> hd ls \<noteq> [] \<Longrightarrow> hd (join_with [newline] ls) = hd (hd ls)"
  by (cases ls rule: remdups_adj.cases) auto

lemma berry_lines_facts:
  assumes "berry_ok e"
  shows "berry_lines e \<noteq> []" "\<forall>l\<in>set (berry_lines e). plain_line l \<and> last l \<noteq> CHR 13"
    "\<exists>r. hd (berry_lines e) = quote # r" "\<not> is_ws (last (last (berry_lines e)))"
proof -
  have t: "newline \<notin> set s" "last s \<noteq> CHR 13" "s \<noteq> []" if "token s" for s
    using tokenD[OF that] by (auto simp: is_ws_def)
  show "berry_lines e \<noteq> []" "\<exists>r. hd (berry_lines e) = quote # r" by (simp_all add: berry_lines_def)
  show "\<not> is_ws (last (last (berry_lines e)))" by (simp add: berry_lines_def is_ws_def)
  show "\<forall>l\<in>set (berry_lines e). plain_line l \<and> last l \<noteq> CHR 13"
    using assms t by (auto simp: berry_lines_def plain_line_def berry_ok_def)
qed

lemma berry_lines_fold:
  assumes "berry_ok e"
  shows "berry_package (fold berry_line (berry_lines e) berry_init) = (if be_workspace e then None else Some (berry_result e))"
proof -
  note ok = assms[unfolded berry_ok_def]
  have init: "by_name berry_init = None" by (simp add: berry_init_def)
  show ?thesis
  proof (cases "be_workspace e")
    case True
    have a: "berry_line ([quote] @ be_alias e @ ''@workspace:'' @ be_range e @ [quote] @ '':'') berry_init = berry_init\<lparr>by_workspace := True\<rparr>"
      using ok no_npm_key by (intro berry_line_workspace[OF _ _ _ init]) auto
    have r: "berry_line (''  resolution: '' @ [quote] @ be_name e @ ''@workspace:'' @ be_range e @ [quote]) st =
        st\<lparr>by_resolution := Some (be_name e @ ''@workspace:'' @ be_range e)\<rparr>" for st
      using berry_line_resolution[OF key_token(2), of "be_name e" "be_range e" st] ok by simp
    have "fold berry_line (berry_lines e) berry_init =
        berry_init\<lparr>by_workspace := True, by_version := Some (be_version e), by_resolution := Some (be_name e @ ''@workspace:'' @ be_range e)\<rparr>"
      unfolding berry_lines_def using True ok
      by (simp only: if_True fold_simps a r berry_line_version berry_line_tail) (simp add: berry_init_def)
    then show ?thesis using True by (simp add: berry_package_def)
  next
    case False
    have a: "berry_line ([quote] @ be_alias e @ ''@npm:'' @ be_range e @ [quote] @ '':'') berry_init = berry_init\<lparr>by_name := Some (be_alias e)\<rparr>"
      using ok by (intro berry_line_key[OF _ _ _ init]) auto
    have r: "berry_line (''  resolution: '' @ [quote] @ be_name e @ ''@npm:'' @ be_version e @ [quote]) st =
        st\<lparr>by_resolution := Some (be_name e @ ''@npm:'' @ be_version e)\<rparr>" for st
      using berry_line_resolution[OF key_token(1), of "be_name e" "be_version e" st] ok by simp
    have "fold berry_line (berry_lines e) berry_init =
        berry_init\<lparr>by_name := Some (be_alias e), by_version := Some (be_version e),
          by_resolution := Some (be_name e @ ''@npm:'' @ be_version e), by_checksum := Some (be_checksum e)\<rparr>"
      unfolding berry_lines_def using False ok
      by (simp only: if_False fold_simps a r berry_line_version berry_line_checksum berry_line_tail)
    then show ?thesis using False key_split(1)[of "be_version e" "be_name e"] ok
      by (simp add: berry_package_def berry_result_def berry_init_def)
  qed
qed

lemma berry_block_text:
  assumes "berry_ok e" "t = [] \<or> t = [newline]"
  shows "berry_block (join_with [newline] (berry_lines e) @ t) = (if be_workspace e then None else Some (berry_result e))"
proof -
  note f = berry_lines_facts[OF assms(1)]
  let ?j = "join_with [newline] (berry_lines e)"
  obtain r where r: "hd (berry_lines e) = quote # r" using f(3) by blast
  have h: "hd ?j = quote" using hd_join[OF f(1)] r by simp
  have l: "last ?j = last (last (berry_lines e))" using f(2) by (intro last_join f(1)) (simp add: plain_line_def)
  have ne: "?j \<noteq> []" using f(1) r by (cases "berry_lines e" rule: remdups_adj.cases) auto
  have ws: "\<not> is_ws (hd ?j)" using h by (simp add: is_ws_def)
  have "trim (?j @ t) = ?j" using trim_edges[of ?j "[]" t] ne ws l f(4) assms(2) by (auto simp: is_ws_def)
  moreover have "\<not> starts_with ''__metadata'' ?j" using h ne by (auto simp: starts_with_iff)
  moreover have "str_lines ?j = berry_lines e" by (rule str_lines_join[OF f(1,2)])
  ultimately show ?thesis using ne berry_lines_fold[OF assms(1)] by (simp add: berry_block_def)
qed

lemma berry_header_block: "t = [] \<or> t = [newline] \<Longrightarrow> berry_block (join_with [newline] berry_header @ t) = None"
proof -
  assume t: "t = [] \<or> t = [newline]"
  let ?j = "join_with [newline] berry_header"
  have "trim (?j @ t) = ?j" using trim_edges[of ?j "[]" t] t by (auto simp: berry_header_def is_ws_def)
  moreover have "starts_with ''__metadata'' ?j" by (simp add: berry_header_def starts_with_def del: strip_pre_Some_iff)
  ultimately show ?thesis by (simp add: berry_block_def)
qed

lemma sort_dedup_facts:
  "sorted_wrt (<) (map name_version (sort_dedup ps))" "name_version ` set (sort_dedup ps) = name_version ` set ps"
  unfolding sort_dedup_def by (rule dedup_key_sorted, simp) (simp add: dedup_key_keys)

text \<open>C18. The parser reads back a written lockfile: the packages are exactly the entries that are not workspace
  packages, under the names of their resolutions, not the aliases of their keys, sorted, and each name and version
  once.\<close>

theorem berry_roundtrip:
  assumes "\<forall>e\<in>set es. berry_ok e"
  shows "parse_yarn_berry_lockfile (berry_text es) = sort_dedup (map berry_result (filter (\<lambda>e. \<not> be_workspace e) es)) \<and>
    sorted_wrt (<) (map name_version (parse_yarn_berry_lockfile (berry_text es))) \<and>
    name_version ` set (parse_yarn_berry_lockfile (berry_text es)) = name_version ` berry_result ` {e \<in> set es. \<not> be_workspace e}"
proof -
  let ?bs = "berry_header # map berry_lines es"
  have plain: "\<forall>b\<in>set ?bs. b \<noteq> [] \<and> (\<forall>l\<in>set b. plain_line l)"
    using assms berry_lines_facts by (auto simp: berry_header_def plain_line_def)
  have s: "split_text blank (berry_text es) = map (join_with [newline]) (butlast ?bs) @ [join_with [newline] (last ?bs) @ [newline]]"
    unfolding berry_text_def by (rule split_blocks[OF _ plain]) simp_all
  have m: "List.map_filter berry_block (map (join_with [newline]) (map berry_lines xs)) = map berry_result (filter (\<lambda>e. \<not> be_workspace e) xs)"
    if "\<forall>e\<in>set xs. berry_ok e" for xs
    using that berry_block_text[of _ "[]"] by (induction xs) (auto simp: List.map_filter_simps)
  have "List.map_filter berry_block (split_text blank (berry_text es)) = map berry_result (filter (\<lambda>e. \<not> be_workspace e) es)"
  proof (cases es rule: rev_cases)
    case Nil
    then show ?thesis using berry_header_block[of "[newline]"] unfolding s by (simp add: List.map_filter_simps)
  next
    case (snoc xs x)
    then have "split_text blank (berry_text es) = join_with [newline] berry_header # map (join_with [newline]) (map berry_lines xs) @
        [join_with [newline] (berry_lines x) @ [newline]]"
      unfolding s by (simp add: butlast_append)
    moreover have "List.map_filter f (ys @ zs) = List.map_filter f ys @ List.map_filter f zs" for f :: "string \<Rightarrow> LockfilePackage option" and ys zs
      by (simp add: List.map_filter_def)
    ultimately show ?thesis using snoc assms m[of xs] berry_block_text[of x "[newline]"] berry_header_block[of "[]"]
      by (auto simp: List.map_filter_simps)
  qed
  then have "parse_yarn_berry_lockfile (berry_text es) = sort_dedup (map berry_result (filter (\<lambda>e. \<not> be_workspace e) es))"
    by (simp add: parse_yarn_berry_lockfile_def)
  then show ?thesis using sort_dedup_facts by auto
qed

definition ex_berry :: "BerryEntry list" where
  "ex_berry = [\<lparr>be_alias = ''lage-npm'', be_range = ''lage'', be_name = ''lage'', be_version = ''2.14.15'', be_checksum = ''10c0/ab'', be_workspace = False\<rparr>,
     \<lparr>be_alias = ''app'', be_range = ''packages/app'', be_name = ''app'', be_version = ''0.0.0-use.local'', be_checksum = ''x'', be_workspace = True\<rparr>]"

lemma berry_roundtrip_witness:
  "parse_yarn_berry_lockfile (berry_text ex_berry) =
    [\<lparr>lp_name = ''lage'', lp_version = ''2.14.15'', lp_integrity = ''10c0/ab'', lp_tarball = None\<rparr>]"
proof -
  have "\<forall>e\<in>set ex_berry. berry_ok e"
    by (simp add: ex_berry_def berry_ok_def token_def is_ws_def)
  from berry_roundtrip[OF this] show ?thesis by (simp add: ex_berry_def berry_result_def sort_dedup_def)
qed

end
