(* ===== verification/Disk.thy ===== *)
theory Disk
  imports Files
begin

text \<open>
  A Unix file tree with hard links: names lead to inodes or are symbolic links, and two names of one inode
  share its bytes and its mode.  Directories are the parents of names; creating a file creates its parents.
  What the operating system refuses (permissions, full disks, links across devices) is the record Os.
  Symbolic links are followed at the last component of a path, at most forty times.
\<close>

section \<open>Names and inodes\<close>

datatype dentry = Reg nat | Sym string

record inode =
  in_bytes :: string
  in_mode :: nat

record disk =
  names :: "string \<Rightarrow> dentry option"
  inodes :: "nat \<Rightarrow> inode"
  fresh :: nat

datatype link_error = Exists | Missing | Cross_device | Unsupported | Denied | Link_failed

record Os =
  os_create :: "string \<Rightarrow> bool"
  os_unlink :: "string \<Rightarrow> bool"
  os_read :: "string \<Rightarrow> bool"
  os_chmod :: "string \<Rightarrow> bool"
  os_link :: "string \<Rightarrow> string \<Rightarrow> link_error option"
  os_target :: "string \<Rightarrow> string \<Rightarrow> string"

definition wf_disk :: "disk \<Rightarrow> bool" where
  "wf_disk d \<longleftrightarrow> (\<forall>p i. names d p = Some (Reg i) \<longrightarrow> i < fresh d)"

definition reg_ino :: "disk \<Rightarrow> string \<Rightarrow> nat option" where
  "reg_ino d p = (case names d p of Some (Reg i) \<Rightarrow> Some i | _ \<Rightarrow> None)"

definition reg_bytes :: "disk \<Rightarrow> string \<Rightarrow> string option" where
  "reg_bytes d p = map_option (\<lambda>i. in_bytes (inodes d i)) (reg_ino d p)"

definition reg_mode :: "disk \<Rightarrow> string \<Rightarrow> nat option" where
  "reg_mode d p = map_option (\<lambda>i. in_mode (inodes d i)) (reg_ino d p)"

fun follow :: "Os \<Rightarrow> disk \<Rightarrow> nat \<Rightarrow> string \<Rightarrow> nat option" where
  "follow os d 0 p = None"
| "follow os d (Suc n) p =
    (case names d p of
       None \<Rightarrow> None
     | Some (Reg i) \<Rightarrow> Some i
     | Some (Sym t) \<Rightarrow> follow os d n (os_target os p t))"

definition file_ino :: "Os \<Rightarrow> disk \<Rightarrow> string \<Rightarrow> nat option" where
  "file_ino os d p = follow os d (Suc 40) p"

definition path_is_file :: "Os \<Rightarrow> disk \<Rightarrow> string \<Rightarrow> bool" where
  "path_is_file os d p = (file_ino os d p \<noteq> None)"

definition read_at :: "Os \<Rightarrow> disk \<Rightarrow> string \<Rightarrow> string option" where
  "read_at os d p = (if os_read os p then map_option (\<lambda>i. in_bytes (inodes d i)) (file_ino os d p) else None)"

section \<open>Operations\<close>

text \<open>A temporary file renamed to the path: always a new inode.\<close>

definition new_file :: "string \<Rightarrow> string \<Rightarrow> nat \<Rightarrow> disk \<Rightarrow> disk" where
  "new_file p b m d = d\<lparr>names := (names d)(p \<mapsto> Reg (fresh d)), inodes := (inodes d)(fresh d := \<lparr>in_bytes = b, in_mode = m\<rparr>),
     fresh := Suc (fresh d)\<rparr>"

definition umask_mode :: nat where
  "umask_mode = 420"

definition unlink :: "string \<Rightarrow> disk \<Rightarrow> disk" where
  "unlink p d = d\<lparr>names := (names d)(p := None)\<rparr>"

definition unlink_ignored :: "Os \<Rightarrow> string \<Rightarrow> disk \<Rightarrow> disk" where
  "unlink_ignored os p d = (if os_unlink os p then unlink p d else d)"

text \<open>\<^verbatim>\<open>std::fs::write\<close>: an existing file keeps its inode.\<close>

definition set_bytes :: "nat \<Rightarrow> string \<Rightarrow> disk \<Rightarrow> disk" where
  "set_bytes i b d = d\<lparr>inodes := (inodes d)(i := (inodes d i)\<lparr>in_bytes := b\<rparr>)\<rparr>"

definition set_mode :: "nat \<Rightarrow> nat \<Rightarrow> disk \<Rightarrow> disk" where
  "set_mode i m d = d\<lparr>inodes := (inodes d)(i := (inodes d i)\<lparr>in_mode := m\<rparr>)\<rparr>"

definition write_at :: "Os \<Rightarrow> string \<Rightarrow> string \<Rightarrow> disk \<Rightarrow> disk option" where
  "write_at os p b d =
     (if \<not> os_create os p then None
      else case file_ino os d p of
        Some i \<Rightarrow> Some (set_bytes i b d)
      | None \<Rightarrow> if names d p = None then Some (new_file p b umask_mode d) else None)"

definition write_renamed :: "Os \<Rightarrow> string \<Rightarrow> string \<Rightarrow> disk \<Rightarrow> disk option" where
  "write_renamed os p b d = (if os_create os p then Some (new_file p b umask_mode d) else None)"

definition hard_link :: "Os \<Rightarrow> string \<Rightarrow> string \<Rightarrow> disk \<Rightarrow> link_error + disk" where
  "hard_link os src dst d =
     (case names d src of
        None \<Rightarrow> Inl Missing
      | Some e \<Rightarrow>
          if names d dst \<noteq> None then Inl Exists
          else (case os_link os src dst of
              Some err \<Rightarrow> Inl err
            | None \<Rightarrow> Inr (d\<lparr>names := (names d)(dst \<mapsto> e)\<rparr>)))"

text \<open>\<^verbatim>\<open>std::fs::copy\<close> copies the bytes and the mode.\<close>

definition copy_file :: "Os \<Rightarrow> string \<Rightarrow> string \<Rightarrow> disk \<Rightarrow> disk option" where
  "copy_file os src dst d =
     (case file_ino os d src of
        None \<Rightarrow> None
      | Some i \<Rightarrow>
          if \<not> os_read os src \<or> \<not> os_create os dst then None
          else (case file_ino os d dst of
              Some j \<Rightarrow> Some (set_mode j (in_mode (inodes d i)) (set_bytes j (in_bytes (inodes d i)) d))
            | None \<Rightarrow> if names d dst = None then Some (new_file dst (in_bytes (inodes d i)) (in_mode (inodes d i)) d) else None))"

definition chmod :: "Os \<Rightarrow> string \<Rightarrow> nat \<Rightarrow> disk \<Rightarrow> disk option" where
  "chmod os p m d = (case file_ino os d p of
      Some i \<Rightarrow> if os_chmod os p then Some (set_mode i m d) else None
    | None \<Rightarrow> None)"

definition symlink :: "Os \<Rightarrow> string \<Rightarrow> string \<Rightarrow> disk \<Rightarrow> disk option" where
  "symlink os target p d =
     (if names d p = None \<and> os_create os p then Some (d\<lparr>names := (names d)(p \<mapsto> Sym target)\<rparr>) else None)"

section \<open>What the operations do to names and bytes\<close>

named_theorems disk_simps "reading a disk after an operation"

lemma reg_ino_iff: "reg_ino d p = Some i \<longleftrightarrow> names d p = Some (Reg i)"
  by (auto simp: reg_ino_def split: option.splits dentry.splits)

lemma file_ino_reg [simp]: "names d p = Some (Reg i) \<Longrightarrow> file_ino os d p = Some i"
  by (simp add: file_ino_def eval_nat_numeral)

lemma file_ino_absent [simp]: "names d p = None \<Longrightarrow> file_ino os d p = None"
  by (simp add: file_ino_def eval_nat_numeral)

lemma wf_diskD: "wf_disk d \<Longrightarrow> names d p = Some (Reg i) \<Longrightarrow> i < fresh d"
  by (simp add: wf_disk_def)

lemma names_disk [disk_simps]:
  "names (new_file p b m d) = (names d)(p \<mapsto> Reg (fresh d))"
  "names (unlink p d) = (names d)(p := None)"
  "names (set_bytes i b d) = names d"
  "names (set_mode i m d) = names d"
  by (simp_all add: new_file_def unlink_def set_bytes_def set_mode_def)

lemma inodes_disk [disk_simps]:
  "inodes (new_file p b m d) = (inodes d)(fresh d := \<lparr>in_bytes = b, in_mode = m\<rparr>)"
  "inodes (unlink p d) = inodes d"
  "fresh (unlink p d) = fresh d"
  by (simp_all add: new_file_def unlink_def)

lemma wf_disk_ops [simp, intro]:
  "wf_disk d \<Longrightarrow> wf_disk (new_file p b m d)"
  "wf_disk d \<Longrightarrow> wf_disk (unlink p d)"
  "wf_disk d \<Longrightarrow> wf_disk (unlink_ignored os p d)"
  "wf_disk (set_bytes i b d) = wf_disk d"
  "wf_disk (set_mode i m d) = wf_disk d"
  by (auto simp: wf_disk_def new_file_def unlink_def unlink_ignored_def set_bytes_def set_mode_def less_Suc_eq)

lemma reg_bytes_new_file [disk_simps]:
  "wf_disk d \<Longrightarrow> reg_bytes (new_file p b m d) q = (if q = p then Some b else reg_bytes d q)"
  by (auto simp: reg_bytes_def reg_ino_def disk_simps wf_disk_def split: option.splits dentry.splits)

lemma reg_mode_new_file [disk_simps]:
  "wf_disk d \<Longrightarrow> reg_mode (new_file p b m d) q = (if q = p then Some m else reg_mode d q)"
  by (auto simp: reg_mode_def reg_ino_def disk_simps wf_disk_def split: option.splits dentry.splits)

lemma reg_unlink [disk_simps]:
  "reg_bytes (unlink p d) q = (if q = p then None else reg_bytes d q)"
  "reg_mode (unlink p d) q = (if q = p then None else reg_mode d q)"
  by (simp_all add: reg_bytes_def reg_mode_def reg_ino_def disk_simps)

lemma reg_bytes_set_bytes [disk_simps]:
  "reg_bytes (set_bytes i b d) q = (if reg_ino d q = Some i then Some b else reg_bytes d q)"
  by (auto simp: reg_bytes_def reg_ino_def set_bytes_def split: option.splits dentry.splits)

lemma reg_set_mode [disk_simps]:
  "reg_bytes (set_mode i m d) q = reg_bytes d q"
  "reg_mode (set_mode i m d) q = (if reg_ino d q = Some i then Some m else reg_mode d q)"
  by (auto simp: reg_bytes_def reg_mode_def reg_ino_def set_mode_def split: option.splits dentry.splits)

lemma hard_link_ok:
  assumes "hard_link os src dst d = Inr d'"
  shows "names d' = (names d)(dst := names d src)" "inodes d' = inodes d" "fresh d' = fresh d"
    "names d src \<noteq> None" "names d dst = None"
  using assms by (auto simp: hard_link_def split: option.splits if_splits)

lemma hard_link_wf: "wf_disk d \<Longrightarrow> hard_link os src dst d = Inr d' \<Longrightarrow> wf_disk d'"
  by (auto simp: wf_disk_def hard_link_ok(1,3) split: if_splits dest: hard_link_ok(4))

lemma hard_link_reg:
  assumes "hard_link os src dst d = Inr d'"
  shows "reg_ino d' q = (if q = dst then reg_ino d src else reg_ino d q)"
    "reg_bytes d' q = (if q = dst then reg_bytes d src else reg_bytes d q)"
    "reg_mode d' q = (if q = dst then reg_mode d src else reg_mode d q)"
  using hard_link_ok[OF assms] by (simp_all add: reg_ino_def reg_bytes_def reg_mode_def)

lemma copy_new:
  assumes "copy_file os src dst d = Some d'" "names d dst = None" "names d src = Some (Reg i)"
  shows "d' = new_file dst (in_bytes (inodes d i)) (in_mode (inodes d i)) d"
  using assms by (auto simp: copy_file_def split: if_splits)

end
