(* ===== verification/Artifact_Store.thy ===== *)
theory Artifact_Store
  imports Disk
begin

text \<open>
  The content-addressed store (src/crates/artifact-store): the trait \<^verbatim>\<open>ArtifactStore\<close> as the locale
  content_store, its on-disk implementation local.rs, and capture_package and restore_package of lib.rs, which
  use the trait only.  The hash is a parameter with digests of 32 bytes.  Temporary files are part of the
  write they belong to.
\<close>

section \<open>The trait\<close>

datatype ArtifactError = Io link_error | Serde | NotFound string

text \<open>The contract: what is stored, and the files outside the store, after each operation.  The store never
  overwrites a stored item.\<close>

locale content_store =
  fixes ok :: "'s \<Rightarrow> bool"
    and digest :: "string \<Rightarrow> bool"
    and hash :: "'s \<Rightarrow> string \<Rightarrow> string"
    and stored :: "'s \<Rightarrow> string \<Rightarrow> string option"
    and file_at :: "'s \<Rightarrow> string \<Rightarrow> string option"
    and outside :: "'s \<Rightarrow> string \<Rightarrow> bool"
    and put :: "'s \<Rightarrow> string \<Rightarrow> (ArtifactError + string) \<times> 's"
    and link :: "'s \<Rightarrow> string \<Rightarrow> string \<Rightarrow> (ArtifactError + unit) \<times> 's"
    and contains :: "'s \<Rightarrow> string \<Rightarrow> bool"
  assumes hash_digest: "ok s \<Longrightarrow> digest (hash s b)"
    and put_ok: "ok s \<Longrightarrow> put s b = (r, s') \<Longrightarrow> ok s' \<and> hash s' = hash s \<and> outside s' = outside s"
    and put_hash: "ok s \<Longrightarrow> put s b = (Inr h, s') \<Longrightarrow>
      h = hash s b \<and> stored s' = (stored s)(h := Some (case stored s h of None \<Rightarrow> b | Some c \<Rightarrow> c))"
    and put_error: "ok s \<Longrightarrow> put s b = (Inl e, s') \<Longrightarrow> stored s' = stored s"
    and put_outside: "ok s \<Longrightarrow> put s b = (r, s') \<Longrightarrow> outside s p \<Longrightarrow> file_at s' p = file_at s p"
    and link_ok: "ok s \<Longrightarrow> digest h \<Longrightarrow> outside s p \<Longrightarrow> link s h p = (l, s') \<Longrightarrow>
      ok s' \<and> hash s' = hash s \<and> outside s' = outside s \<and> stored s' = stored s"
    and link_file: "ok s \<Longrightarrow> digest h \<Longrightarrow> outside s p \<Longrightarrow> link s h p = (Inr u, s') \<Longrightarrow>
      file_at s' p = stored s h \<and> stored s h \<noteq> None"
    and link_other: "ok s \<Longrightarrow> digest h \<Longrightarrow> outside s p \<Longrightarrow> link s h p = (l, s') \<Longrightarrow> outside s q \<Longrightarrow> q \<noteq> p \<Longrightarrow>
      file_at s' q = file_at s q"
    and contains_stored: "ok s \<Longrightarrow> digest h \<Longrightarrow> contains s h \<longleftrightarrow> stored s h \<noteq> None"

section \<open>The store on disk\<close>

record LocalStore =
  ls_root :: string
  ls_hash :: "string \<Rightarrow> string"
  ls_os :: Os
  ls_disk :: disk

text \<open>\<^verbatim>\<open>root.join("content").join(&hex[..2]).join(&hex[2..]).join("data")\<close>.\<close>

definition content_path :: "string \<Rightarrow> string \<Rightarrow> string" where
  "content_path root h =
     path_join (path_join (path_join (path_join root ''content'') (take 2 (to_hex h))) (drop 2 (to_hex h))) ''data''"

definition put_bytes_keyed :: "LocalStore \<Rightarrow> string \<Rightarrow> string \<Rightarrow> (link_error + unit) \<times> LocalStore" where
  "put_bytes_keyed s key b =
     (let dest = content_path (ls_root s) key in
      if path_is_file (ls_os s) (ls_disk s) dest then (Inr (), s)
      else (case write_renamed (ls_os s) dest b (ls_disk s) of
          None \<Rightarrow> (Inl Link_failed, s)
        | Some d \<Rightarrow> (Inr (), s\<lparr>ls_disk := d\<rparr>)))"

definition put_bytes :: "LocalStore \<Rightarrow> string \<Rightarrow> (ArtifactError + string) \<times> LocalStore" where
  "put_bytes s b =
     (let hash = ls_hash s b; dest = content_path (ls_root s) hash in
      if path_is_file (ls_os s) (ls_disk s) dest then (Inr hash, s)
      else (case write_renamed (ls_os s) dest b (ls_disk s) of
          None \<Rightarrow> (Inl (Io Link_failed), s)
        | Some d \<Rightarrow> (Inr hash, s\<lparr>ls_disk := d\<rparr>)))"

definition remove_target :: "Os \<Rightarrow> string \<Rightarrow> disk \<Rightarrow> disk" where
  "remove_target os target d = (if path_is_file os d target then unlink_ignored os target d else d)"

definition link_content :: "LocalStore \<Rightarrow> string \<Rightarrow> string \<Rightarrow> (ArtifactError + unit) \<times> LocalStore" where
  "link_content s h target =
     (let os = ls_os s; src = content_path (ls_root s) h in
      if \<not> path_is_file os (ls_disk s) src then (Inl (NotFound (to_hex h)), s)
      else if \<not> os_create os target then (Inl (Io Link_failed), s)
      else (let d = remove_target os target (ls_disk s) in
        case hard_link os src target d of
          Inr d' \<Rightarrow> (Inr (), s\<lparr>ls_disk := d'\<rparr>)
        | Inl e \<Rightarrow>
            if e = Cross_device \<or> e = Unsupported \<or> e = Denied then
              (case copy_file os src target d of
                 Some d' \<Rightarrow> (Inr (), s\<lparr>ls_disk := d'\<rparr>)
               | None \<Rightarrow> (Inl (Io Link_failed), s\<lparr>ls_disk := d\<rparr>))
            else (Inl (Io e), s\<lparr>ls_disk := d\<rparr>)))"

definition contains_key :: "LocalStore \<Rightarrow> string \<Rightarrow> bool" where
  "contains_key s h = path_is_file (ls_os s) (ls_disk s) (content_path (ls_root s) h)"

datatype 'a io = Ok 'a | Err

definition get_bytes_by_raw_key :: "LocalStore \<Rightarrow> string \<Rightarrow> string option io" where
  "get_bytes_by_raw_key s key =
     (let p = content_path (ls_root s) key in
      if \<not> path_is_file (ls_os s) (ls_disk s) p then Ok None
      else (case read_at (ls_os s) (ls_disk s) p of Some b \<Rightarrow> Ok (Some b) | None \<Rightarrow> Err))"

section \<open>The store keeps the contract\<close>

lemma path_join_segment:
  "x \<noteq> [] \<Longrightarrow> slash \<notin> set x \<Longrightarrow> a \<noteq> [] \<Longrightarrow> last a \<noteq> slash \<Longrightarrow> path_join a x = a @ slash # x"
  by (simp add: path_join_def not_absolute)

lemma to_hex_length [simp]: "length (to_hex h) = 2 * length h"
  by (induction h) (simp_all add: to_hex_def hex_byte_def)

lemma to_hex_part_plain [simp]:
  "slash \<notin> set (take n (to_hex h))" "slash \<notin> set (drop n (to_hex h))"
  using to_hex_plain(2)[of h] by (meson in_set_takeD in_set_dropD)+

lemma last_not_slash: "x \<noteq> [] \<Longrightarrow> slash \<notin> set x \<Longrightarrow> last x \<noteq> slash"
  by (metis last_in_set)

lemma content_path_eq:
  assumes "2 \<le> length h"
  shows "content_path root h =
    path_join root ''content'' @ slash # take 2 (to_hex h) @ slash # drop 2 (to_hex h) @ slash # ''data''"
proof -
  let ?c = "path_join root ''content''" and ?a = "take 2 (to_hex h)" and ?b = "drop 2 (to_hex h)"
  have "4 \<le> length (to_hex h)" using assms by simp
  then have ne: "?a \<noteq> []" "?b \<noteq> []" by (cases "to_hex h"; simp)+
  have c: "?c \<noteq> []" "last ?c \<noteq> slash" by (auto simp: path_join_def is_absolute_def)
  have a: "path_join ?c ?a = ?c @ slash # ?a" using ne c by (intro path_join_segment) auto
  have "last (?c @ slash # ?a) \<noteq> slash" using ne last_not_slash[of ?a] by simp
  then have b: "path_join (?c @ slash # ?a) ?b = (?c @ slash # ?a) @ slash # ?b"
    using ne by (intro path_join_segment) auto
  have "last ((?c @ slash # ?a) @ slash # ?b) \<noteq> slash" using ne last_not_slash[of ?b] by simp
  then have "path_join ((?c @ slash # ?a) @ slash # ?b) ''data'' = ((?c @ slash # ?a) @ slash # ?b) @ slash # ''data''"
    by (intro path_join_segment) auto
  then show ?thesis by (simp add: content_path_def a b)
qed

lemma content_path_inj:
  assumes "length h = 32" "length h' = 32"
  shows "content_path root h = content_path root h' \<longleftrightarrow> h = h'"
proof
  assume "content_path root h = content_path root h'"
  then have "take 2 (to_hex h) @ slash # drop 2 (to_hex h) = take 2 (to_hex h') @ slash # drop 2 (to_hex h')"
    using assms by (simp add: content_path_eq)
  then have "take 2 (to_hex h) = take 2 (to_hex h')" "drop 2 (to_hex h) = drop 2 (to_hex h')"
    using assms by (simp_all add: append_eq_append_conv)
  then show "h = h'" by (metis append_take_drop_id to_hex_inj)
qed simp

text \<open>A well-formed store: the paths of items are no symbolic links, and digests have 32 bytes.\<close>

definition store_paths :: "LocalStore \<Rightarrow> string \<Rightarrow> bool" where
  "store_paths s p = (\<exists>h. length h = 32 \<and> p = content_path (ls_root s) h)"

definition store_outside :: "LocalStore \<Rightarrow> string \<Rightarrow> bool" where
  "store_outside s p = (\<not> store_paths s p)"

definition store_ok :: "LocalStore \<Rightarrow> bool" where
  "store_ok s \<longleftrightarrow> wf_disk (ls_disk s) \<and> (\<forall>b. length (ls_hash s b) = 32) \<and>
     (\<forall>p t. store_paths s p \<longrightarrow> names (ls_disk s) p \<noteq> Some (Sym t))"

definition stored_item :: "LocalStore \<Rightarrow> string \<Rightarrow> string option" where
  "stored_item s h = (if length h = 32 then reg_bytes (ls_disk s) (content_path (ls_root s) h) else None)"

definition is_digest :: "string \<Rightarrow> bool" where
  "is_digest h = (length h = 32)"

definition disk_file :: "LocalStore \<Rightarrow> string \<Rightarrow> string option" where
  "disk_file s p = reg_bytes (ls_disk s) p"

lemma store_okD:
  assumes "store_ok s"
  shows "wf_disk (ls_disk s)" "length (ls_hash s b) = 32"
    "length h = 32 \<Longrightarrow> names (ls_disk s) (content_path (ls_root s) h) \<noteq> Some (Sym t)"
  using assms by (auto simp: store_ok_def store_paths_def)

lemma store_paths_content [simp]: "length h = 32 \<Longrightarrow> store_paths s (content_path (ls_root s) h)"
  by (auto simp: store_paths_def)

lemma store_paths_update [simp]: "store_paths (s\<lparr>ls_disk := d\<rparr>) = store_paths s"
  "store_outside (s\<lparr>ls_disk := d\<rparr>) = store_outside s"
  by (auto simp: store_paths_def store_outside_def fun_eq_iff)

text \<open>An item is there when its path is in use.\<close>

lemma item_file:
  assumes "store_ok s" "length h = 32"
  shows "path_is_file os (ls_disk s) (content_path (ls_root s) h) \<longleftrightarrow> stored_item s h \<noteq> None"
proof (cases "names (ls_disk s) (content_path (ls_root s) h)")
  case None
  then show ?thesis using assms(2) by (simp add: path_is_file_def stored_item_def reg_bytes_def reg_ino_def)
next
  case (Some e)
  then obtain i where "e = Reg i" using store_okD(3)[OF assms(1,2)] by (cases e) auto
  then show ?thesis using Some assms(2) by (simp add: path_is_file_def stored_item_def reg_bytes_def reg_ino_def)
qed

lemma put_renamed:
  assumes "store_ok s" "length h = 32" "write_renamed os (content_path (ls_root s) h) b (ls_disk s) = Some d"
  shows "store_ok (s\<lparr>ls_disk := d\<rparr>)"
    "stored_item (s\<lparr>ls_disk := d\<rparr>) = (stored_item s)(h \<mapsto> b)"
    "store_outside s p \<Longrightarrow> disk_file (s\<lparr>ls_disk := d\<rparr>) p = disk_file s p"
proof -
  have d: "d = new_file (content_path (ls_root s) h) b umask_mode (ls_disk s)"
    using assms(3) by (simp add: write_renamed_def split: if_splits)
  note wf = store_okD(1)[OF assms(1)]
  show "store_ok (s\<lparr>ls_disk := d\<rparr>)" using assms(1) by (auto simp: store_ok_def d disk_simps)
  show "stored_item (s\<lparr>ls_disk := d\<rparr>) = (stored_item s)(h \<mapsto> b)"
    using assms(2) wf by (auto simp: stored_item_def d disk_simps content_path_inj fun_eq_iff)
  show "store_outside s p \<Longrightarrow> disk_file (s\<lparr>ls_disk := d\<rparr>) p = disk_file s p"
    using assms(2) wf by (auto simp: disk_file_def d disk_simps store_outside_def)
qed

lemma put_bytes_cases:
  assumes "store_ok s"
  shows "put_bytes s b = (case stored_item s (ls_hash s b) of
      Some c \<Rightarrow> (Inr (ls_hash s b), s)
    | None \<Rightarrow> (case write_renamed (ls_os s) (content_path (ls_root s) (ls_hash s b)) b (ls_disk s) of
          None \<Rightarrow> (Inl (Io Link_failed), s) | Some d \<Rightarrow> (Inr (ls_hash s b), s\<lparr>ls_disk := d\<rparr>)))"
  using item_file[OF assms store_okD(2)[OF assms]] by (simp add: put_bytes_def Let_def split: option.splits)

lemma put_keyed_cases:
  assumes "store_ok s" "length key = 32"
  shows "put_bytes_keyed s key b = (case stored_item s key of
      Some c \<Rightarrow> (Inr (), s)
    | None \<Rightarrow> (case write_renamed (ls_os s) (content_path (ls_root s) key) b (ls_disk s) of
          None \<Rightarrow> (Inl Link_failed, s) | Some d \<Rightarrow> (Inr (), s\<lparr>ls_disk := d\<rparr>)))"
  using item_file[OF assms] by (simp add: put_bytes_keyed_def Let_def split: option.splits)

text \<open>The three ways in which a link ends: refused, linked, copied.\<close>

lemma remove_target_facts:
  assumes "wf_disk d"
  shows "wf_disk (remove_target os p d)" "q \<noteq> p \<Longrightarrow> names (remove_target os p d) q = names d q"
    "inodes (remove_target os p d) = inodes d" "fresh (remove_target os p d) = fresh d"
  using assms by (auto simp: remove_target_def unlink_ignored_def disk_simps)

lemma remove_target_reg:
  "wf_disk d \<Longrightarrow> q \<noteq> p \<Longrightarrow> reg_bytes (remove_target os p d) q = reg_bytes d q"
  by (simp add: reg_bytes_def reg_ino_def remove_target_facts)

lemma link_content_cases:
  assumes "store_ok s" "length h = 32" "store_outside s p" "link_content s h p = (l, s')"
  obtains (refused) e where "l = Inl e" "s' = s"
  | (failed) e where "l = Inl e" "s' = s\<lparr>ls_disk := remove_target (ls_os s) p (ls_disk s)\<rparr>"
  | (linked) d' where "l = Inr ()" "s' = s\<lparr>ls_disk := d'\<rparr>" "stored_item s h \<noteq> None"
      "hard_link (ls_os s) (content_path (ls_root s) h) p (remove_target (ls_os s) p (ls_disk s)) = Inr d'"
  | (copied) i where "l = Inr ()" "stored_item s h \<noteq> None" "os_link (ls_os s) (content_path (ls_root s) h) p \<noteq> None"
      "names (ls_disk s) (content_path (ls_root s) h) = Some (Reg i)"
      "s' = s\<lparr>ls_disk := new_file p (in_bytes (inodes (ls_disk s) i)) (in_mode (inodes (ls_disk s) i))
          (remove_target (ls_os s) p (ls_disk s))\<rparr>"
proof -
  let ?src = "content_path (ls_root s) h" and ?d = "remove_target (ls_os s) p (ls_disk s)"
  have ne: "?src \<noteq> p" using assms(2,3) by (auto simp: store_outside_def)
  note facts = remove_target_facts[OF store_okD(1)[OF assms(1)], where os = "ls_os s" and p = p]
  show ?thesis
  proof (cases "\<not> path_is_file (ls_os s) (ls_disk s) ?src \<or> \<not> os_create (ls_os s) p")
    case True
    then show ?thesis using assms(4) by (auto simp: link_content_def Let_def split: if_splits intro: refused)
  next
    case False
    then have st: "stored_item s h \<noteq> None" using item_file[OF assms(1,2)] by blast
    then obtain i where i: "names (ls_disk s) ?src = Some (Reg i)"
      by (auto simp: stored_item_def reg_bytes_def reg_ino_iff split: if_splits)
    show ?thesis
    proof (cases "hard_link (ls_os s) ?src p ?d")
      case (Inr d')
      have "l = Inr ()" "s' = s\<lparr>ls_disk := d'\<rparr>" using Inr assms(4) False by (auto simp: link_content_def Let_def)
      then show ?thesis using linked st Inr by blast
    next
      case (Inl e)
      show ?thesis
      proof (cases "(e = Cross_device \<or> e = Unsupported \<or> e = Denied) \<and> copy_file (ls_os s) ?src p ?d \<noteq> None")
        case True
        then obtain d' where d': "copy_file (ls_os s) ?src p ?d = Some d'" by blast
        have e: "e \<noteq> Exists" using True by auto
        have nsrc: "names ?d ?src = Some (Reg i)" using i facts(2)[OF ne] by simp
        have np: "names ?d p = None \<or> e = Exists" using Inl nsrc by (auto simp: hard_link_def split: option.splits if_splits)
        then have "names ?d p = None" using e by blast
        then have "d' = new_file p (in_bytes (inodes ?d i)) (in_mode (inodes ?d i)) ?d"
          using copy_new[OF d'] nsrc by simp
        moreover have "os_link (ls_os s) ?src p \<noteq> None" using Inl nsrc e by (auto simp: hard_link_def split: if_splits option.splits)
        ultimately show ?thesis using assms(4) False True Inl d' st i copied facts(3)
          by (simp add: link_content_def Let_def)
      next
        case False
        then show ?thesis
          using assms(4) Inl \<open>\<not> (\<not> path_is_file (ls_os s) (ls_disk s) ?src \<or> \<not> os_create (ls_os s) p)\<close> failed
          by (auto simp: link_content_def Let_def split: if_splits)
      qed
    qed
  qed
qed

lemma store_ok_update:
  assumes "store_ok s" "wf_disk d" "\<And>q. store_paths s q \<Longrightarrow> names d q = names (ls_disk s) q"
  shows "store_ok (s\<lparr>ls_disk := d\<rparr>)"
  using assms by (auto simp: store_ok_def)

lemma outside_ne: "store_outside s p \<Longrightarrow> store_paths s q \<Longrightarrow> q \<noteq> p"
  by (auto simp: store_outside_def)

lemma link_content_frame:
  assumes "store_ok s" "length h = 32" "store_outside s p" "link_content s h p = (l, s')"
  shows "store_ok s' \<and> ls_root s' = ls_root s \<and> ls_hash s' = ls_hash s \<and> ls_os s' = ls_os s \<and>
     (\<forall>q. q \<noteq> p \<longrightarrow> reg_bytes (ls_disk s') q = reg_bytes (ls_disk s) q)"
proof -
  note wf = store_okD(1)[OF assms(1)]
  note rt = remove_target_facts[OF wf, where os = "ls_os s" and p = p] remove_target_reg[OF wf, where os = "ls_os s" and p = p]
  show ?thesis using assms
  proof (cases rule: link_content_cases)
    case (linked d')
    note hl = hard_link_ok[OF linked(4)] hard_link_reg[OF linked(4)] hard_link_wf[OF rt(1) linked(4)]
    then show ?thesis using linked(2) assms(1) rt outside_ne[OF assms(3)] by (auto intro!: store_ok_update)
  next
    case (copied i)
    then show ?thesis using assms(1) rt outside_ne[OF assms(3)] by (auto intro!: store_ok_update simp: disk_simps)
  qed (use assms(1) rt outside_ne[OF assms(3)] in \<open>auto intro!: store_ok_update\<close>)
qed

lemma link_content_file:
  assumes "store_ok s" "length h = 32" "store_outside s p" "link_content s h p = (Inr u, s')"
  shows "disk_file s' p = stored_item s h \<and> stored_item s h \<noteq> None"
proof -
  note wf = store_okD(1)[OF assms(1)]
  note rt = remove_target_facts[OF wf, where os = "ls_os s" and p = p] remove_target_reg[OF wf, where os = "ls_os s" and p = p]
  have ne: "content_path (ls_root s) h \<noteq> p" using outside_ne[OF assms(3)] assms(2) by simp
  from assms show ?thesis
  proof (cases rule: link_content_cases)
    case (linked d')
    then show ?thesis using hard_link_reg(2)[OF linked(4), of p] rt(5)[OF ne] assms(2)
      by (simp add: disk_file_def stored_item_def)
  next
    case (copied i)
    then show ?thesis using rt assms(2)
      by (simp add: disk_file_def stored_item_def disk_simps reg_bytes_def[of "ls_disk s"] reg_ino_def)
  qed simp_all
qed

lemma stored_item_frame:
  assumes "ls_root s' = ls_root s" "\<And>q. q \<noteq> p \<Longrightarrow> reg_bytes (ls_disk s') q = reg_bytes (ls_disk s) q" "store_outside s p"
  shows "stored_item s' = stored_item s"
  using assms outside_ne[OF assms(3)] by (auto simp: stored_item_def fun_eq_iff)

lemma store_outside_root: "ls_root s' = ls_root s \<Longrightarrow> store_outside s' = store_outside s"
  by (simp add: store_outside_def store_paths_def fun_eq_iff)

interpretation local_store: content_store store_ok is_digest ls_hash stored_item disk_file store_outside
  put_bytes link_content contains_key
proof unfold_locales
  fix s s' :: LocalStore and b p h q :: string and r :: "ArtifactError + string" and l :: "ArtifactError + unit"
  assume ok: "store_ok s"
  note h32 = store_okD(2)[OF ok]
  show "is_digest (ls_hash s b)" using h32 by (simp add: is_digest_def)
  show "store_ok s' \<and> ls_hash s' = ls_hash s \<and> store_outside s' = store_outside s" if "put_bytes s b = (r, s')"
    using that put_renamed(1)[OF ok h32] ok by (auto simp: put_bytes_cases[OF ok] split: option.splits)
  show "h = ls_hash s b \<and> stored_item s' = (stored_item s)(h := Some (case stored_item s h of None \<Rightarrow> b | Some c \<Rightarrow> c))"
    if "put_bytes s b = (Inr h, s')"
    using that put_renamed(2)[OF ok h32] by (auto simp: put_bytes_cases[OF ok] split: option.splits)
  show "stored_item s' = stored_item s" if "put_bytes s b = (Inl e, s')" for e
    using that by (auto simp: put_bytes_cases[OF ok] split: option.splits)
  show "disk_file s' p = disk_file s p" if "put_bytes s b = (r, s')" "store_outside s p"
    using that put_renamed(3)[OF ok h32] by (auto simp: put_bytes_cases[OF ok] split: option.splits)
  show "contains_key s h \<longleftrightarrow> stored_item s h \<noteq> None" if "is_digest h"
    using that item_file[OF ok] by (simp add: contains_key_def is_digest_def)
  assume h: "is_digest h" and p: "store_outside s p"
  note h' = h[unfolded is_digest_def]
  show "store_ok s' \<and> ls_hash s' = ls_hash s \<and> store_outside s' = store_outside s \<and> stored_item s' = stored_item s"
    if "link_content s h p = (l, s')"
    using link_content_frame[OF ok h' p that] p by (auto intro: store_outside_root stored_item_frame)
  show "disk_file s' p = stored_item s h \<and> stored_item s h \<noteq> None" if "link_content s h p = (Inr u, s')" for u
    by (rule link_content_file[OF ok h' p that])
  show "disk_file s' q = disk_file s q" if "link_content s h p = (l, s')" "store_outside s q" "q \<noteq> p"
    using link_content_frame[OF ok h' p that(1)] that by (simp add: disk_file_def)
qed

end
