(* ===== verification/Package_Store.thy ===== *)
theory Package_Store
  imports Artifact_Store
begin

text \<open>
  Capturing an installed package and restoring it: capture_package and restore_package of
  src/crates/artifact-store/src/lib.rs over the store trait, and what they guarantee for every store that keeps
  its contract.  A directory is the tree that read_dir shows, in its order; an unreadable directory shows
  nothing.
\<close>

section \<open>Names of files below a directory\<close>

datatype tree = File string | Dir string "tree list" | Other string

fun tree_name :: "tree \<Rightarrow> string" where
  "tree_name (File n) = n"
| "tree_name (Dir n ts) = n"
| "tree_name (Other n) = n"

definition good_name :: "string \<Rightarrow> bool" where
  "good_name n \<longleftrightarrow> n \<noteq> [] \<and> n \<noteq> ''.'' \<and> slash \<notin> set n"

fun trees_ok :: "tree list \<Rightarrow> bool" where
  "trees_ok [] = True"
| "trees_ok (File n # ts) = (good_name n \<and> n \<notin> tree_name ` set ts \<and> trees_ok ts)"
| "trees_ok (Dir n us # ts) = (good_name n \<and> n \<notin> tree_name ` set ts \<and> trees_ok us \<and> trees_ok ts)"
| "trees_ok (Other n # ts) = (good_name n \<and> n \<notin> tree_name ` set ts \<and> trees_ok ts)"

text \<open>The files of a tree, as the names on the way to them.\<close>

fun tree_files :: "tree list \<Rightarrow> string list list" where
  "tree_files [] = []"
| "tree_files (File n # ts) = [n] # tree_files ts"
| "tree_files (Dir n us # ts) = map ((#) n) (tree_files us) @ tree_files ts"
| "tree_files (Other n # ts) = tree_files ts"

definition below :: "string \<Rightarrow> string list \<Rightarrow> string" where
  "below root ns = foldl path_join root ns"

lemma below_simps [simp]: "below root [] = root" "below root (n # ns) = below (path_join root n) ns"
  by (simp_all add: below_def)

definition rel_text :: "string list \<Rightarrow> string" where
  "rel_text ns = join_with ''/'' ns"

lemma split_on_snoc: "slash \<notin> set n \<Longrightarrow> split_on slash (a @ slash # n) = split_on slash a @ [n]"
proof (induction a)
  case (Cons x a)
  then show ?case using split_on_ne[of slash a] by (auto split: list.splits)
qed (simp add: split_on_single)

lemma path_segs_snoc: "good_name n \<Longrightarrow> path_segs (a @ slash # n) = path_segs a @ [n]"
  by (simp add: path_segs_def split_on_snoc good_name_def)

lemma components_join:
  assumes "good_name n"
  shows "path_components (path_join p n) = path_components p @ [n]"
proof -
  have rel: "\<not> is_absolute n" using assms by (simp add: good_name_def not_absolute)
  consider "p = []" | q where "p = q @ [slash]" | "p \<noteq> []" "last p \<noteq> slash" by (metis append_butlast_last_id)
  then show ?thesis
  proof cases
    case 1
    then show ?thesis using assms rel
      by (auto simp: path_join_def path_components_def path_segs_def good_name_def split_on_single is_absolute_def)
  next
    case (2 q)
    have "split_on slash (q @ [slash]) = split_on slash q @ [[]]" using split_on_snoc[of "[]" q] by simp
    then have "path_segs (q @ [slash]) = path_segs q" "hd (split_on slash (q @ [slash])) = hd (split_on slash q)"
      by (simp_all add: path_segs_def)
    moreover have "is_absolute (q @ slash # n) = is_absolute (q @ [slash])" by (cases q) (simp_all add: is_absolute_def)
    moreover have "hd (split_on slash (q @ slash # n)) = hd (split_on slash q)"
      using assms by (simp add: split_on_snoc good_name_def)
    ultimately show ?thesis using 2 rel assms by (simp add: path_join_def path_components_def path_segs_snoc)
  next
    case 3
    have "is_absolute (p @ slash # n) = is_absolute p" using 3 by (cases p) (simp_all add: is_absolute_def)
    moreover have "hd (split_on slash (p @ slash # n)) = hd (split_on slash p)"
      using assms by (simp add: split_on_snoc good_name_def)
    ultimately show ?thesis using 3 rel assms by (simp add: path_join_def path_components_def path_segs_snoc)
  qed
qed

lemma components_below: "list_all good_name ns \<Longrightarrow> path_components (below root ns) = path_components root @ ns"
  by (induction ns arbitrary: root) (simp_all add: components_join)

lemma strip_below: "list_all good_name ns \<Longrightarrow> path_strip_prefix (below root ns) root = Some (rel_text ns)"
  by (simp add: path_strip_prefix_def Let_def components_below rel_text_def)

lemma rel_text_inj:
  assumes "list_all good_name ms" "list_all good_name ns" "ms \<noteq> []" "ns \<noteq> []" "rel_text ms = rel_text ns"
  shows "ms = ns"
proof -
  have "ks = split_on slash (rel_text ks)" if "list_all good_name ks" "ks \<noteq> []" for ks
    using that by (simp add: rel_text_def list_all_iff good_name_def split_join)
  then show ?thesis using assms by metis
qed

lemma rel_text_relative: "list_all good_name ns \<Longrightarrow> ns \<noteq> [] \<Longrightarrow> \<not> is_absolute (rel_text ns)"
proof (induction ns rule: remdups_adj.induct)
  case (3 p q ps)
  then have "p \<noteq> []" "slash \<notin> set p" by (simp_all add: good_name_def)
  then show ?case by (simp add: rel_text_def not_absolute_append)
qed (simp_all add: rel_text_def good_name_def not_absolute)

lemma tree_files_hd: "ns \<in> set (tree_files ts) \<Longrightarrow> ns \<noteq> [] \<and> hd ns \<in> tree_name ` set ts"
  by (induction ts arbitrary: ns rule: tree_files.induct) auto

lemma tree_files_good: "trees_ok ts \<Longrightarrow> ns \<in> set (tree_files ts) \<Longrightarrow> list_all good_name ns"
  by (induction ts arbitrary: ns rule: tree_files.induct) auto

lemma tree_files_distinct: "trees_ok ts \<Longrightarrow> distinct (tree_files ts)"
proof (induction ts rule: tree_files.induct)
  case (2 n ts)
  then show ?case using tree_files_hd[of "[n]" ts] by auto
next
  case (3 n us ts)
  have "n # ns \<notin> set (tree_files ts)" for ns using 3(3) tree_files_hd[of "n # ns" ts] by auto
  then show ?case using 3 by (auto simp: distinct_map)
qed auto

section \<open>Capture and restore\<close>

record PathsetPackageRef =
  pr_name :: string
  pr_version :: string
  pr_root :: string

record PackageArtifact =
  pa_name :: string
  pa_version :: string
  pa_files :: "(string \<times> string) list"

type_synonym 's putter = "'s \<Rightarrow> string \<Rightarrow> (ArtifactError + string) \<times> 's"
type_synonym 's linker = "'s \<Rightarrow> string \<Rightarrow> string \<Rightarrow> (ArtifactError + unit) \<times> 's"
type_synonym 's reader = "'s \<Rightarrow> string \<Rightarrow> string option"

definition relative_to :: "string \<Rightarrow> string \<Rightarrow> string" where
  "relative_to root p = (case path_strip_prefix p root of Some r \<Rightarrow> r | None \<Rightarrow> p)"

fun walk_package :: "'s putter \<Rightarrow> 's reader \<Rightarrow> string \<Rightarrow> string \<Rightarrow> tree list \<Rightarrow> 's \<Rightarrow> (string \<times> string) list \<Rightarrow>
    (ArtifactError + (string \<times> string) list) \<times> 's" where
  "walk_package put rd root cur [] s out = (Inr out, s)"
| "walk_package put rd root cur (Dir n us # ts) s out =
    (case walk_package put rd root (path_join cur n) us s out of
       (Inl e, s') \<Rightarrow> (Inl e, s')
     | (Inr out', s') \<Rightarrow> walk_package put rd root cur ts s' out')"
| "walk_package put rd root cur (File n # ts) s out =
    (case rd s (path_join cur n) of
       None \<Rightarrow> walk_package put rd root cur ts s out
     | Some b \<Rightarrow> (case put s b of
           (Inl e, s') \<Rightarrow> (Inl e, s')
         | (Inr h, s') \<Rightarrow> walk_package put rd root cur ts s' (out @ [(relative_to root (path_join cur n), h)])))"
| "walk_package put rd root cur (Other n # ts) s out = walk_package put rd root cur ts s out"

definition capture_package :: "'s putter \<Rightarrow> 's reader \<Rightarrow> ('s \<Rightarrow> string \<Rightarrow> tree list) \<Rightarrow> PathsetPackageRef \<Rightarrow> 's \<Rightarrow>
    (ArtifactError + PackageArtifact) \<times> 's" where
  "capture_package put rd ls pkg s =
     (case walk_package put rd (pr_root pkg) (pr_root pkg) (ls s (pr_root pkg)) s [] of
        (Inl e, s') \<Rightarrow> (Inl e, s')
      | (Inr files, s') \<Rightarrow> (Inr \<lparr>pa_name = pr_name pkg, pa_version = pr_version pkg,
            pa_files = sort_key (path_key \<circ> fst) files\<rparr>, s'))"

fun link_all :: "'s linker \<Rightarrow> string \<Rightarrow> (string \<times> string) list \<Rightarrow> 's \<Rightarrow> (ArtifactError + unit) \<times> 's" where
  "link_all link root [] s = (Inr (), s)"
| "link_all link root ((rel, h) # fs) s =
    (case link s h (path_join root rel) of
       (Inl e, s') \<Rightarrow> (Inl e, s')
     | (Inr _, s') \<Rightarrow> link_all link root fs s')"

definition restore_package :: "'s linker \<Rightarrow> PackageArtifact \<Rightarrow> string \<Rightarrow> 's \<Rightarrow> (ArtifactError + unit) \<times> 's" where
  "restore_package link art target s = link_all link (path_join target (pa_name art)) (pa_files art) s"

text \<open>The walk puts the files of the tree one after the other.\<close>

fun capture_paths :: "'s putter \<Rightarrow> 's reader \<Rightarrow> string \<Rightarrow> string list \<Rightarrow> 's \<Rightarrow> (string \<times> string) list \<Rightarrow>
    (ArtifactError + (string \<times> string) list) \<times> 's" where
  "capture_paths put rd root [] s out = (Inr out, s)"
| "capture_paths put rd root (p # ps) s out =
    (case rd s p of
       None \<Rightarrow> capture_paths put rd root ps s out
     | Some b \<Rightarrow> (case put s b of
           (Inl e, s') \<Rightarrow> (Inl e, s')
         | (Inr h, s') \<Rightarrow> capture_paths put rd root ps s' (out @ [(relative_to root p, h)])))"

lemma capture_paths_append:
  "capture_paths put rd root (ps @ qs) s out =
    (case capture_paths put rd root ps s out of
       (Inl e, s') \<Rightarrow> (Inl e, s') | (Inr out', s') \<Rightarrow> capture_paths put rd root qs s' out')"
  by (induction ps arbitrary: s out) (auto split: option.splits prod.splits sum.splits)

lemma walk_capture:
  "walk_package put rd root cur ts s out = capture_paths put rd root (map (below cur) (tree_files ts)) s out"
proof (induction put rd root cur ts s out rule: walk_package.induct)
  case (2 put rd root cur n us ts s out)
  have "map (below cur \<circ> (#) n) (tree_files us) = map (below (path_join cur n)) (tree_files us)" by simp
  then show ?case using 2 by (auto simp: capture_paths_append simp del: map_eq_conv split: prod.splits sum.splits)
qed (auto split: option.splits prod.splits sum.splits)

section \<open>What every store gives\<close>

locale package_store = content_store +
  fixes rd :: "'s reader"
  assumes rd_file: "ok s \<Longrightarrow> file_at s p \<noteq> None \<Longrightarrow> rd s p = Some c \<Longrightarrow> file_at s p = Some c"
    and rd_put: "ok s \<Longrightarrow> outside s p \<Longrightarrow> file_at s p \<noteq> None \<Longrightarrow> put s b = (r, s') \<Longrightarrow> rd s' p = rd s p"
begin

text \<open>No two of the contents collide, and what is stored under their digests is what belongs there.\<close>

definition intact :: "'s \<Rightarrow> string set \<Rightarrow> bool" where
  "intact s B \<longleftrightarrow> inj_on (hash s) B \<and> (\<forall>b\<in>B. stored s (hash s b) \<in> {None, Some b})"

lemma intact_put:
  assumes "ok s" "intact s B" "b \<in> B" "put s b = (Inr h, s')"
  shows "intact s' B" "stored s' (hash s b) = Some b" "stored s x = Some c \<Longrightarrow> stored s' x = Some c"
proof -
  note p = put_hash[OF assms(1,4)] put_ok[OF assms(1,4)]
  have sb: "stored s (hash s b) \<in> {None, Some b}" using assms(2,3) by (simp add: intact_def)
  show "stored s' (hash s b) = Some b" using p sb by (auto split: option.splits)
  show "stored s x = Some c \<Longrightarrow> stored s' x = Some c" using p by auto
  have "hash s b' = hash s b \<longleftrightarrow> b' = b" if "b' \<in> B" for b'
    using assms(2,3) that by (auto simp: intact_def dest: inj_onD)
  then show "intact s' B" using p assms(2) sb by (auto simp: intact_def split: option.splits)
qed

lemma capture_paths_correct:
  assumes "capture_paths put rd root ps s out = (Inr fs, s')" "ok s"
    and "\<forall>p\<in>set ps. outside s p \<and> file_at s p \<noteq> None"
    and "intact s B" "\<forall>p\<in>set ps. \<forall>b. rd s p = Some b \<longrightarrow> b \<in> B"
  shows "fs = out @ List.map_filter (\<lambda>p. map_option (\<lambda>b. (relative_to root p, hash s b)) (rd s p)) ps \<and>
    ok s' \<and> hash s' = hash s \<and> intact s' B \<and> (\<forall>h c. stored s h = Some c \<longrightarrow> stored s' h = Some c) \<and>
    (\<forall>p\<in>set ps. \<forall>b. rd s p = Some b \<longrightarrow> stored s' (hash s b) = Some b)"
  using assms
proof (induction ps arbitrary: s out)
  case Nil
  then show ?case by (simp add: List.map_filter_simps)
next
  case (Cons p ps)
  show ?case
  proof (cases "rd s p")
    case None
    then show ?thesis using Cons by (simp add: List.map_filter_simps)
  next
    case (Some b)
    obtain h s1 where put: "put s b = (Inr h, s1)"
      and rest: "capture_paths put rd root ps s1 (out @ [(relative_to root p, h)]) = (Inr fs, s')"
      using Cons.prems(1) Some by (auto split: prod.splits sum.splits)
    have bB: "b \<in> B" using Cons.prems(5) Some by simp
    note i = intact_put[OF Cons.prems(2,4) bB put]
    note f = put_ok[OF Cons.prems(2) put] put_hash[OF Cons.prems(2) put] put_outside[OF Cons.prems(2) put]
      rd_put[OF Cons.prems(2) _ _ put]
    have pre: "\<forall>p\<in>set ps. outside s1 p \<and> file_at s1 p \<noteq> None" "\<forall>p\<in>set ps. \<forall>b. rd s1 p = Some b \<longrightarrow> b \<in> B"
      "\<forall>p\<in>set ps. rd s1 p = rd s p"
      using f Cons.prems(3,5) by simp_all
    have eq: "List.map_filter (\<lambda>p. map_option (\<lambda>b. (relative_to root p, hash s1 b)) (rd s1 p)) ps =
        List.map_filter (\<lambda>p. map_option (\<lambda>b. (relative_to root p, hash s b)) (rd s p)) ps"
      using pre(3) f(1) by (auto simp: List.map_filter_def intro!: map_cong filter_cong)
    note ih = Cons.IH[OF rest _ pre(1) i(1) pre(2)]
    have grow: "stored s' x = Some c" if "stored s x = Some c" for x c using ih f(1) i(3)[OF that] by blast
    have own: "stored s' (hash s b) = Some b" using ih f(1) i(2) by blast
    show ?thesis using ih f(1,2) Some eq pre(3) grow own by (simp add: List.map_filter_simps)
  qed
qed

lemma link_all_frame:
  assumes "link_all link root fs s = (r, s')" "ok s" "\<forall>(rel, h)\<in>set fs. digest h \<and> outside s (path_join root rel)"
  shows "ok s' \<and> hash s' = hash s \<and> outside s' = outside s \<and> stored s' = stored s \<and>
    (\<forall>q. outside s q \<longrightarrow> q \<notin> path_join root ` fst ` set fs \<longrightarrow> file_at s' q = file_at s q)"
  using assms
proof (induction fs arbitrary: s)
  case (Cons f fs)
  obtain rel h where f: "f = (rel, h)" by (cases f)
  obtain l s1 where l: "link s h (path_join root rel) = (l, s1)" by (cases "link s h (path_join root rel)")
  have pre: "digest h" "outside s (path_join root rel)" using Cons.prems(3) f by auto
  note k = link_ok[OF Cons.prems(2) pre l] link_other[OF Cons.prems(2) pre l]
  show ?case
  proof (cases l)
    case (Inl e)
    then show ?thesis using Cons.prems(1) k l f by auto
  next
    case (Inr u)
    then have "link_all link root fs s1 = (r, s')" using Cons.prems(1) l f by simp
    then show ?thesis using Cons.IH[of s1] k Cons.prems(3) f by auto
  qed
qed auto

lemma link_all_files:
  assumes "link_all link root fs s = (Inr u, s')" "ok s"
    and "\<forall>(rel, h)\<in>set fs. digest h \<and> outside s (path_join root rel)"
    and "distinct (map (\<lambda>f. path_join root (fst f)) fs)" "(rel, h) \<in> set fs"
  shows "file_at s' (path_join root rel) = stored s h \<and> stored s h \<noteq> None"
  using assms
proof (induction fs arbitrary: s)
  case (Cons f fs)
  obtain rel0 h0 where f: "f = (rel0, h0)" by (cases f)
  obtain v s1 where l: "link s h0 (path_join root rel0) = (Inr v, s1)"
    and rest: "link_all link root fs s1 = (Inr u, s')"
    using Cons.prems(1) f by (auto split: prod.splits sum.splits)
  have pre: "digest h0" "outside s (path_join root rel0)" using Cons.prems(3) f by auto
  note k = link_ok[OF Cons.prems(2) pre l] link_file[OF Cons.prems(2) pre l]
  have rest_ok: "\<forall>(rel, h)\<in>set fs. digest h \<and> outside s1 (path_join root rel)" using k Cons.prems(3) by auto
  show ?case
  proof (cases "(rel, h) = f")
    case True
    have "path_join root rel0 \<notin> path_join root ` fst ` set fs" using Cons.prems(4) f by (auto simp: image_image)
    then show ?thesis using link_all_frame[OF rest _ rest_ok] k True f pre by simp
  next
    case False
    then show ?thesis using Cons.IH[OF rest _ rest_ok] k Cons.prems(4,5) by simp
  qed
qed simp

end

section \<open>The store on disk gives it\<close>

definition read_local :: "LocalStore \<Rightarrow> string \<Rightarrow> string option" where
  "read_local s p = read_at (ls_os s) (ls_disk s) p"

lemma disk_file_names: "disk_file s p = Some c \<longleftrightarrow>
    (\<exists>i. names (ls_disk s) p = Some (Reg i) \<and> c = in_bytes (inodes (ls_disk s) i))"
  by (auto simp: disk_file_def reg_bytes_def reg_ino_iff)

lemma read_local_file: "disk_file s p = Some c \<Longrightarrow> read_local s p = (if os_read (ls_os s) p then Some c else None)"
  by (auto simp: disk_file_names read_local_def read_at_def)

lemma put_bytes_os: "put_bytes s b = (r, s') \<Longrightarrow> ls_os s' = ls_os s \<and> ls_root s' = ls_root s"
  by (auto simp: put_bytes_def Let_def split: if_splits option.splits)

interpretation local_packages: package_store store_ok is_digest ls_hash stored_item disk_file store_outside
  put_bytes link_content contains_key read_local
proof unfold_locales
  fix s s' :: LocalStore and b p c :: string and r :: "ArtifactError + string"
  show "disk_file s p = Some c" if "disk_file s p \<noteq> None" "read_local s p = Some c"
    using that read_local_file[of s p] by (auto split: if_splits)
  show "read_local s' p = read_local s p"
    if "store_ok s" "store_outside s p" "disk_file s p \<noteq> None" "put_bytes s b = (r, s')"
  proof -
    note prems = that
    obtain c where c: "disk_file s p = Some c" using prems(3) by blast
    then have "disk_file s' p = Some c" using local_store.put_outside[OF prems(1,4,2)] by simp
    then show ?thesis using read_local_file c put_bytes_os[OF prems(4)] by metis
  qed
qed

text \<open>A captured package, file by file.\<close>

lemma captured_files:
  assumes ok: "store_ok s" and trees: "trees_ok (ls s (pr_root pkg))"
    and files: "\<forall>ns\<in>set (tree_files (ls s (pr_root pkg))).
        store_outside s (below (pr_root pkg) ns) \<and> disk_file s (below (pr_root pkg) ns) \<in> Some ` B"
    and B: "inj_on (ls_hash s) B" "\<forall>b\<in>B. stored_item s (ls_hash s b) \<in> {None, Some b}"
    and cap: "capture_package put_bytes read_local ls pkg s = (Inr art, s1)"
  shows "pa_name art = pr_name pkg \<and> store_ok s1 \<and> distinct (map fst (pa_files art)) \<and>
    (\<forall>h c. stored_item s h = Some c \<longrightarrow> stored_item s1 h = Some c) \<and>
    set (pa_files art) = {(rel_text ns, ls_hash s b) | ns b. ns \<in> set (tree_files (ls s (pr_root pkg))) \<and>
        read_local s (below (pr_root pkg) ns) = Some b} \<and>
    (\<forall>ns\<in>set (tree_files (ls s (pr_root pkg))). \<forall>b. read_local s (below (pr_root pkg) ns) = Some b \<longrightarrow>
        stored_item s1 (ls_hash s b) = Some b)"
proof -
  let ?root = "pr_root pkg" and ?ts = "ls s (pr_root pkg)"
  let ?ps = "map (below ?root) (tree_files ?ts)"
  let ?f = "\<lambda>p. map_option (\<lambda>b. (relative_to ?root p, ls_hash s b)) (read_local s p)"
  obtain fs where walk: "capture_paths put_bytes read_local ?root ?ps s [] = (Inr fs, s1)"
    and art: "art = \<lparr>pa_name = pr_name pkg, pa_version = pr_version pkg, pa_files = sort_key (path_key \<circ> fst) fs\<rparr>"
    using cap by (auto simp: capture_package_def walk_capture split: prod.splits sum.splits)
  have pre: "\<forall>p\<in>set ?ps. store_outside s p \<and> disk_file s p \<noteq> None"
    using files by fastforce
  have inB: "\<forall>p\<in>set ?ps. \<forall>b. read_local s p = Some b \<longrightarrow> b \<in> B"
    using files local_packages.rd_file[OF ok] pre by fastforce
  have int: "local_packages.intact s B" using B by (simp add: local_packages.intact_def)
  note c = local_packages.capture_paths_correct[OF walk ok pre int inB]
  have rel: "relative_to ?root (below ?root ns) = rel_text ns" if "ns \<in> set (tree_files ?ts)" for ns
    using strip_below tree_files_good[OF trees that] by (simp add: relative_to_def)
  have fs: "fs = List.map_filter ?f ?ps" using c by simp
  have set_fs: "set fs = {(rel_text ns, ls_hash s b) | ns b. ns \<in> set (tree_files ?ts) \<and> read_local s (below ?root ns) = Some b}"
    unfolding fs by (fastforce simp: in_set_map_filter rel)
  have "map fst fs = map (relative_to ?root) (filter (\<lambda>p. read_local s p \<noteq> None) ?ps)"
    unfolding fs List.map_filter_def by (auto intro!: map_cong filter_cong)
  also have "\<dots> = map rel_text (filter (\<lambda>ns. read_local s (below ?root ns) \<noteq> None) (tree_files ?ts))"
    by (simp add: filter_map comp_def rel)
  finally have "distinct (map fst fs)"
    using tree_files_distinct[OF trees] tree_files_good[OF trees] tree_files_hd
    by (auto simp: distinct_map inj_on_def intro: rel_text_inj)
  then have "distinct (map fst (pa_files art))"
    by (simp add: art distinct_map)
  then show ?thesis using c set_fs by (auto simp: art)
qed

section \<open>Properties\<close>

text \<open>C16. A package that was captured and is restored later, into any directory outside the store, has every
  file that could be read at capture with the bytes it had then, as long as the store lost nothing in between
  and the digests of the contents do not collide; no other file outside the store changes.\<close>

theorem capture_restore_roundtrip:
  assumes "store_ok s" "trees_ok (ls s (pr_root pkg))"
    and "\<forall>ns\<in>set (tree_files (ls s (pr_root pkg))).
        store_outside s (below (pr_root pkg) ns) \<and> disk_file s (below (pr_root pkg) ns) \<in> Some ` B"
    and "inj_on (ls_hash s) B" "\<forall>b\<in>B. stored_item s (ls_hash s b) \<in> {None, Some b}"
    and "capture_package put_bytes read_local ls pkg s = (Inr art, s1)"
    and "store_ok s2" "\<forall>h c. stored_item s1 h = Some c \<longrightarrow> stored_item s2 h = Some c"
    and "\<forall>ns\<in>set (tree_files (ls s (pr_root pkg))).
        store_outside s2 (path_join (path_join dir (pr_name pkg)) (rel_text ns))"
    and "restore_package link_content art dir s2 = (Inr u, s3)"
  shows "(\<forall>ns\<in>set (tree_files (ls s (pr_root pkg))). \<forall>b. read_local s (below (pr_root pkg) ns) = Some b \<longrightarrow>
        disk_file s3 (path_join (path_join dir (pr_name pkg)) (rel_text ns)) = Some b) \<and>
    (\<forall>q. store_outside s2 q \<longrightarrow>
        (\<forall>ns\<in>set (tree_files (ls s (pr_root pkg))). q \<noteq> path_join (path_join dir (pr_name pkg)) (rel_text ns)) \<longrightarrow>
        disk_file s3 q = disk_file s2 q)"
proof -
  let ?ts = "tree_files (ls s (pr_root pkg))" and ?dest = "path_join dir (pr_name pkg)"
  note c = captured_files[OF assms(1-6)]
  have link: "link_all link_content ?dest (pa_files art) s2 = (Inr u, s3)"
    using assms(10) c by (simp add: restore_package_def)
  have out: "\<forall>(rel, h)\<in>set (pa_files art). is_digest h \<and> store_outside s2 (path_join ?dest rel)"
    using c assms(9) store_okD(2)[OF assms(1)] by (auto simp: is_digest_def)
  have "\<forall>f\<in>set (pa_files art). \<not> is_absolute (fst f)"
    using c rel_text_relative tree_files_good[OF assms(2)] tree_files_hd by fastforce
  then have inj: "inj_on (path_join ?dest) (fst ` set (pa_files art))" by (auto simp: inj_on_def path_join_inj)
  have "distinct (map (path_join ?dest) (map fst (pa_files art)))"
    by (subst distinct_map) (use c inj in simp)
  then have dist: "distinct (map (\<lambda>f. path_join ?dest (fst f)) (pa_files art))" by (simp add: comp_def)
  note files = local_packages.link_all_files[OF link assms(7) out dist]
  note frame = local_packages.link_all_frame[OF link assms(7) out]
  have "disk_file s3 (path_join ?dest (rel_text ns)) = Some b"
    if "ns \<in> set ?ts" "read_local s (below (pr_root pkg) ns) = Some b" for ns b
  proof -
    have "(rel_text ns, ls_hash s b) \<in> set (pa_files art)" using c that by blast
    moreover have "stored_item s2 (ls_hash s b) = Some b" using c that assms(8) by blast
    ultimately show ?thesis using files by simp
  qed
  moreover have "disk_file s3 q = disk_file s2 q"
    if "store_outside s2 q" "\<forall>ns\<in>set ?ts. q \<noteq> path_join ?dest (rel_text ns)" for q
  proof -
    have "q \<notin> path_join ?dest ` fst ` set (pa_files art)" using c that(2) by auto
    then show ?thesis using frame that(1) by blast
  qed
  ultimately show ?thesis by blast
qed

text \<open>Restored files are hard links to the store: writing to one in place replaces the stored item, the store
  still claims to have it, storing the original again does not repair it, and every later restore
  delivers the wrong bytes.  Where links are not possible, the copy keeps the store apart.\<close>

theorem linked_write_corrupts:
  assumes "store_ok s" "is_digest h" "store_outside s p" "link_content s h p = (Inr u, s1)"
    and "write_at (ls_os s) p b (ls_disk s1) = Some d" "ls_hash s c = h"
  shows "stored_item (s1\<lparr>ls_disk := d\<rparr>) h =
      (if os_link (ls_os s) (content_path (ls_root s) h) p = None then Some b else stored_item s h) \<and>
    contains_key (s1\<lparr>ls_disk := d\<rparr>) h \<and>
    put_bytes (s1\<lparr>ls_disk := d\<rparr>) c = (Inr h, s1\<lparr>ls_disk := d\<rparr>) \<and>
    (store_outside s q \<longrightarrow> link_content (s1\<lparr>ls_disk := d\<rparr>) h q = (Inr v, s2) \<longrightarrow>
      disk_file s2 q = stored_item (s1\<lparr>ls_disk := d\<rparr>) h)"
proof -
  let ?src = "content_path (ls_root s) h" and ?s = "s1\<lparr>ls_disk := d\<rparr>"
  have h: "length h = 32" using assms(2) by (simp add: is_digest_def)
  have ne: "?src \<noteq> p" using outside_ne[OF assms(3)] h by simp
  note wf = store_okD(1)[OF assms(1)]
  note rt = remove_target_facts[OF wf, where os = "ls_os s" and p = p]
  note l = link_content_frame[OF assms(1) h assms(3,4)] local_store.link_ok[OF assms(1-4)]
    local_store.link_file[OF assms(1-4)]
  obtain i where i: "names (ls_disk s) ?src = Some (Reg i)"
    using l h by (auto simp: stored_item_def reg_bytes_def reg_ino_iff)
  have item: "stored_item ?s h = (if os_link (ls_os s) ?src p = None then Some b else stored_item s h) \<and>
      names d = names (ls_disk s1) \<and> wf_disk d"
    using assms(1) h assms(3,4)
  proof (cases rule: link_content_cases)
    case (linked d')
    have n: "names d' p = Some (Reg i)" "names d' ?src = Some (Reg i)"
      using hard_link_ok(1)[OF linked(4)] rt(2)[OF ne] i ne by simp_all
    have "os_link (ls_os s) ?src p = None" using linked(4) by (auto simp: hard_link_def split: option.splits if_splits)
    moreover have "d = set_bytes i b d'" using assms(5) linked(2) n by (simp add: write_at_def split: if_splits)
    ultimately show ?thesis using n h l linked(2) hard_link_wf[OF rt(1) linked(4)]
      by (simp add: stored_item_def disk_simps reg_ino_iff)
  next
    case (copied j)
    have "d = set_bytes (fresh (ls_disk s)) b (ls_disk s1)"
      using assms(5) copied(5) rt(4) by (simp add: write_at_def disk_simps split: if_splits)
    moreover have "reg_ino (ls_disk s1) ?src = Some i" "i \<noteq> fresh (ls_disk s)"
      using copied(5) ne rt(2) i wf_diskD[OF wf i] by (simp_all add: reg_ino_def disk_simps)
    moreover have "stored_item s1 h = stored_item s h" using l by simp
    ultimately show ?thesis using h l ne copied(3) store_okD(1)[of s1] by (auto simp: stored_item_def disk_simps)
  qed simp_all
  have ok: "store_ok ?s" using l item by (auto intro!: store_ok_update)
  have st: "stored_item ?s h \<noteq> None" using item l by simp
  have "contains_key ?s h" using local_store.contains_stored[OF ok assms(2)] st by simp
  moreover have "put_bytes ?s c = (Inr h, ?s)" using put_bytes_cases[OF ok, of c] l assms(6) st by auto
  moreover have "disk_file s2 q = stored_item ?s h" if "store_outside s q" "link_content ?s h q = (Inr v, s2)"
    using local_store.link_file[OF ok assms(2) _ that(2)] that(1) store_outside_root[of ?s s] l by simp
  ultimately show ?thesis using item by simp
qed

text \<open>Examples: a package of two files of the same content, one of another, and a store without items.\<close>

definition ex_os :: Os where
  "ex_os = \<lparr>os_create = (\<lambda>p. True), os_unlink = (\<lambda>p. True), os_read = (\<lambda>p. True), os_chmod = (\<lambda>p. True),
     os_link = (\<lambda>p q. None), os_target = (\<lambda>p t. t)\<rparr>"

definition ex_hash :: "string \<Rightarrow> string" where
  "ex_hash b = take 32 (b @ replicate 32 CHR ''x'')"

definition ex_disk :: disk where
  "ex_disk = \<lparr>names = [''/w/node_modules/a/x.js'' \<mapsto> Reg 0, ''/w/node_modules/a/lib/y.js'' \<mapsto> Reg 1],
     inodes = (\<lambda>i. if i = 0 then \<lparr>in_bytes = ''one'', in_mode = 420\<rparr> else \<lparr>in_bytes = ''two'', in_mode = 493\<rparr>),
     fresh = 2\<rparr>"

definition ex_store :: LocalStore where
  "ex_store = \<lparr>ls_root = ''/c'', ls_hash = ex_hash, ls_os = ex_os, ls_disk = ex_disk\<rparr>"

definition ex_ls :: "LocalStore \<Rightarrow> string \<Rightarrow> tree list" where
  "ex_ls s p = (if p = ''/w/node_modules/a'' then [Dir ''lib'' [File ''y.js''], Other ''l'', File ''x.js''] else [])"

definition ex_pkg :: PathsetPackageRef where
  "ex_pkg = \<lparr>pr_name = ''a'', pr_version = ''1.0.0'', pr_root = ''/w/node_modules/a''\<rparr>"

lemma outside_other_root:
  assumes "\<not> prefix (path_join (ls_root s) ''content'') p"
  shows "store_outside s p"
  using assms by (auto simp: store_outside_def store_paths_def content_path_eq)

lemma ex_outside: "\<not> prefix ''/c/content'' p \<Longrightarrow> store_outside ex_store p"
  by (rule outside_other_root) (simp add: ex_store_def path_join_def is_absolute_def)

lemma ex_store_ok: "store_ok ex_store"
  by (simp add: store_ok_def ex_store_def ex_disk_def ex_hash_def wf_disk_def min_def)

lemma not_isl_result: "\<not> isl (fst x) \<Longrightarrow> x = (Inr (), snd x)"
  by (cases "fst x") (auto intro: prod_eqI)

definition ex_put :: LocalStore where
  "ex_put = snd (put_bytes ex_store ''one'')"

lemma ex_put_ok: "store_ok ex_put \<and> ls_os ex_put = ex_os \<and> ls_root ex_put = ''/c'' \<and> ls_hash ex_put = ex_hash"
proof -
  have p: "put_bytes ex_store ''one'' = (fst (put_bytes ex_store ''one''), ex_put)" by (simp add: ex_put_def)
  show ?thesis using local_store.put_ok[OF ex_store_ok p] put_bytes_os[OF p] by (simp add: ex_store_def)
qed

lemma ex_put_outside: "\<not> prefix ''/c/content'' p \<Longrightarrow> store_outside ex_put p"
  by (rule outside_other_root) (simp add: ex_put_ok path_join_def is_absolute_def)

definition ex_linked :: LocalStore where
  "ex_linked = snd (link_content ex_put (ex_hash ''one'') ''/w/n.js'')"

lemma linked_write_corrupts_witness:
  "\<exists>d. write_at ex_os ''/w/n.js'' ''evil'' (ls_disk ex_linked) = Some d \<and>
     stored_item (ex_linked\<lparr>ls_disk := d\<rparr>) (ex_hash ''one'') = Some ''evil''"
proof -
  have l: "link_content ex_put (ex_hash ''one'') ''/w/n.js'' = (Inr (), ex_linked)"
  proof -
    have "\<not> isl (fst (link_content ex_put (ex_hash ''one'') ''/w/n.js''))" by code_simp
    then show ?thesis unfolding ex_linked_def by (rule not_isl_result)
  qed
  have "\<not> Option.is_none (write_at ex_os ''/w/n.js'' ''evil'' (ls_disk ex_linked))" by code_simp
  then obtain d where d: "write_at ex_os ''/w/n.js'' ''evil'' (ls_disk ex_linked) = Some d"
    by (auto simp: Option.is_none_def)
  have "is_digest (ex_hash ''one'')" by code_simp
  then show ?thesis
    using linked_write_corrupts[OF _ _ _ l, of "''evil''" d "''one''"] d ex_put_ok ex_put_outside[of "''/w/n.js''"]
    by (simp add: ex_os_def prefix_def)
qed

definition ex_captured :: LocalStore where
  "ex_captured = snd (capture_package put_bytes read_local ex_ls ex_pkg ex_store)"

definition ex_artifact :: PackageArtifact where
  "ex_artifact = projr (fst (capture_package put_bytes read_local ex_ls ex_pkg ex_store))"

definition ex_restored :: LocalStore where
  "ex_restored = snd (restore_package link_content ex_artifact ''/v/node_modules'' ex_captured)"

lemma not_isl_value: "\<not> isl (fst x) \<Longrightarrow> x = (Inr (projr (fst x)), snd x)"
  by (cases "fst x") (auto intro: prod_eqI)

lemma ex_package:
  "trees_ok (ex_ls ex_store (pr_root ex_pkg))"
  "tree_files (ex_ls ex_store (pr_root ex_pkg)) = [[''lib'', ''y.js''], [''x.js'']]"
  by code_simp+

lemma ex_package_files:
  "\<forall>ns\<in>set (tree_files (ex_ls ex_store (pr_root ex_pkg))).
     store_outside ex_store (below (pr_root ex_pkg) ns) \<and> disk_file ex_store (below (pr_root ex_pkg) ns) \<in> Some ` {''one'', ''two''}"
proof -
  have b: "below (pr_root ex_pkg) [''lib'', ''y.js''] = ''/w/node_modules/a/lib/y.js''"
    "below (pr_root ex_pkg) [''x.js''] = ''/w/node_modules/a/x.js''" by code_simp+
  have f: "disk_file ex_store ''/w/node_modules/a/lib/y.js'' = Some ''two''"
    "disk_file ex_store ''/w/node_modules/a/x.js'' = Some ''one''" by code_simp+
  show ?thesis unfolding ex_package by (simp del: below_simps add: b f ex_outside)
qed

lemma ex_capture: "capture_package put_bytes read_local ex_ls ex_pkg ex_store = (Inr ex_artifact, ex_captured)"
proof -
  have "\<not> isl (fst (capture_package put_bytes read_local ex_ls ex_pkg ex_store))" by code_simp
  then show ?thesis unfolding ex_artifact_def ex_captured_def by (rule not_isl_value)
qed

lemma ex_contents:
  "inj_on (ls_hash ex_store) {''one'', ''two''}"
  "\<forall>b\<in>{''one'', ''two''}. stored_item ex_store (ls_hash ex_store b) \<in> {None, Some b}"
proof -
  have "ls_hash ex_store ''one'' \<noteq> ls_hash ex_store ''two''" by code_simp
  then show "inj_on (ls_hash ex_store) {''one'', ''two''}" by simp
  have "stored_item ex_store (ls_hash ex_store ''one'') = None" "stored_item ex_store (ls_hash ex_store ''two'') = None"
    by code_simp+
  then show "\<forall>b\<in>{''one'', ''two''}. stored_item ex_store (ls_hash ex_store b) \<in> {None, Some b}" by simp
qed

lemma capture_restore_roundtrip_witness:
  "disk_file ex_restored ''/v/node_modules/a/lib/y.js'' = Some ''two'' \<and>
   disk_file ex_restored ''/w/node_modules/a/x.js'' = Some ''one''"
proof -
  note c = captured_files[OF ex_store_ok ex_package(1) ex_package_files ex_contents ex_capture]
  have "ls_root ex_captured = ls_root ex_store" by code_simp
  then have out: "store_outside ex_captured = store_outside ex_store" by (rule store_outside_root)
  have "\<not> isl (fst (restore_package link_content ex_artifact ''/v/node_modules'' ex_captured))" by code_simp
  then have r: "restore_package link_content ex_artifact ''/v/node_modules'' ex_captured = (Inr (), ex_restored)"
    unfolding ex_restored_def by (rule not_isl_result)
  have d: "path_join (path_join ''/v/node_modules'' (pr_name ex_pkg)) (rel_text [''lib'', ''y.js'']) = ''/v/node_modules/a/lib/y.js''"
    "path_join (path_join ''/v/node_modules'' (pr_name ex_pkg)) (rel_text [''x.js'']) = ''/v/node_modules/a/x.js''"
    by code_simp+
  have o: "\<forall>ns\<in>set (tree_files (ex_ls ex_store (pr_root ex_pkg))).
      store_outside ex_captured (path_join (path_join ''/v/node_modules'' (pr_name ex_pkg)) (rel_text ns))"
    unfolding ex_package out by (simp add: d ex_outside)
  note t = capture_restore_roundtrip[OF ex_store_ok ex_package(1) ex_package_files ex_contents ex_capture _ _ o r]
  have "read_local ex_store (below (pr_root ex_pkg) [''lib'', ''y.js'']) = Some ''two''"
    "disk_file ex_captured ''/w/node_modules/a/x.js'' = Some ''one''" by code_simp+
  then show ?thesis using t c out ex_outside[of "''/w/node_modules/a/x.js''"] by (simp del: below_simps add: ex_package(2) d)
qed

end
