(* ===== verification/Artifact_Cache.thy ===== *)
theory Artifact_Cache
  imports Package_Store Fingerprints Workspace
begin

text \<open>
  The installed packages of a workspace in the store: src/crates/scheduler/src/artifact_capture.rs (capturing, one
  JSON file per package), src/crates/scheduler/src/artifact_restore.rs (restoring all of them) and the two
  searches of src/crates/plugin-typescript/src/pathset_extractor.rs that find the packages.  Directory
  listings, canonical paths and JSON are parameters; so are the captures of the regular expression for pnpm
  paths.
\<close>

section \<open>Package entries\<close>

record Fs =
  fs_list :: "LocalStore \<Rightarrow> string \<Rightarrow> string list option"
  fs_tree :: "LocalStore \<Rightarrow> string \<Rightarrow> tree list"
  fs_is_dir :: "LocalStore \<Rightarrow> string \<Rightarrow> bool"
  fs_canon :: "LocalStore \<Rightarrow> string \<Rightarrow> string option"
  fs_json :: "string \<Rightarrow> json option"
  fs_pnpm :: "string \<Rightarrow> (string \<times> string \<times> string) option"
  fs_entry :: "PackageArtifact codec"
  fs_diff :: "string \<Rightarrow> string \<Rightarrow> string option"

definition path_exists :: "Fs \<Rightarrow> LocalStore \<Rightarrow> string \<Rightarrow> bool" where
  "path_exists F s p = (path_is_file (ls_os s) (ls_disk s) p \<or> fs_is_dir F s p)"

definition package_filename :: "string \<Rightarrow> string \<Rightarrow> string" where
  "package_filename name version = replace_char slash ''+'' name @ ''@'' @ version @ ''.json''"

definition write_package_entry :: "Fs \<Rightarrow> string \<Rightarrow> PackageArtifact \<Rightarrow> LocalStore \<Rightarrow> bool \<times> LocalStore" where
  "write_package_entry F path art s =
     (case Option.bind (enc (fs_entry F) art) (\<lambda>json. write_renamed (ls_os s) path json (ls_disk s)) of
        None \<Rightarrow> (False, s) | Some d \<Rightarrow> (True, s\<lparr>ls_disk := d\<rparr>))"

definition read_version :: "Fs \<Rightarrow> LocalStore \<Rightarrow> string \<Rightarrow> string option" where
  "read_version F s pkg_json = Option.bind (read_local s pkg_json) (\<lambda>text. Option.bind (fs_json F text)
     (\<lambda>v. Option.bind (json_get ''version'' v) json_str))"

section \<open>Finding packages\<close>

text \<open>\<^verbatim>\<open>.pnpm/<encoded>@<version>/node_modules/<name>/...\<close>: the first occurrence of each name and version.\<close>

fun extract_pnpm_from :: "Fs \<Rightarrow> string \<Rightarrow> (string \<times> string) list \<Rightarrow> string list \<Rightarrow> PathsetPackageRef list" where
  "extract_pnpm_from F root seen [] = []"
| "extract_pnpm_from F root seen (p # ps) =
    (case fs_pnpm F (replace_char (CHR 92) ''/'' p) of
       None \<Rightarrow> extract_pnpm_from F root seen ps
     | Some (encoded, version, dir_name) \<Rightarrow>
         if (dir_name, version) \<in> set seen then extract_pnpm_from F root seen ps
         else \<lparr>pr_name = dir_name, pr_version = version,
            pr_root = foldl path_join root [''node_modules'', ''.pnpm'', encoded @ ''@'' @ version, ''node_modules'', dir_name]\<rparr>
          # extract_pnpm_from F root ((dir_name, version) # seen) ps)"

definition extract_pnpm_packages :: "Fs \<Rightarrow> string list \<Rightarrow> string \<Rightarrow> PathsetPackageRef list" where
  "extract_pnpm_packages F reads root = extract_pnpm_from F root [] reads"

definition read_flat_pkg :: "Fs \<Rightarrow> LocalStore \<Rightarrow> string \<Rightarrow> string \<Rightarrow> string \<Rightarrow> PathsetPackageRef option" where
  "read_flat_pkg F s nm canonical_nm name =
     (let package_root = path_join nm name in
      if (case fs_canon F s package_root of Some c \<Rightarrow> \<not> path_starts_with c canonical_nm | None \<Rightarrow> False) then None
      else Option.bind (read_local s (path_join package_root ''package.json'')) (\<lambda>text.
        Option.bind (fs_json F text) (\<lambda>v.
          if json_get ''workspaces'' v \<noteq> None then None
          else map_option (\<lambda>ver. \<lparr>pr_name = name, pr_version = ver, pr_root = package_root\<rparr>)
            (Option.bind (json_get ''version'' v) json_str))))"

text \<open>The names of packages below node_modules, scopes opened, hidden entries left out.\<close>

definition package_names :: "Fs \<Rightarrow> LocalStore \<Rightarrow> string \<Rightarrow> string list \<Rightarrow> string list" where
  "package_names F s nm entries = concat (map (\<lambda>n.
     if starts_with ''.'' n then []
     else if starts_with ''@'' n then
       (case fs_list F s (path_join nm n) of None \<Rightarrow> [] | Some subs \<Rightarrow> map (\<lambda>m. n @ ''/'' @ m) subs)
     else [n]) entries)"

definition extract_flat_from_node_modules :: "Fs \<Rightarrow> LocalStore \<Rightarrow> string \<Rightarrow> PathsetPackageRef list" where
  "extract_flat_from_node_modules F s root =
     (let nm = path_join root ''node_modules'' in
      case fs_canon F s nm of None \<Rightarrow> []
      | Some canonical \<Rightarrow> (case fs_list F s nm of None \<Rightarrow> []
          | Some entries \<Rightarrow> sort_key pr_name
              (List.map_filter (read_flat_pkg F s nm canonical) (package_names F s nm entries))))"

section \<open>Capturing\<close>

definition MAX_NEW_PACKAGES_PER_CAPTURE :: nat where
  "MAX_NEW_PACKAGES_PER_CAPTURE = 20"

text \<open>Capturing one package and writing its entry: whether that worked.\<close>

definition capture_entry :: "Fs \<Rightarrow> string \<Rightarrow> PathsetPackageRef \<Rightarrow> LocalStore \<Rightarrow> bool \<times> LocalStore" where
  "capture_entry F pkg_file r s =
     (case capture_package put_bytes read_local (fs_tree F) r s of
        (Inl e, s1) \<Rightarrow> (False, s1)
      | (Inr art, s1) \<Rightarrow> write_package_entry F pkg_file art s1)"

fun capture_refs :: "Fs \<Rightarrow> string \<Rightarrow> PathsetPackageRef list \<Rightarrow> nat \<Rightarrow> LocalStore \<Rightarrow> LocalStore" where
  "capture_refs F dir [] captured s = s"
| "capture_refs F dir (r # rs) captured s =
    (if captured \<ge> MAX_NEW_PACKAGES_PER_CAPTURE then s
     else let pkg_file = path_join dir (package_filename (pr_name r) (pr_version r)) in
       if path_exists F s pkg_file \<or> \<not> path_exists F s (pr_root r) then capture_refs F dir rs captured s
       else (case capture_entry F pkg_file r s of
           (True, s1) \<Rightarrow> capture_refs F dir rs (captured + 1) s1
         | (False, s1) \<Rightarrow> capture_refs F dir rs captured s1))"

definition capture_now :: "Fs \<Rightarrow> string list \<Rightarrow> string \<Rightarrow> string \<Rightarrow> LocalStore \<Rightarrow> LocalStore" where
  "capture_now F reads root dir s =
     (let pnpm = extract_pnpm_packages F reads root;
          refs = (if pnpm = [] then extract_flat_from_node_modules F s root else pnpm) in
      if refs = [] \<or> \<not> os_create (ls_os s) dir then s else capture_refs F dir refs 0 s)"

text \<open>The walk over all of node_modules: every package with a version, counted also when its entry cannot be
  written.\<close>

fun capture_all_names :: "Fs \<Rightarrow> string \<Rightarrow> string \<Rightarrow> string list \<Rightarrow> LocalStore \<Rightarrow> nat \<times> LocalStore" where
  "capture_all_names F nm dir [] s = (0, s)"
| "capture_all_names F nm dir (name # rest) s =
    (case read_version F s (path_join (path_join nm name) ''package.json'') of
       None \<Rightarrow> capture_all_names F nm dir rest s
     | Some version \<Rightarrow>
         (let pkg_file = path_join dir (package_filename name version) in
          if path_exists F s pkg_file then
            (case capture_all_names F nm dir rest s of (n, s') \<Rightarrow> (n + 1, s'))
          else (case capture_package put_bytes read_local (fs_tree F)
                  \<lparr>pr_name = name, pr_version = version, pr_root = path_join nm name\<rparr> s of
              (Inl e, s1) \<Rightarrow> capture_all_names F nm dir rest s1
            | (Inr art, s1) \<Rightarrow>
                (case capture_all_names F nm dir rest (snd (write_package_entry F pkg_file art s1)) of
                   (n, s') \<Rightarrow> (n + 1, s')))))"

fun capture_all_entries :: "Fs \<Rightarrow> string \<Rightarrow> string \<Rightarrow> string list \<Rightarrow> LocalStore \<Rightarrow> nat io \<times> LocalStore" where
  "capture_all_entries F nm dir [] s = (Ok 0, s)"
| "capture_all_entries F nm dir (n # ns) s =
    (if starts_with ''.'' n then capture_all_entries F nm dir ns s
     else if \<not> fs_is_dir F s (path_join nm n) then capture_all_entries F nm dir ns s
     else (case (if starts_with ''@'' n then map_option (map (\<lambda>m. n @ ''/'' @ m)) (fs_list F s (path_join nm n)) else Some [n]) of
         None \<Rightarrow> (Err, s)
       | Some pkgs \<Rightarrow> (case capture_all_names F nm dir pkgs s of (k, s1) \<Rightarrow>
           (case capture_all_entries F nm dir ns s1 of
              (Ok m, s2) \<Rightarrow> (Ok (k + m), s2) | (Err, s2) \<Rightarrow> (Err, s2)))))"

definition capture_all_node_modules :: "Fs \<Rightarrow> string \<Rightarrow> string \<Rightarrow> LocalStore \<Rightarrow> nat io \<times> LocalStore" where
  "capture_all_node_modules F root dir s =
     (let nm = path_join root ''node_modules'' in
      if \<not> fs_is_dir F s nm then (Ok 0, s)
      else if \<not> os_create (ls_os s) dir then (Err, s)
      else (case fs_list F s nm of
          None \<Rightarrow> (Err, s)
        | Some entries \<Rightarrow> capture_all_entries F nm dir entries s))"

section \<open>Restoring\<close>

fun load_artifacts :: "Fs \<Rightarrow> LocalStore \<Rightarrow> string \<Rightarrow> string list \<Rightarrow> ArtifactError + PackageArtifact list" where
  "load_artifacts F s dir [] = Inr []"
| "load_artifacts F s dir (n # ns) =
    (if path_extension (path_join dir n) \<noteq> ''json'' then load_artifacts F s dir ns
     else (case read_local s (path_join dir n) of
         None \<Rightarrow> Inl (Io Link_failed)
       | Some text \<Rightarrow> (case load_artifacts F s dir ns of
             Inl e \<Rightarrow> Inl e
           | Inr arts \<Rightarrow> Inr (case dec (fs_entry F) text of None \<Rightarrow> arts | Some a \<Rightarrow> a # arts))))"

definition all_hashes_present :: "LocalStore \<Rightarrow> PackageArtifact list \<Rightarrow> bool" where
  "all_hashes_present s arts = list_all (\<lambda>a. list_all (\<lambda>f. contains_key s (snd f)) (pa_files a)) arts"

fun restore_packages :: "string \<Rightarrow> PackageArtifact list \<Rightarrow> LocalStore \<Rightarrow> (ArtifactError + unit) \<times> LocalStore" where
  "restore_packages nm [] s = (Inr (), s)"
| "restore_packages nm (a # arts) s =
    (case restore_package link_content a nm s of
       (Inl e, s') \<Rightarrow> (Inl e, s')
     | (Inr _, s') \<Rightarrow> restore_packages nm arts s')"

definition try_restore_from_cas :: "Fs \<Rightarrow> string \<Rightarrow> string \<Rightarrow> LocalStore \<Rightarrow> (ArtifactError + bool) \<times> LocalStore" where
  "try_restore_from_cas F dir root s =
     (if \<not> fs_is_dir F s dir then (Inr False, s)
      else (case fs_list F s dir of
          None \<Rightarrow> (Inl (Io Link_failed), s)
        | Some ns \<Rightarrow> (case load_artifacts F s dir ns of
            Inl e \<Rightarrow> (Inl e, s)
          | Inr arts \<Rightarrow>
              if arts = [] \<or> \<not> all_hashes_present s arts then (Inr False, s)
              else (case restore_packages (path_join root ''node_modules'') arts s of
                  (Inl e, s') \<Rightarrow> (Inl e, s')
                | (Inr _, s') \<Rightarrow> (Inr True, s')))))"

section \<open>What a restore does\<close>

lemma write_entry_facts:
  assumes "store_ok s" "store_outside s path"
  shows "store_ok (snd (write_package_entry F path art s))"
    "stored_item (snd (write_package_entry F path art s)) = stored_item s"
    "q \<noteq> path \<Longrightarrow> disk_file (snd (write_package_entry F path art s)) q = disk_file s q"
proof -
  note wf = store_okD(1)[OF assms(1)] and ne = outside_ne[OF assms(2)]
  obtain d where d: "snd (write_package_entry F path art s) = s\<lparr>ls_disk := d\<rparr>"
    and "d = ls_disk s \<or> (\<exists>b. d = new_file path b umask_mode (ls_disk s))"
    by (cases "snd (write_package_entry F path art s) = s")
       (force, auto simp: write_package_entry_def write_renamed_def bind_eq_Some_conv split: option.splits if_splits)
  then have f: "wf_disk d" "\<And>q. q \<noteq> path \<Longrightarrow> names d q = names (ls_disk s) q"
      "\<And>q. q \<noteq> path \<Longrightarrow> reg_bytes d q = reg_bytes (ls_disk s) q"
    using wf by (auto simp: disk_simps)
  show "store_ok (snd (write_package_entry F path art s))"
    unfolding d using assms(1) f ne by (auto intro!: store_ok_update)
  show "stored_item (snd (write_package_entry F path art s)) = stored_item s"
    unfolding d by (rule stored_item_frame[OF _ _ assms(2)]) (use f in auto)
  show "q \<noteq> path \<Longrightarrow> disk_file (snd (write_package_entry F path art s)) q = disk_file s q"
    unfolding d using f by (simp add: disk_file_def)
qed

definition package_dests :: "string \<Rightarrow> PackageArtifact list \<Rightarrow> (string \<times> string) list" where
  "package_dests nm arts =
     concat (map (\<lambda>a. map (\<lambda>(rel, h). (path_join (path_join nm (pa_name a)) rel, h)) (pa_files a)) arts)"

lemma link_all_append:
  "link_all link root (fs @ gs) s =
    (case link_all link root fs s of (Inl e, s') \<Rightarrow> (Inl e, s') | (Inr _, s') \<Rightarrow> link_all link root gs s')"
  by (induction fs arbitrary: s) (auto split: prod.splits sum.splits)

lemma link_all_root:
  "link_all link root fs s = link_all link [] (map (\<lambda>(rel, h). (path_join root rel, h)) fs) s"
  by (induction fs arbitrary: s) (auto simp: path_join_def split: prod.splits sum.splits)

lemma restore_packages_links: "restore_packages nm arts s = link_all link_content [] (package_dests nm arts) s"
  by (induction arts arbitrary: s)
     (auto simp: package_dests_def restore_package_def link_all_append link_all_root[of _ "path_join _ _"]
       split: prod.splits sum.splits)

text \<open>The entries of a directory that a restore would use.\<close>

definition restorable :: "Fs \<Rightarrow> string \<Rightarrow> LocalStore \<Rightarrow> PackageArtifact list" where
  "restorable F dir s = (if fs_is_dir F s dir then
     (case fs_list F s dir of None \<Rightarrow> [] | Some ns \<Rightarrow> (case load_artifacts F s dir ns of Inl e \<Rightarrow> [] | Inr arts \<Rightarrow> arts)) else [])"

lemma hashes_present_stored:
  assumes "store_ok s" "list_all (\<lambda>a. list_all (\<lambda>f. is_digest (snd f)) (pa_files a)) arts"
  shows "all_hashes_present s arts \<longleftrightarrow> (\<forall>(p, h)\<in>set (package_dests nm arts). stored_item s h \<noteq> None)"
proof -
  have k: "contains_key s h \<longleftrightarrow> stored_item s h \<noteq> None" if "is_digest h" for h
    by (rule local_store.contains_stored[OF assms(1) that])
  show ?thesis using assms(2) k by (fastforce simp: all_hashes_present_def package_dests_def list_all_iff)
qed

lemma try_restore_cases:
  obtains (off) "try_restore_from_cas F dir root s = (Inr False, s)" "restorable F dir s = [] \<or> \<not> all_hashes_present s (restorable F dir s)"
  | (unread) e where "try_restore_from_cas F dir root s = (Inl e, s)"
  | (links) "all_hashes_present s (restorable F dir s)" "restorable F dir s \<noteq> []"
      "try_restore_from_cas F dir root s =
        (case link_all link_content [] (package_dests (path_join root ''node_modules'') (restorable F dir s)) s of
           (Inl e, s') \<Rightarrow> (Inl e, s') | (Inr _, s') \<Rightarrow> (Inr True, s'))"
proof (cases "\<exists>ns arts. fs_is_dir F s dir \<and> fs_list F s dir = Some ns \<and> load_artifacts F s dir ns = Inr arts")
  case True
  then obtain ns arts where *: "fs_is_dir F s dir" "fs_list F s dir = Some ns" "load_artifacts F s dir ns = Inr arts" by blast
  then have r: "restorable F dir s = arts" by (simp add: restorable_def)
  show ?thesis
    using off links * r by (cases "arts = [] \<or> \<not> all_hashes_present s arts") (auto simp: try_restore_from_cas_def restore_packages_links)
next
  case False
  show ?thesis
  proof (cases "fs_is_dir F s dir")
    case True
    then have "\<exists>e. try_restore_from_cas F dir root s = (Inl e, s)"
      using \<open>\<not> (\<exists>ns arts. _ ns arts)\<close> by (cases "fs_list F s dir") (auto simp: try_restore_from_cas_def split: sum.splits)
    then show ?thesis using unread by blast
  qed (rule off, simp_all add: try_restore_from_cas_def restorable_def)
qed

text \<open>A restore that reports false has touched nothing, and it does so exactly when there is no usable entry
  or an item is missing; it puts back all files of all usable entries when it reports true and changes
  no other file outside the store.  It fails half-way only when every item was there.  Whether the entries are all the packages that
  were installed is not looked at.\<close>

theorem try_restore_all_or_nothing:
  assumes "store_ok s" "list_all (\<lambda>a. list_all (\<lambda>f. is_digest (snd f)) (pa_files a)) (restorable F dir s)"
    and "dests = package_dests (path_join root ''node_modules'') (restorable F dir s)"
    and "\<forall>p\<in>set (map fst dests). store_outside s p" "distinct (map fst dests)"
  shows "case try_restore_from_cas F dir root s of
      (Inr False, s') \<Rightarrow> s' = s \<and> (restorable F dir s = [] \<or> (\<exists>(p, h)\<in>set dests. stored_item s h = None))
    | (Inr True, s') \<Rightarrow> restorable F dir s \<noteq> [] \<and> stored_item s' = stored_item s \<and>
        (\<forall>(p, h)\<in>set dests. stored_item s h \<noteq> None \<and> disk_file s' p = stored_item s h) \<and>
        (\<forall>q. store_outside s q \<longrightarrow> q \<notin> fst ` set dests \<longrightarrow> disk_file s' q = disk_file s q)
    | (Inl e, s') \<Rightarrow> (s' = s \<or> (\<forall>(p, h)\<in>set dests. stored_item s h \<noteq> None)) \<and> stored_item s' = stored_item s \<and>
        (\<forall>q. store_outside s q \<longrightarrow> q \<notin> fst ` set dests \<longrightarrow> disk_file s' q = disk_file s q)"
proof (cases rule: try_restore_cases[of F dir root s])
  case off
  then show ?thesis
    using hashes_present_stored[OF assms(1,2), of "path_join root ''node_modules''"] assms(3) by fastforce
next
  case (unread e)
  then show ?thesis by simp
next
  case links
  have root: "path_join [] p = p" for p by (simp add: path_join_def)
  have pre: "\<forall>(p, h)\<in>set dests. is_digest h \<and> store_outside s (path_join [] p)"
    using assms(2-4) by (fastforce simp: root package_dests_def list_all_iff)
  have dist: "distinct (map (\<lambda>f. path_join [] (fst f)) dests)" using assms(5) by (simp add: root)
  obtain r s' where l: "link_all link_content [] dests s = (r, s')" by (cases "link_all link_content [] dests s")
  note frame = local_packages.link_all_frame[OF l assms(1) pre]
  have present: "\<forall>(p, h)\<in>set dests. stored_item s h \<noteq> None"
    using links(1) hashes_present_stored[OF assms(1,2)] assms(3) by blast
  show ?thesis
  proof (cases r)
    case (Inl e)
    then show ?thesis using links(3) l frame present assms(3) by (simp add: root)
  next
    case (Inr u)
    have "disk_file s' p = stored_item s h" if "(p, h) \<in> set dests" for p h
      using local_packages.link_all_files[OF l[unfolded Inr] assms(1) pre dist that] by (simp add: root)
    then show ?thesis using Inr links(2,3) l frame present assms(3) by (auto simp: root)
  qed
qed

text \<open>An example: packages a and b were installed, and only a has an entry.\<close>

definition ex_artifact_a :: PackageArtifact where
  "ex_artifact_a = \<lparr>pa_name = ''a'', pa_version = ''1.0.0'', pa_files = [(''x.js'', ex_hash ''one'')]\<rparr>"

definition ex_fs :: Fs where
  "ex_fs = \<lparr>fs_list = (\<lambda>s p. if p = ''/p'' then Some [''x.tmp'', ''a@1.0.0.json''] else None), fs_tree = ex_ls,
     fs_is_dir = (\<lambda>s p. p = ''/p''), fs_canon = (\<lambda>s p. Some p), fs_json = (\<lambda>t. None), fs_pnpm = (\<lambda>p. None),
     fs_entry = \<lparr>enc = (\<lambda>a. Some ''A''), dec = (\<lambda>t. if t = ''A'' then Some ex_artifact_a else None)\<rparr>,
     fs_diff = (\<lambda>p q. None)\<rparr>"

definition ex_saved :: LocalStore where
  "ex_saved = \<lparr>ls_root = ''/c'', ls_hash = ex_hash, ls_os = ex_os,
     ls_disk = \<lparr>names = [content_path ''/c'' (ex_hash ''one'') \<mapsto> Reg 0, ''/p/a@1.0.0.json'' \<mapsto> Reg 1],
       inodes = (\<lambda>i. if i = 0 then \<lparr>in_bytes = ''one'', in_mode = 420\<rparr> else \<lparr>in_bytes = ''A'', in_mode = 420\<rparr>),
       fresh = 2\<rparr>\<rparr>"

lemma ex_saved_facts:
  "store_ok ex_saved" "\<not> prefix ''/c/content'' p \<Longrightarrow> store_outside ex_saved p"
  "restorable ex_fs ''/p'' ex_saved = [ex_artifact_a]"
proof -
  show "store_ok ex_saved" by (simp add: store_ok_def ex_saved_def wf_disk_def ex_hash_def min_def)
  show "\<not> prefix ''/c/content'' p \<Longrightarrow> store_outside ex_saved p"
    by (rule outside_other_root) (simp add: ex_saved_def path_join_def is_absolute_def)
  show "restorable ex_fs ''/p'' ex_saved = [ex_artifact_a]" by code_simp
qed

lemma try_restore_all_or_nothing_witness:
  "fst (try_restore_from_cas ex_fs ''/p'' ''/v'' ex_saved) = Inr True \<and>
   disk_file (snd (try_restore_from_cas ex_fs ''/p'' ''/v'' ex_saved)) ''/v/node_modules/a/x.js'' = Some ''one'' \<and>
   disk_file (snd (try_restore_from_cas ex_fs ''/p'' ''/v'' ex_saved)) ''/v/node_modules/b/z.js'' = None"
proof -
  let ?r = "try_restore_from_cas ex_fs ''/p'' ''/v'' ex_saved"
  let ?d = "package_dests (path_join ''/v'' ''node_modules'') (restorable ex_fs ''/p'' ex_saved)"
  have d: "?d = [(''/v/node_modules/a/x.js'', ex_hash ''one'')]" unfolding ex_saved_facts(3) by code_simp
  have dig: "list_all (\<lambda>a. list_all (\<lambda>f. is_digest (snd f)) (pa_files a)) (restorable ex_fs ''/p'' ex_saved)"
    unfolding ex_saved_facts(3) by code_simp
  have i: "stored_item ex_saved (ex_hash ''one'') = Some ''one''" "disk_file ex_saved ''/v/node_modules/b/z.js'' = None" by code_simp+
  have o: "\<forall>p\<in>set (map fst ?d). store_outside ex_saved p" unfolding d by (simp add: ex_saved_facts(2))
  have dist: "distinct (map fst ?d)" unfolding d by simp
  have present: "all_hashes_present ex_saved [ex_artifact_a]"
    using hashes_present_stored[OF ex_saved_facts(1) dig, of "path_join ''/v'' ''node_modules''"] i(1)
    unfolding d unfolding ex_saved_facts(3) by simp
  have l: "load_artifacts ex_fs ex_saved ''/p'' [''x.tmp'', ''a@1.0.0.json''] = Inr [ex_artifact_a]" by code_simp
  have "fst (restore_packages (path_join ''/v'' ''node_modules'') [ex_artifact_a] ex_saved) = Inr ()" by code_simp
  then have r: "fst ?r = Inr True"
    using present l by (cases "restore_packages (path_join ''/v'' ''node_modules'') [ex_artifact_a] ex_saved")
      (simp add: try_restore_from_cas_def ex_fs_def)
  obtain t where t: "?r = (Inr True, t)" using r by (cases ?r) simp
  note all = try_restore_all_or_nothing[OF ex_saved_facts(1) dig refl o dist, unfolded t d prod.case sum.case bool.case]
  have "disk_file t ''/v/node_modules/a/x.js'' = stored_item ex_saved (ex_hash ''one'')" using all by simp
  moreover have "disk_file t ''/v/node_modules/b/z.js'' = disk_file ex_saved ''/v/node_modules/b/z.js''"
  proof -
    have "store_outside ex_saved ''/v/node_modules/b/z.js''" by (rule ex_saved_facts(2)) simp
    then show ?thesis using all by simp
  qed
  ultimately show ?thesis unfolding t fst_conv snd_conv i by blast
qed

end
