(* ===== verification/Bin_Links.thy ===== *)
theory Bin_Links
  imports Artifact_Cache
begin

text \<open>
  The links in node_modules/.bin (src/crates/scheduler/src/bin_links.rs), made after a restore from the bin fields
  of the packages.  \<^verbatim>\<open>pathdiff::diff_paths\<close> is a parameter.  A count is the number of links made;
  an error stops the whole.
\<close>

unbundle bit_operations_syntax

definition create_one_bin_link :: "Fs \<Rightarrow> string \<Rightarrow> string \<Rightarrow> string \<Rightarrow> string \<Rightarrow> LocalStore \<Rightarrow> bool io \<times> LocalStore" where
  "create_one_bin_link F bin_dir bin_name pkg_dir rel s =
     (let os = ls_os s; target = path_join pkg_dir rel; link_path = path_join bin_dir bin_name in
      if \<not> path_exists F s target then (Ok False, s)
      else (let d = unlink_ignored os link_path (ls_disk s);
                rel_target = (case fs_diff F target bin_dir of Some r \<Rightarrow> r | None \<Rightarrow> target) in
        case symlink os rel_target link_path d of
          None \<Rightarrow> (Err, s\<lparr>ls_disk := d\<rparr>)
        | Some d1 \<Rightarrow> (Ok True, s\<lparr>ls_disk :=
              (case file_ino os d1 target of
                 None \<Rightarrow> d1
               | Some i \<Rightarrow> (case chmod os target (in_mode (inodes d1 i) OR 73) d1 of None \<Rightarrow> d1 | Some d2 \<Rightarrow> d2))\<rparr>)))"

fun create_named_links :: "Fs \<Rightarrow> string \<Rightarrow> string \<Rightarrow> (string \<times> json) list \<Rightarrow> LocalStore \<Rightarrow> nat io \<times> LocalStore" where
  "create_named_links F bin_dir pkg_dir [] s = (Ok 0, s)"
| "create_named_links F bin_dir pkg_dir ((name, v) # kvs) s =
    (case json_str v of
       None \<Rightarrow> create_named_links F bin_dir pkg_dir kvs s
     | Some rel \<Rightarrow> (case create_one_bin_link F bin_dir name pkg_dir rel s of
           (Err, s1) \<Rightarrow> (Err, s1)
         | (Ok made, s1) \<Rightarrow> (case create_named_links F bin_dir pkg_dir kvs s1 of
               (Err, s2) \<Rightarrow> (Err, s2)
             | (Ok n, s2) \<Rightarrow> (Ok (if made then n + 1 else n), s2))))"

definition create_bin_links_for_package :: "Fs \<Rightarrow> string \<Rightarrow> string \<Rightarrow> string \<Rightarrow> LocalStore \<Rightarrow> nat io \<times> LocalStore" where
  "create_bin_links_for_package F pkg_dir name bin_dir s =
     (if \<not> fs_is_dir F s pkg_dir then (Ok 0, s)
      else (case Option.bind (read_local s (path_join pkg_dir ''package.json'')) (fs_json F) of
          None \<Rightarrow> (Ok 0, s)
        | Some v \<Rightarrow> (case json_get ''bin'' v of
              Some (JStr rel) \<Rightarrow> create_named_links F bin_dir pkg_dir [(last (split_on slash name), JStr rel)] s
            | Some (JObj kvs) \<Rightarrow> create_named_links F bin_dir pkg_dir kvs s
            | _ \<Rightarrow> (Ok 0, s))))"

fun create_package_links :: "Fs \<Rightarrow> string \<Rightarrow> string \<Rightarrow> string list \<Rightarrow> LocalStore \<Rightarrow> nat io \<times> LocalStore" where
  "create_package_links F nm bin_dir [] s = (Ok 0, s)"
| "create_package_links F nm bin_dir (name # rest) s =
    (case create_bin_links_for_package F (path_join nm name) name bin_dir s of
       (Err, s1) \<Rightarrow> (Err, s1)
     | (Ok n, s1) \<Rightarrow> (case create_package_links F nm bin_dir rest s1 of
           (Err, s2) \<Rightarrow> (Err, s2) | (Ok m, s2) \<Rightarrow> (Ok (n + m), s2)))"

fun create_links_in :: "Fs \<Rightarrow> string \<Rightarrow> string \<Rightarrow> string list \<Rightarrow> LocalStore \<Rightarrow> nat io \<times> LocalStore" where
  "create_links_in F nm bin_dir [] s = (Ok 0, s)"
| "create_links_in F nm bin_dir (n # ns) s =
    (if starts_with ''.'' n then create_links_in F nm bin_dir ns s
     else if starts_with ''@'' n \<and> \<not> fs_is_dir F s (path_join nm n) then create_links_in F nm bin_dir ns s
     else (case (if starts_with ''@'' n then map_option (map (\<lambda>m. n @ ''/'' @ m)) (fs_list F s (path_join nm n)) else Some [n]) of
         None \<Rightarrow> (Err, s)
       | Some pkgs \<Rightarrow> (case create_package_links F nm bin_dir pkgs s of
             (Err, s1) \<Rightarrow> (Err, s1)
           | (Ok k, s1) \<Rightarrow> (case create_links_in F nm bin_dir ns s1 of
                 (Err, s2) \<Rightarrow> (Err, s2) | (Ok m, s2) \<Rightarrow> (Ok (k + m), s2)))))"

definition create_bin_links :: "Fs \<Rightarrow> string \<Rightarrow> LocalStore \<Rightarrow> nat io \<times> LocalStore" where
  "create_bin_links F root s =
     (let nm = path_join root ''node_modules''; bin_dir = path_join nm ''.bin'' in
      if \<not> os_create (ls_os s) bin_dir then (Err, s)
      else (case fs_list F s nm of
          None \<Rightarrow> (Err, s)
        | Some entries \<Rightarrow> create_links_in F nm bin_dir entries s))"

end
