(* ===== verification/Postinstall.thy ===== *)
theory Postinstall
  imports Package_Store
begin

text \<open>
  Replaying postinstall scripts: src/crates/scheduler/src/postinstall_cache.rs and run_postinstall_phase of
  src/crates/scheduler/src/runner.rs.  The walk over a directory (its files and symbolic links, in walkdir's
  order), the JSON codec of manifests, the platform, the node version and what a script does are parameters.
\<close>

section \<open>Manifests\<close>

datatype FileKind = Regular | Symlink string

record ManifestEntry =
  me_path :: string
  me_hash :: string
  me_mode :: nat
  me_kind :: FileKind

type_synonym PostinstallManifest = "ManifestEntry list"

definition zero_hash :: string where
  "zero_hash = replicate 32 (char_of (0::nat))"

text \<open>One entry of the walk: None when it is skipped.\<close>

definition capture_file :: "string \<Rightarrow> string \<Rightarrow> LocalStore \<Rightarrow> ManifestEntry option \<times> LocalStore" where
  "capture_file dir p s =
     (case path_strip_prefix p dir of
        None \<Rightarrow> (None, s)
      | Some rel \<Rightarrow> (case names (ls_disk s) p of
            None \<Rightarrow> (None, s)
          | Some (Sym t) \<Rightarrow> (Some \<lparr>me_path = rel, me_hash = zero_hash, me_mode = 0, me_kind = Symlink t\<rparr>, s)
          | Some (Reg i) \<Rightarrow> (case read_local s p of
                None \<Rightarrow> (None, s)
              | Some b \<Rightarrow> (case put_bytes_keyed s (ls_hash s b) b of
                    (Inl e, s') \<Rightarrow> (None, s')
                  | (Inr _, s') \<Rightarrow> (Some \<lparr>me_path = rel, me_hash = ls_hash s b,
                        me_mode = in_mode (inodes (ls_disk s') i) mod 512, me_kind = Regular\<rparr>, s')))))"

fun capture_files :: "string \<Rightarrow> string list \<Rightarrow> LocalStore \<Rightarrow> PostinstallManifest \<times> LocalStore" where
  "capture_files dir [] s = ([], s)"
| "capture_files dir (p # ps) s =
    (case capture_file dir p s of (e, s1) \<Rightarrow>
       (case capture_files dir ps s1 of (es, s2) \<Rightarrow> ((case e of None \<Rightarrow> es | Some x \<Rightarrow> x # es), s2)))"

definition capture_dir :: "(LocalStore \<Rightarrow> string \<Rightarrow> string list option) \<Rightarrow> string \<Rightarrow> LocalStore \<Rightarrow> PostinstallManifest \<times> LocalStore" where
  "capture_dir walk dir s = (case walk s dir of None \<Rightarrow> ([], s) | Some ps \<Rightarrow> capture_files dir ps s)"

definition diff_manifests :: "PostinstallManifest \<Rightarrow> PostinstallManifest \<Rightarrow> PostinstallManifest" where
  "diff_manifests before after =
     (let before_map = map_of (rev (map (\<lambda>e. (me_path e, (me_hash e, me_mode e, me_kind e))) before)) in
      filter (\<lambda>e. case before_map (me_path e) of
          Some (hash, mode, kind) \<Rightarrow> hash \<noteq> me_hash e \<or> mode \<noteq> me_mode e \<or> kind \<noteq> me_kind e
        | None \<Rightarrow> True) after)"

section \<open>Keys, storing and restoring\<close>

record PostinstallTask =
  pt_name :: string
  pt_version :: string
  pt_integrity :: string
  pt_script :: string
  pt_cwd :: string

definition read_node_version :: "(bool \<times> string) option \<Rightarrow> string" where
  "read_node_version out = (case out of Some (True, stdout) \<Rightarrow> trim stdout | _ \<Rightarrow> ''unknown'')"

definition postinstall_cas_key :: "(string \<Rightarrow> string) \<Rightarrow> string \<Rightarrow> (bool \<times> string) option \<Rightarrow> PostinstallTask \<Rightarrow> string" where
  "postinstall_cas_key hash platform node pt =
     hash (pt_integrity pt @ '':'' @ platform @ '':'' @ read_node_version node)"

definition SENTINEL :: string where
  "SENTINEL = ''{'' @ [CHR 34] @ ''empty'' @ [CHR 34] @ '':true}''"

definition store_manifest :: "PostinstallManifest codec \<Rightarrow> string \<Rightarrow> PostinstallManifest \<Rightarrow> LocalStore \<Rightarrow> bool io \<times> LocalStore" where
  "store_manifest c key delta s =
     (if delta = [] then (Ok False, s)
      else (case enc c delta of
          None \<Rightarrow> (Err, s)
        | Some json \<Rightarrow> (case put_bytes_keyed s key json of
              (Inl e, s') \<Rightarrow> (Err, s') | (Inr _, s') \<Rightarrow> (Ok True, s'))))"

definition store_empty_sentinel :: "string \<Rightarrow> LocalStore \<Rightarrow> bool \<times> LocalStore" where
  "store_empty_sentinel key s =
     (case put_bytes_keyed s key SENTINEL of (Inl e, s') \<Rightarrow> (False, s') | (Inr _, s') \<Rightarrow> (True, s'))"

definition restore_entry :: "string \<Rightarrow> ManifestEntry \<Rightarrow> LocalStore \<Rightarrow> unit io \<times> LocalStore" where
  "restore_entry dir e s =
     (let os = ls_os s; dest = path_join dir (me_path e) in
      if \<not> os_create os dest then (Err, s)
      else (let d = unlink_ignored os dest (ls_disk s) in
        case me_kind e of
          Regular \<Rightarrow>
            (let cas_path = content_path (ls_root s) (me_hash e) in
             case (case hard_link os cas_path dest d of Inr d' \<Rightarrow> Some d' | Inl _ \<Rightarrow> copy_file os cas_path dest d) of
               None \<Rightarrow> (Err, s\<lparr>ls_disk := d\<rparr>)
             | Some d' \<Rightarrow> (case chmod os dest (me_mode e) d' of
                   None \<Rightarrow> (Err, s\<lparr>ls_disk := d'\<rparr>)
                 | Some d'' \<Rightarrow> (Ok (), s\<lparr>ls_disk := d''\<rparr>)))
        | Symlink target \<Rightarrow> (case symlink os target dest d of
              None \<Rightarrow> (Err, s\<lparr>ls_disk := d\<rparr>) | Some d' \<Rightarrow> (Ok (), s\<lparr>ls_disk := d'\<rparr>))))"

fun restore_entries :: "string \<Rightarrow> ManifestEntry list \<Rightarrow> LocalStore \<Rightarrow> unit io \<times> LocalStore" where
  "restore_entries dir [] s = (Ok (), s)"
| "restore_entries dir (e # es) s =
    (case restore_entry dir e s of (Ok _, s') \<Rightarrow> restore_entries dir es s' | (Err, s') \<Rightarrow> (Err, s'))"

definition restore_manifest :: "PostinstallManifest codec \<Rightarrow> string \<Rightarrow> string \<Rightarrow> LocalStore \<Rightarrow> bool io \<times> LocalStore" where
  "restore_manifest c key dir s =
     (case get_bytes_by_raw_key s key of
        Err \<Rightarrow> (Err, s)
      | Ok None \<Rightarrow> (Ok False, s)
      | Ok (Some b) \<Rightarrow>
          if b = SENTINEL then (Ok True, s)
          else (case dec c b of
              None \<Rightarrow> (Err, s)
            | Some manifest \<Rightarrow> (case restore_entries dir manifest s of
                  (Err, s') \<Rightarrow> (Err, s') | (Ok _, s') \<Rightarrow> (Ok True, s'))))"

section \<open>The phase\<close>

datatype PostinstallEvent = Restored | Ran | Ran_no_output | Sentinel_error | Capture_error | Script_failed

record PostEnv =
  pe_walk :: "LocalStore \<Rightarrow> string \<Rightarrow> string list option"
  pe_codec :: "PostinstallManifest codec"
  pe_platform :: string
  pe_node :: "(bool \<times> string) option"
  pe_run :: "PostinstallTask \<Rightarrow> LocalStore \<Rightarrow> bool option \<times> LocalStore"

definition task_key :: "PostEnv \<Rightarrow> PostinstallTask \<Rightarrow> LocalStore \<Rightarrow> string" where
  "task_key E pt s = postinstall_cas_key (ls_hash s) (pe_platform E) (pe_node E) pt"

text \<open>A task that is not restored; \<^verbatim>\<open>None\<close> from pe_run is an error starting the script.\<close>

definition run_and_store :: "PostEnv \<Rightarrow> string \<Rightarrow> PostinstallTask \<Rightarrow> LocalStore \<Rightarrow> PostinstallEvent \<times> LocalStore" where
  "run_and_store E key pt s =
     (case capture_dir (pe_walk E) (pt_cwd pt) s of (before, s1) \<Rightarrow>
        (case pe_run E pt s1 of (exited, s2) \<Rightarrow>
           if exited = Some True then
             (case capture_dir (pe_walk E) (pt_cwd pt) s2 of (after, s3) \<Rightarrow>
                (case store_manifest (pe_codec E) key (diff_manifests before after) s3 of
                   (Ok True, s4) \<Rightarrow> (Ran, s4)
                 | (Ok False, s4) \<Rightarrow> (case store_empty_sentinel key s4 of
                       (True, s5) \<Rightarrow> (Ran_no_output, s5) | (False, s5) \<Rightarrow> (Sentinel_error, s5))
                 | (Err, s4) \<Rightarrow> (Capture_error, s4)))
           else (Script_failed, s2)))"

definition postinstall_step :: "PostEnv \<Rightarrow> PostinstallTask \<Rightarrow> LocalStore \<Rightarrow> PostinstallEvent \<times> LocalStore" where
  "postinstall_step E pt s =
     (let key = task_key E pt s in
      case restore_manifest (pe_codec E) key (pt_cwd pt) s of
        (Ok True, s') \<Rightarrow> (Restored, s')
      | (Ok False, s') \<Rightarrow> run_and_store E key pt s'
      | (Err, s') \<Rightarrow> run_and_store E key pt s')"

fun run_postinstall_phase :: "PostEnv \<Rightarrow> PostinstallTask list \<Rightarrow> LocalStore \<Rightarrow> PostinstallEvent list \<times> LocalStore" where
  "run_postinstall_phase E [] s = ([], s)"
| "run_postinstall_phase E (pt # pts) s =
    (case postinstall_step E pt s of (ev, s1) \<Rightarrow>
       (case run_postinstall_phase E pts s1 of (evs, s2) \<Rightarrow> (ev # evs, s2)))"

section \<open>Capturing\<close>

text \<open>What a path holds: bytes or the target of a symbolic link.\<close>

definition path_view :: "LocalStore \<Rightarrow> string \<Rightarrow> (string + string) option" where
  "path_view s p = (case names (ls_disk s) p of
      None \<Rightarrow> None | Some (Sym t) \<Rightarrow> Some (Inr t) | Some (Reg i) \<Rightarrow> Some (Inl (in_bytes (inodes (ls_disk s) i))))"

definition all_allowed :: "Os \<Rightarrow> bool" where
  "all_allowed os \<longleftrightarrow> (\<forall>p. os_create os p \<and> os_read os p \<and> os_unlink os p)"

lemma path_view_bytes: "path_view s p = Some (Inl b) \<longleftrightarrow> disk_file s p = Some b"
  by (auto simp: path_view_def disk_file_def reg_bytes_def reg_ino_def split: option.splits dentry.splits)

lemma put_keyed_facts:
  assumes "store_ok s" "length key = 32" "put_bytes_keyed s key b = (r, s')"
  shows "store_ok s'" "ls_root s' = ls_root s" "ls_hash s' = ls_hash s" "ls_os s' = ls_os s"
    "stored_item s' = (if r = Inr () \<and> stored_item s key = None then (stored_item s)(key \<mapsto> b) else stored_item s)"
    "store_outside s p \<Longrightarrow> names (ls_disk s') p = names (ls_disk s) p"
    "names (ls_disk s) p = Some (Reg i) \<Longrightarrow> inodes (ls_disk s') i = inodes (ls_disk s) i"
    "os_create (ls_os s) (content_path (ls_root s) key) \<Longrightarrow> r = Inr ()"
proof -
  note c = put_keyed_cases[OF assms(1,2), of b, unfolded assms(3)]
  note ren = put_renamed[OF assms(1,2), of "ls_os s" b]
  have cases: "s' = s \<and> (stored_item s key = None \<longrightarrow> r \<noteq> Inr ()) \<or>
      (\<exists>d. r = Inr () \<and> stored_item s key = None \<and> write_renamed (ls_os s) (content_path (ls_root s) key) b (ls_disk s) = Some d \<and>
        s' = s\<lparr>ls_disk := d\<rparr>)"
    using c by (auto split: option.splits)
  show "store_ok s'" "ls_root s' = ls_root s" "ls_hash s' = ls_hash s" "ls_os s' = ls_os s"
    using cases ren(1) assms(1) by auto
  show "stored_item s' = (if r = Inr () \<and> stored_item s key = None then (stored_item s)(key \<mapsto> b) else stored_item s)"
    using cases ren(2) by auto
  have ne: "store_outside s p \<Longrightarrow> content_path (ls_root s) key \<noteq> p" using assms(2) by (auto simp: store_outside_def)
  show "store_outside s p \<Longrightarrow> names (ls_disk s') p = names (ls_disk s) p"
    using cases ne by (auto simp: write_renamed_def disk_simps split: if_splits)
  show "names (ls_disk s) p = Some (Reg i) \<Longrightarrow> inodes (ls_disk s') i = inodes (ls_disk s) i"
    using cases wf_diskD[OF store_okD(1)[OF assms(1)], of p i] by (auto simp: write_renamed_def disk_simps split: if_splits)
  show "os_create (ls_os s) (content_path (ls_root s) key) \<Longrightarrow> r = Inr ()"
    using c by (auto simp: write_renamed_def split: option.splits)
qed

text \<open>The manifest entry of a path.\<close>

definition entry_of :: "LocalStore \<Rightarrow> string \<Rightarrow> string \<Rightarrow> ManifestEntry" where
  "entry_of s dir p = \<lparr>me_path = relative_to dir p,
     me_hash = (case path_view s p of Some (Inl b) \<Rightarrow> ls_hash s b | _ \<Rightarrow> zero_hash),
     me_mode = (case reg_mode (ls_disk s) p of Some m \<Rightarrow> m mod 512 | None \<Rightarrow> 0),
     me_kind = (case path_view s p of Some (Inr t) \<Rightarrow> Symlink t | _ \<Rightarrow> Regular)\<rparr>"

definition readable :: "LocalStore \<Rightarrow> string \<Rightarrow> string \<Rightarrow> bool" where
  "readable s dir p \<longleftrightarrow> store_outside s p \<and> names (ls_disk s) p \<noteq> None \<and> path_strip_prefix p dir \<noteq> None"

text \<open>What capturing does to the store: new items under the digests of the contents B, nothing else.\<close>

definition contents_ok :: "string set \<Rightarrow> LocalStore \<Rightarrow> bool" where
  "contents_ok B s \<longleftrightarrow> store_ok s \<and> all_allowed (ls_os s) \<and> inj_on (ls_hash s) B \<and>
     (\<forall>b\<in>B. stored_item s (ls_hash s b) \<in> {None, Some b})"

definition grown :: "string set \<Rightarrow> LocalStore \<Rightarrow> LocalStore \<Rightarrow> bool" where
  "grown B s s' \<longleftrightarrow> contents_ok B s' \<and> ls_root s' = ls_root s \<and> ls_hash s' = ls_hash s \<and> ls_os s' = ls_os s \<and>
    (\<forall>q. store_outside s q \<longrightarrow> path_view s' q = path_view s q \<and> reg_mode (ls_disk s') q = reg_mode (ls_disk s) q) \<and>
    (\<forall>h c. stored_item s h = Some c \<longrightarrow> stored_item s' h = Some c) \<and>
    (\<forall>h. stored_item s' h \<noteq> None \<longrightarrow> stored_item s h \<noteq> None \<or> h \<in> ls_hash s ` B)"

lemma grown_refl: "contents_ok B s \<Longrightarrow> grown B s s"
  by (simp add: grown_def)

lemma grown_outside: "grown B s s' \<Longrightarrow> store_outside s' = store_outside s"
  by (rule store_outside_root) (simp add: grown_def)

lemma grown_trans:
  assumes "grown B s s1" "grown B s1 s2"
  shows "grown B s s2"
proof -
  note a = assms(1)[unfolded grown_def] and b = assms(2)[unfolded grown_def, unfolded grown_outside[OF assms(1)]]
  have "stored_item s h \<noteq> None \<or> h \<in> ls_hash s ` B" if "stored_item s2 h \<noteq> None" for h
  proof -
    have "stored_item s1 h \<noteq> None \<or> h \<in> ls_hash s1 ` B" using b that by blast
    moreover have "ls_hash s1 = ls_hash s" using a by blast
    ultimately show ?thesis using a by metis
  qed
  moreover have "stored_item s2 h = Some c" if "stored_item s h = Some c" for h c using a b that by blast
  ultimately show ?thesis using a b unfolding grown_def by (intro conjI) (blast, simp_all)
qed

lemma entry_of_cong:
  "ls_hash s' = ls_hash s \<Longrightarrow> path_view s' p = path_view s p \<Longrightarrow> reg_mode (ls_disk s') p = reg_mode (ls_disk s) p \<Longrightarrow>
    entry_of s' dir p = entry_of s dir p"
  by (simp add: entry_of_def split: option.splits sum.splits)

lemma readable_view: "readable s dir p \<longleftrightarrow> store_outside s p \<and> path_view s p \<noteq> None \<and> path_strip_prefix p dir \<noteq> None"
  by (auto simp: readable_def path_view_def split: option.splits dentry.splits)

lemma capture_file_correct:
  assumes "contents_ok B s" "readable s dir p" "\<forall>b. path_view s p = Some (Inl b) \<longrightarrow> b \<in> B"
    and "capture_file dir p s = (e, s')"
  shows "e = Some (entry_of s dir p)" "grown B s s'"
    "\<forall>b. path_view s p = Some (Inl b) \<longrightarrow> stored_item s' (ls_hash s b) = Some b"
proof -
  note ok = assms(1)[unfolded contents_ok_def]
  have rel: "path_strip_prefix p dir = Some (relative_to dir p)"
    using assms(2) by (auto simp: readable_def relative_to_def)
  obtain x where x: "names (ls_disk s) p = Some x" using assms(2) by (auto simp: readable_def)
  have "e = Some (entry_of s dir p) \<and> grown B s s' \<and> (\<forall>b. path_view s p = Some (Inl b) \<longrightarrow> stored_item s' (ls_hash s b) = Some b)"
  proof (cases x)
    case (Sym t)
    then have "path_view s p = Some (Inr t)" "reg_mode (ls_disk s) p = None"
      using x by (simp_all add: path_view_def reg_mode_def reg_ino_def)
    then show ?thesis using assms(1,4) x rel Sym by (auto simp: capture_file_def entry_of_def intro: grown_refl)
  next
    case (Reg i)
    let ?b = "in_bytes (inodes (ls_disk s) i)"
    have v: "path_view s p = Some (Inl ?b)" "reg_mode (ls_disk s) p = Some (in_mode (inodes (ls_disk s) i))"
      using x Reg by (simp_all add: path_view_def reg_mode_def reg_ino_def)
    have rd: "read_local s p = Some ?b" using x Reg ok by (simp add: read_local_def read_at_def all_allowed_def)
    obtain r s1 where put: "put_bytes_keyed s (ls_hash s ?b) ?b = (r, s1)" by (cases "put_bytes_keyed s (ls_hash s ?b) ?b")
    have sok: "store_ok s" using ok by blast
    note f = put_keyed_facts[OF sok store_okD(2)[OF sok] put]
    have r: "r = Inr ()" using f(8) ok by (simp add: all_allowed_def)
    have bB: "?b \<in> B" using assms(3) v(1) by blast
    have st: "stored_item s1 = (stored_item s)(ls_hash s ?b \<mapsto> ?b)"
      using f(5) r ok bB by (auto simp: fun_eq_iff)
    have same: "ls_hash s b = ls_hash s ?b \<longleftrightarrow> b = ?b" if "b \<in> B" for b
      using ok bB that by (auto dest: inj_onD)
    have s': "s' = s1" and e: "e = Some (entry_of s dir p)"
      using assms(4) x Reg rel rd put r v f(7)[of p i] by (auto simp: capture_file_def entry_of_def split: prod.splits)
    have outs: "path_view s1 q = path_view s q \<and> reg_mode (ls_disk s1) q = reg_mode (ls_disk s) q" if "store_outside s q" for q
      using f(6)[OF that] f(7)[of q] by (auto simp: path_view_def reg_mode_def reg_ino_def split: option.splits dentry.splits)
    have "contents_ok B s1" using f(1-4) ok st same by (auto simp: contents_ok_def)
    then have "grown B s s1" unfolding grown_def using f(2-4) outs st bB ok by auto
    then show ?thesis using e s' st v(1) by auto
  qed
  then show "e = Some (entry_of s dir p)" "grown B s s'"
    "\<forall>b. path_view s p = Some (Inl b) \<longrightarrow> stored_item s' (ls_hash s b) = Some b" by simp_all
qed

lemma capture_files_correct:
  assumes "capture_files dir ps s = (es, s')" "contents_ok B s" "\<forall>p\<in>set ps. readable s dir p"
    and "\<forall>p\<in>set ps. \<forall>b. path_view s p = Some (Inl b) \<longrightarrow> b \<in> B"
  shows "es = map (entry_of s dir) ps \<and> grown B s s' \<and>
    (\<forall>p\<in>set ps. \<forall>b. path_view s p = Some (Inl b) \<longrightarrow> stored_item s' (ls_hash s b) = Some b)"
  using assms
proof (induction ps arbitrary: s es s')
  case (Cons p ps)
  obtain e s1 where one: "capture_file dir p s = (e, s1)" by (cases "capture_file dir p s")
  obtain es1 s2 where rest: "capture_files dir ps s1 = (es1, s2)" by (cases "capture_files dir ps s1")
  have c: "readable s dir p" "\<forall>b. path_view s p = Some (Inl b) \<longrightarrow> b \<in> B" using Cons.prems(3,4) by simp_all
  note f = capture_file_correct[OF Cons.prems(2) c one]
  note g = f(2)[unfolded grown_def]
  have same: "path_view s1 q = path_view s q" "entry_of s1 dir q = entry_of s dir q" if "q \<in> set ps" for q
  proof -
    have "store_outside s q" using Cons.prems(3) that by (simp add: readable_def)
    then show "path_view s1 q = path_view s q" "entry_of s1 dir q = entry_of s dir q"
      using g entry_of_cong[of s1 s q dir] by blast+
  qed
  have pre: "\<forall>p\<in>set ps. readable s1 dir p" "\<forall>p\<in>set ps. \<forall>b. path_view s1 p = Some (Inl b) \<longrightarrow> b \<in> B"
    using same(1) Cons.prems(3,4) grown_outside[OF f(2)] by (auto simp: readable_view)
  have c1: "contents_ok B s1" using g by blast
  note ih = Cons.IH[OF rest c1 pre]
  have h: "ls_hash s1 = ls_hash s" using g by blast
  have es: "es = map (entry_of s dir) (p # ps)" and s': "s' = s2"
    using Cons.prems(1) one rest f(1) ih same(2) by auto
  have g2: "grown B s1 s2" using ih by blast
  have all: "stored_item s2 (ls_hash s b) = Some b" if "q \<in> set (p # ps)" "path_view s q = Some (Inl b)" for q b
  proof (cases "q = p")
    case True
    then show ?thesis using f(3) that g2[unfolded grown_def] by blast
  next
    case False
    then have "q \<in> set ps" using that(1) by simp
    then show ?thesis using ih same(1)[OF \<open>q \<in> set ps\<close>] that(2) h by metis
  qed
  show ?case unfolding es s' using grown_trans[OF f(2) g2] all by blast
qed (auto intro: grown_refl)

section \<open>Differences\<close>

lemma diff_absent:
  assumes "e \<in> set after" "e \<notin> set (diff_manifests before after)"
  shows "\<exists>e'\<in>set before. me_path e' = me_path e \<and> me_hash e' = me_hash e \<and> me_mode e' = me_mode e \<and> me_kind e' = me_kind e"
proof -
  let ?m = "map_of (rev (map (\<lambda>e. (me_path e, (me_hash e, me_mode e, me_kind e))) before))"
  have "?m (me_path e) = Some (me_hash e, me_mode e, me_kind e)"
    using assms by (auto simp: diff_manifests_def split: option.splits)
  then have "(me_path e, me_hash e, me_mode e, me_kind e) \<in> set (map (\<lambda>e. (me_path e, (me_hash e, me_mode e, me_kind e))) before)"
    using map_of_SomeD[of "rev (map (\<lambda>e. (me_path e, (me_hash e, me_mode e, me_kind e))) before)"] by simp
  then obtain e' where "e' \<in> set before"
    "(me_path e, me_hash e, me_mode e, me_kind e) = (me_path e', me_hash e', me_mode e', me_kind e')" by auto
  then show ?thesis by (intro bexI[of _ e']) auto
qed

lemma diff_subset: "set (diff_manifests before after) \<subseteq> set after"
  by (auto simp: diff_manifests_def)

lemma diff_distinct: "distinct (map me_path after) \<Longrightarrow> distinct (map me_path (diff_manifests before after))"
  by (simp add: diff_manifests_def distinct_map_filter)

lemma diff_same:
  assumes "distinct (map me_path es)"
  shows "diff_manifests es es = []"
proof -
  let ?f = "\<lambda>e. (me_path e, (me_hash e, me_mode e, me_kind e))"
  have "distinct (map fst (rev (map ?f es)))" using assms by (simp add: rev_map[symmetric] comp_def)
  then have "map_of (rev (map ?f es)) (me_path e) = Some (me_hash e, me_mode e, me_kind e)" if "e \<in> set es" for e
    using that by (intro map_of_is_SomeI) auto
  then show ?thesis by (simp add: diff_manifests_def filter_empty_conv)
qed

section \<open>Restoring\<close>

definition entry_view :: "LocalStore \<Rightarrow> ManifestEntry \<Rightarrow> (string + string) option" where
  "entry_view s e = (case me_kind e of Regular \<Rightarrow> map_option Inl (stored_item s (me_hash e)) | Symlink t \<Rightarrow> Some (Inr t))"

definition same_store :: "LocalStore \<Rightarrow> LocalStore \<Rightarrow> bool" where
  "same_store s s' \<longleftrightarrow> store_ok s' \<and> ls_root s' = ls_root s \<and> ls_hash s' = ls_hash s \<and> ls_os s' = ls_os s \<and>
     stored_item s' = stored_item s"

lemma same_store_contents: "same_store s s' \<Longrightarrow> contents_ok B s \<Longrightarrow> contents_ok B s'"
  by (simp add: same_store_def contents_ok_def)

lemma path_view_frame:
  "names d q = names (ls_disk s) q \<Longrightarrow> (\<And>i. in_bytes (inodes d i) = in_bytes (inodes (ls_disk s) i)) \<Longrightarrow>
    path_view (s\<lparr>ls_disk := d\<rparr>) q = path_view s q"
  by (simp add: path_view_def split: option.splits dentry.splits)

lemma stored_item_view: "stored_item s h = (if length h = 32 then
    (case path_view s (content_path (ls_root s) h) of Some (Inl b) \<Rightarrow> Some b | _ \<Rightarrow> None) else None)"
  by (auto simp: stored_item_def reg_bytes_def reg_ino_def path_view_def split: option.splits dentry.splits)

lemma restored_store:
  assumes "store_ok s" "store_outside s dest" "wf_disk d"
    and "\<And>q. q \<noteq> dest \<Longrightarrow> names d q = names (ls_disk s) q \<and> path_view (s\<lparr>ls_disk := d\<rparr>) q = path_view s q"
  shows "same_store s (s\<lparr>ls_disk := d\<rparr>)"
proof -
  note ne = outside_ne[OF assms(2)]
  have "store_ok (s\<lparr>ls_disk := d\<rparr>)" using assms ne by (intro store_ok_update) auto
  moreover have "stored_item (s\<lparr>ls_disk := d\<rparr>) h = stored_item s h" for h
    using assms(4)[OF ne, of "content_path (ls_root s) h"] by (simp add: stored_item_view)
  ultimately show ?thesis by (simp add: same_store_def fun_eq_iff)
qed

lemma restore_entry_facts:
  assumes "store_ok s" "all_allowed (ls_os s)" "store_outside s (path_join dir (me_path e))"
    and "me_kind e = Regular \<longrightarrow> length (me_hash e) = 32" "restore_entry dir e s = (Ok u, s')"
  shows "same_store s s'" "path_view s' (path_join dir (me_path e)) = entry_view s e"
    "q \<noteq> path_join dir (me_path e) \<Longrightarrow> path_view s' q = path_view s q"
proof -
  let ?p = "path_join dir (me_path e)" and ?d = "unlink (path_join dir (me_path e)) (ls_disk s)"
  note wf = store_okD(1)[OF assms(1)]
  have off: "unlink_ignored (ls_os s) ?p (ls_disk s) = ?d" using assms(2) by (simp add: unlink_ignored_def all_allowed_def)
  have ex: "\<exists>d. s' = s\<lparr>ls_disk := d\<rparr> \<and> wf_disk d \<and> (\<forall>q. q \<noteq> ?p \<longrightarrow> names d q = names (ls_disk s) q \<and>
      path_view (s\<lparr>ls_disk := d\<rparr>) q = path_view s q) \<and> path_view (s\<lparr>ls_disk := d\<rparr>) ?p = entry_view s e"
  proof (cases "me_kind e")
    case (Symlink t)
    then have "s' = s\<lparr>ls_disk := ?d\<lparr>names := (names ?d)(?p \<mapsto> Sym t)\<rparr>\<rparr>"
      using assms(2,5) off by (auto simp: restore_entry_def symlink_def all_allowed_def Let_def disk_simps)
    then show ?thesis using Symlink wf
      by (intro exI[of _ "?d\<lparr>names := (names ?d)(?p \<mapsto> Sym t)\<rparr>"])
        (auto simp: disk_simps wf_disk_def entry_view_def path_view_def split: option.splits dentry.splits if_splits)
  next
    case Regular
    let ?src = "content_path (ls_root s) (me_hash e)"
    have h: "length (me_hash e) = 32" using assms(4) Regular by simp
    have ne: "?src \<noteq> ?p" using outside_ne[OF assms(3)] h by simp
    obtain d1 where d1: "(case hard_link (ls_os s) ?src ?p ?d of Inr d' \<Rightarrow> Some d' | Inl _ \<Rightarrow> copy_file (ls_os s) ?src ?p ?d) = Some d1"
      and ch: "\<exists>d2. chmod (ls_os s) ?p (me_mode e) d1 = Some d2 \<and> s' = s\<lparr>ls_disk := d2\<rparr>"
      using assms(2,5) off Regular by (auto simp: restore_entry_def all_allowed_def Let_def split: option.splits)
    obtain i where i: "names (ls_disk s) ?src = Some (Reg i)"
    proof (cases "names (ls_disk s) ?src")
      case None
      then show ?thesis using d1 ne by (simp add: hard_link_def copy_file_def disk_simps)
    next
      case (Some x)
      then show ?thesis using store_okD(3)[OF assms(1) h] that by (cases x) auto
    qed
    have d1': "wf_disk d1 \<and> (\<forall>q. q \<noteq> ?p \<longrightarrow> names d1 q = names (ls_disk s) q \<and> path_view (s\<lparr>ls_disk := d1\<rparr>) q = path_view s q) \<and>
        path_view (s\<lparr>ls_disk := d1\<rparr>) ?p = Some (Inl (in_bytes (inodes (ls_disk s) i)))"
    proof (cases "hard_link (ls_os s) ?src ?p ?d")
      case (Inr d')
      then have "d' = d1" using d1 by simp
      note hl = hard_link_ok[OF Inr[unfolded this]] hard_link_wf[OF _ Inr[unfolded this]]
      then show ?thesis using i ne wf by (auto simp: disk_simps path_view_def split: option.splits dentry.splits)
    next
      case (Inl err)
      then have "d1 = new_file ?p (in_bytes (inodes ?d i)) (in_mode (inodes ?d i)) ?d"
        using d1 i ne copy_new[of "ls_os s" ?src ?p ?d d1 i] by (simp add: disk_simps)
      moreover have "fresh ?d = fresh (ls_disk s)" by (simp add: unlink_def)
      ultimately show ?thesis using wf
        by (auto simp: disk_simps path_view_def dest: wf_diskD split: option.splits dentry.splits)
    qed
    obtain d2 j where d2: "d2 = set_mode j (me_mode e) d1" "s' = s\<lparr>ls_disk := d2\<rparr>"
      using ch by (auto simp: chmod_def split: option.splits if_splits)
    have same: "path_view (s\<lparr>ls_disk := d2\<rparr>) q = path_view (s\<lparr>ls_disk := d1\<rparr>) q" for q
      unfolding d2 by (simp add: path_view_def set_mode_def split: option.splits dentry.splits)
    have "entry_view s e = Some (Inl (in_bytes (inodes (ls_disk s) i)))"
      using Regular i h by (simp add: entry_view_def stored_item_def reg_bytes_def reg_ino_def)
    then show ?thesis using d1' d2 same by (auto simp: disk_simps)
  qed
  then obtain d where d: "s' = s\<lparr>ls_disk := d\<rparr>" "wf_disk d"
    "\<forall>q. q \<noteq> ?p \<longrightarrow> names d q = names (ls_disk s) q \<and> path_view (s\<lparr>ls_disk := d\<rparr>) q = path_view s q"
    "path_view (s\<lparr>ls_disk := d\<rparr>) ?p = entry_view s e" by blast
  show "same_store s s'" unfolding d(1) by (rule restored_store[OF assms(1,3) d(2)]) (use d(3) in blast)
  show "path_view s' ?p = entry_view s e" using d by simp
  show "q \<noteq> ?p \<Longrightarrow> path_view s' q = path_view s q" using d by simp
qed

lemma restore_entries_facts:
  assumes "restore_entries dir es s = (Ok u, s')" "store_ok s" "all_allowed (ls_os s)"
    and "\<forall>e\<in>set es. store_outside s (path_join dir (me_path e)) \<and> (me_kind e = Regular \<longrightarrow> length (me_hash e) = 32)"
    and "distinct (map (\<lambda>e. path_join dir (me_path e)) es)"
  shows "same_store s s' \<and> (\<forall>e\<in>set es. path_view s' (path_join dir (me_path e)) = entry_view s e) \<and>
    (\<forall>q. q \<notin> (\<lambda>e. path_join dir (me_path e)) ` set es \<longrightarrow> path_view s' q = path_view s q)"
  using assms
proof (induction es arbitrary: s)
  case (Cons e es)
  obtain v s1 where one: "restore_entry dir e s = (Ok v, s1)" and rest: "restore_entries dir es s1 = (Ok u, s')"
    using Cons.prems(1) by (auto split: prod.splits io.splits)
  have e: "store_outside s (path_join dir (me_path e))" "me_kind e = Regular \<longrightarrow> length (me_hash e) = 32"
    using Cons.prems(4) by simp_all
  note f = restore_entry_facts[OF Cons.prems(2,3) e one]
  note g = f(1)[unfolded same_store_def]
  have out: "store_outside s1 = store_outside s" using g store_outside_root by blast
  have "store_ok s1" "all_allowed (ls_os s1)" using g Cons.prems(3) by simp_all
  moreover have "\<forall>e\<in>set es. store_outside s1 (path_join dir (me_path e)) \<and> (me_kind e = Regular \<longrightarrow> length (me_hash e) = 32)"
    unfolding out using Cons.prems(4) by simp
  ultimately have ih: "same_store s1 s' \<and> (\<forall>e\<in>set es. path_view s' (path_join dir (me_path e)) = entry_view s1 e) \<and>
      (\<forall>q. q \<notin> (\<lambda>e. path_join dir (me_path e)) ` set es \<longrightarrow> path_view s' q = path_view s1 q)"
    using Cons.IH[OF rest] Cons.prems(5) by simp
  have ev: "entry_view s1 x = entry_view s x" for x using g by (simp add: entry_view_def split: FileKind.splits)
  have "same_store s s'" using ih g by (simp add: same_store_def)
  moreover have "path_view s' (path_join dir (me_path e)) = entry_view s e"
    using ih f(2) Cons.prems(5) by simp
  ultimately show ?case using ih f(3) ev by auto
qed (simp add: same_store_def)

section \<open>Replay\<close>

lemma join_rel_text:
  assumes "list_all good_name ns" "ns \<noteq> []"
  shows "path_join dir (rel_text ns) = below dir ns"
  using assms
proof (induction ns arbitrary: dir)
  case (Cons n ns)
  show ?case
  proof (cases "ns = []")
    case False
    then obtain m ms where ns: "ns = m # ms" by (cases ns) auto
    have n: "n \<noteq> []" "slash \<notin> set n" using Cons.prems by (simp_all add: good_name_def)
    have ends: "path_join dir n \<noteq> [] \<and> last (path_join dir n) \<noteq> slash"
      using n last_not_slash[of n] by (auto simp: path_join_def not_absolute)
    have rel: "\<not> is_absolute (rel_text ns)" using Cons.prems False by (intro rel_text_relative) auto
    have "rel_text (n # ns) = n @ slash # rel_text ns" by (simp add: rel_text_def ns)
    moreover have "path_join dir (n @ slash # rel_text ns) = path_join dir n @ slash # rel_text ns"
      using n by (simp add: path_join_def not_absolute not_absolute_append)
    moreover have "path_join (path_join dir n) (rel_text ns) = path_join dir n @ slash # rel_text ns"
      using ends rel by (simp add: path_join_def[of "path_join dir n"])
    ultimately show ?thesis using Cons.IH[of "path_join dir n"] Cons.prems False by simp
  qed (simp add: rel_text_def)
qed simp

text \<open>A directory as the walk shows it: distinct files and links, outside the store, with contents in B.\<close>

definition walked :: "PostEnv \<Rightarrow> string \<Rightarrow> string list list \<Rightarrow> string set \<Rightarrow> LocalStore \<Rightarrow> bool" where
  "walked E dir nss B s \<longleftrightarrow> contents_ok B s \<and> pe_walk E s dir = Some (map (below dir) nss) \<and> distinct nss \<and>
     list_all (\<lambda>ns. ns \<noteq> [] \<and> list_all good_name ns) nss \<and>
     list_all (\<lambda>ns. store_outside s (below dir ns) \<and> path_view s (below dir ns) \<in> Some ` (Inl ` B \<union> range Inr)) nss"

lemma walkedD:
  assumes "walked E dir nss B s" "ns \<in> set nss"
  shows "list_all good_name ns" "ns \<noteq> []" "store_outside s (below dir ns)" "path_view s (below dir ns) \<in> Some ` (Inl ` B \<union> range Inr)"
    "relative_to dir (below dir ns) = rel_text ns" "path_join dir (rel_text ns) = below dir ns"
  using assms strip_below[of ns dir] join_rel_text[of ns dir] by (auto simp: walked_def list_all_iff relative_to_def)

lemma walked_capture:
  assumes "walked E dir nss B s" "capture_dir (pe_walk E) dir s = (es, s')"
  shows "es = map (\<lambda>ns. entry_of s dir (below dir ns)) nss \<and> grown B s s' \<and>
    (\<forall>ns\<in>set nss. \<forall>b. path_view s (below dir ns) = Some (Inl b) \<longrightarrow> stored_item s' (ls_hash s b) = Some b)"
proof -
  have c: "capture_files dir (map (below dir) nss) s = (es, s')" using assms by (simp add: walked_def capture_dir_def)
  have r: "\<forall>p\<in>set (map (below dir) nss). readable s dir p"
    using walkedD[OF assms(1)] strip_below by (fastforce simp: readable_view)
  have b: "\<forall>p\<in>set (map (below dir) nss). \<forall>b. path_view s p = Some (Inl b) \<longrightarrow> b \<in> B"
    using walkedD(4)[OF assms(1)] by fastforce
  have "contents_ok B s" using assms(1) by (simp add: walked_def)
  from capture_files_correct[OF c this r b] show ?thesis by (simp add: comp_def)
qed

lemma below_inj:
  assumes "list_all good_name ms" "list_all good_name ns" "below dir ms = below dir ns"
  shows "ms = ns"
proof -
  have "path_components dir @ ms = path_components dir @ ns" using assms components_below by metis
  then show ?thesis by simp
qed

lemma entry_view_of:
  assumes "path_view s p \<in> Some ` (Inl ` B \<union> range Inr)" "\<And>b. path_view s p = Some (Inl b) \<Longrightarrow> stored_item t (ls_hash s b) = Some b"
  shows "entry_view t (entry_of s dir p) = path_view s p"
  using assms by (auto simp: entry_view_def entry_of_def)

lemma entry_of_view_inj:
  assumes "inj_on (ls_hash s) B" "ls_hash s' = ls_hash s"
    and "path_view s p \<in> Some ` (Inl ` B \<union> range Inr)" "path_view s' p \<in> Some ` (Inl ` B \<union> range Inr)"
    and "me_hash (entry_of s dir p) = me_hash (entry_of s' dir p)" "me_kind (entry_of s dir p) = me_kind (entry_of s' dir p)"
  shows "path_view s p = path_view s' p"
  using assms by (auto simp: entry_of_def dest: inj_onD)

lemma item_read:
  assumes "store_ok t" "all_allowed (ls_os t)" "length key = 32" "stored_item t key = Some b"
  shows "get_bytes_by_raw_key t key = Ok (Some b)"
proof -
  have f: "path_is_file (ls_os t) (ls_disk t) (content_path (ls_root t) key)" using item_file[OF assms(1,3)] assms(4) by simp
  have "disk_file t (content_path (ls_root t) key) = Some b" using assms(3,4) by (simp add: stored_item_def disk_file_def)
  then have "read_at (ls_os t) (ls_disk t) (content_path (ls_root t) key) = Some b"
    using read_local_file[of t] assms(2) by (simp add: read_local_def all_allowed_def)
  then show ?thesis using f by (simp add: get_bytes_by_raw_key_def Let_def)
qed

text \<open>A successful run leaves the manifest under the key and the contents under their digests.\<close>

lemma ran_stored:
  assumes "walked E (pt_cwd pt) ns1 B s" "capture_dir (pe_walk E) (pt_cwd pt) s = (before, s1)"
    and "pe_run E pt s1 = (Some True, s2)" "walked E (pt_cwd pt) ns2 B s2"
    and "ls_hash s2 = ls_hash s1" "ls_root s2 = ls_root s1" "stored_item s2 = stored_item s1"
    and "length key = 32" "stored_item s key = None" "key \<notin> ls_hash s ` B"
    and "run_and_store E key pt s = (Ran, s4)"
  obtains after json where "before = map (\<lambda>ns. entry_of s (pt_cwd pt) (below (pt_cwd pt) ns)) ns1"
    "after = map (\<lambda>ns. entry_of s2 (pt_cwd pt) (below (pt_cwd pt) ns)) ns2"
    "enc (pe_codec E) (diff_manifests before after) = Some json" "stored_item s4 key = Some json"
    "\<forall>ns\<in>set ns2. \<forall>b. path_view s2 (below (pt_cwd pt) ns) = Some (Inl b) \<longrightarrow> stored_item s4 (ls_hash s2 b) = Some b"
    "ls_hash s2 = ls_hash s" "ls_root s2 = ls_root s" "ls_root s4 = ls_root s"
proof -
  let ?dir = "pt_cwd pt"
  obtain after s3 where cap2: "capture_dir (pe_walk E) ?dir s2 = (after, s3)" by (cases "capture_dir (pe_walk E) ?dir s2")
  note c1 = walked_capture[OF assms(1,2)] and c2 = walked_capture[OF assms(4) cap2]
  note g1 = c1[THEN conjunct2, THEN conjunct1, unfolded grown_def] and g2 = c2[THEN conjunct2, THEN conjunct1, unfolded grown_def]
  have "store_manifest (pe_codec E) key (diff_manifests before after) s3 = (Ok True, s4)"
    using assms(11,2,3) cap2 by (auto simp: run_and_store_def split: prod.splits io.splits bool.splits if_splits)
  then obtain json where json: "enc (pe_codec E) (diff_manifests before after) = Some json"
    and put: "put_bytes_keyed s3 key json = (Inr (), s4)"
    by (auto simp: store_manifest_def split: if_splits option.splits prod.splits sum.splits)
  have ok3: "store_ok s3" using g2 by (simp add: contents_ok_def)
  have h: "ls_hash s2 = ls_hash s" "ls_root s2 = ls_root s" "ls_root s3 = ls_root s" using g1 g2 assms(5,6) by simp_all
  have "stored_item s2 key = None" using g1 assms(7,9,10) by metis
  then have none: "stored_item s3 key = None" using g2 assms(10) h(1) by metis
  note pk = put_keyed_facts[OF ok3 assms(8) put]
  have items: "stored_item s4 = (stored_item s3)(key \<mapsto> json)" using pk(5) none by simp
  have kept: "stored_item s4 (ls_hash s2 b) = Some b" if "ns \<in> set ns2" "path_view s2 (below ?dir ns) = Some (Inl b)" for ns b
  proof -
    have "stored_item s3 (ls_hash s2 b) = Some b" using c2 that by blast
    then show ?thesis using none items by auto
  qed
  show ?thesis
    by (rule that[of after json]) (use c1 c2 json items kept h pk(2) in auto)
qed

text \<open>Restoring the differences between what two walks saw.\<close>

lemma restore_differences:
  assumes w1: "walked E dir ns1 B s" and w2: "walked E dir ns2 B s2" and h: "ls_hash s2 = ls_hash s" "ls_root s2 = ls_root s"
    and delta: "delta = diff_manifests (map (\<lambda>ns. entry_of s dir (below dir ns)) ns1) (map (\<lambda>ns. entry_of s2 dir (below dir ns)) ns2)"
    and t: "store_ok t" "all_allowed (ls_os t)" "ls_root t = ls_root s"
    and kept: "\<forall>ns\<in>set ns2. \<forall>b. path_view s2 (below dir ns) = Some (Inl b) \<longrightarrow> stored_item t (ls_hash s2 b) = Some b"
    and run: "restore_entries dir delta t = (Ok u, t')"
  shows "(\<forall>ns\<in>set ns2. path_view t (below dir ns) = path_view s (below dir ns) \<longrightarrow>
        path_view t' (below dir ns) = path_view s2 (below dir ns)) \<and>
    (\<forall>q. (\<forall>ns\<in>set ns2. q \<noteq> below dir ns) \<longrightarrow> path_view t' q = path_view t q)"
proof -
  let ?e = "\<lambda>ns. entry_of s2 dir (below dir ns)" and ?p = "\<lambda>e. path_join dir (me_path e)"
  have out: "store_outside t = store_outside s2" using t(3) h(2) by (intro store_outside_root) simp
  have path: "?p (?e ns) = below dir ns" if "ns \<in> set ns2" for ns using walkedD[OF w2 that] by (simp add: entry_of_def)
  have sub: "\<exists>ns\<in>set ns2. e = ?e ns" if "e \<in> set delta" for e using diff_subset that delta by fastforce
  have inj: "inj_on (below dir) (set ns2)" using below_inj walkedD(1)[OF w2] by (blast intro: inj_onI)
  have "map (\<lambda>ns. ?p (?e ns)) ns2 = map (below dir) ns2" using path by simp
  then have "distinct (map (\<lambda>ns. ?p (?e ns)) ns2)" using inj w2 by (simp only: distinct_map walked_def)
  then have dist: "distinct (map ?p delta)" by (simp add: delta diff_manifests_def distinct_map_filter comp_def)
  have "length (me_hash (?e ns)) = 32" for ns
    using store_okD(2)[of s2] w2 by (auto simp: entry_of_def zero_hash_def walked_def contents_ok_def split: option.splits sum.splits)
  then have dests: "\<forall>e\<in>set delta. store_outside t (?p e) \<and> (me_kind e = Regular \<longrightarrow> length (me_hash e) = 32)"
    using sub path out walkedD(3)[OF w2] by fastforce
  note r = restore_entries_facts[OF run t(1,2) dests dist]
  have in_delta: "below dir ns \<in> ?p ` set delta \<longleftrightarrow> ?e ns \<in> set delta" if "ns \<in> set ns2" for ns
  proof
    assume "below dir ns \<in> ?p ` set delta"
    then obtain e where e: "e \<in> set delta" "below dir ns = ?p e" by blast
    then obtain ks where "ks \<in> set ns2" "e = ?e ks" using sub by blast
    then show "?e ns \<in> set delta" using e path inj that by (auto dest: inj_onD)
  qed (use path[OF that] in force)
  have "path_view t' (below dir ns) = path_view s2 (below dir ns)"
    if ns: "ns \<in> set ns2" and same: "path_view t (below dir ns) = path_view s (below dir ns)" for ns
  proof (cases "?e ns \<in> set delta")
    case True
    then have "path_view t' (below dir ns) = entry_view t (?e ns)" using r path[OF ns] by metis
    also have "\<dots> = path_view s2 (below dir ns)"
      by (rule entry_view_of[OF walkedD(4)[OF w2 ns]]) (use kept ns in blast)
    finally show ?thesis .
  next
    case False
    have "?e ns \<in> set (map ?e ns2)" using ns by simp
    from diff_absent[OF this False[unfolded delta]] obtain ms where ms: "ms \<in> set ns1"
      "me_path (entry_of s dir (below dir ms)) = me_path (?e ns)"
      "me_hash (entry_of s dir (below dir ms)) = me_hash (?e ns)" "me_kind (entry_of s dir (below dir ms)) = me_kind (?e ns)"
      by auto
    have "rel_text ms = rel_text ns" using ms(2) walkedD(5)[OF w1 ms(1)] walkedD(5)[OF w2 ns] by (simp add: entry_of_def)
    then have eq: "ms = ns" by (rule rel_text_inj[OF walkedD(1)[OF w1 ms(1)] walkedD(1)[OF w2 ns] walkedD(2)[OF w1 ms(1)] walkedD(2)[OF w2 ns]])
    have "inj_on (ls_hash s) B" using w1 by (simp add: walked_def contents_ok_def)
    from entry_of_view_inj[OF this h(1) walkedD(4)[OF w1 ms(1), unfolded eq] walkedD(4)[OF w2 ns] ms(3,4)[unfolded eq]]
    show ?thesis using r in_delta[OF ns] False same by simp
  qed
  moreover have "path_view t' q = path_view t q" if "\<forall>ns\<in>set ns2. q \<noteq> below dir ns" for q
    using r that sub path by (metis (no_types, lifting) imageE)
  ultimately show ?thesis by blast
qed


text \<open>A script that succeeds without changing its package, because the package manager has run it before, leaves
  the mark for "no output" under its key; from then on it is skipped wherever the key is the same, whatever the
  package directory holds.\<close>

theorem noop_run_skips_forever:
  assumes "walked E (pt_cwd pt) ns1 B s" "capture_dir (pe_walk E) (pt_cwd pt) s = (before, s1)"
    and "pe_run E pt s1 = (Some True, s2)" "walked E (pt_cwd pt) ns1 B s2"
    and "ls_hash s2 = ls_hash s1" "ls_root s2 = ls_root s1" "stored_item s2 = stored_item s1"
    and "\<forall>ns\<in>set ns1. entry_of s2 (pt_cwd pt) (below (pt_cwd pt) ns) = entry_of s (pt_cwd pt) (below (pt_cwd pt) ns)"
    and "task_key E pt s \<notin> ls_hash s ` B" "stored_item s (task_key E pt s) = None"
    and "run_and_store E (task_key E pt s) pt s = (event, s4)"
    and "store_ok t" "all_allowed (ls_os t)" "ls_hash t = ls_hash s" "\<forall>h c. stored_item s4 h = Some c \<longrightarrow> stored_item t h = Some c"
  shows "event = Ran_no_output \<and> postinstall_step E pt t = (Restored, t)"
proof -
  let ?dir = "pt_cwd pt" and ?key = "task_key E pt s"
  obtain after s3 where cap2: "capture_dir (pe_walk E) ?dir s2 = (after, s3)" by (cases "capture_dir (pe_walk E) ?dir s2")
  note c1 = walked_capture[OF assms(1,2)] and c2 = walked_capture[OF assms(4) cap2]
  note g1 = c1[THEN conjunct2, THEN conjunct1, unfolded grown_def] and g2 = c2[THEN conjunct2, THEN conjunct1, unfolded grown_def]
  have key: "length ?key = 32"
    using store_okD(2)[of s] assms(1) by (simp add: task_key_def postinstall_cas_key_def walked_def contents_ok_def)
  have h: "ls_hash s2 = ls_hash s" using g1 assms(5) by simp
  have "stored_item s2 ?key = None" using g1 assms(7,9,10) by metis
  then have none: "stored_item s3 ?key = None" using g2 assms(9) h by metis
  have "after = before" using c1 c2 assms(8) by simp
  moreover have "distinct (map me_path before)"
  proof -
    have "map me_path before = map rel_text ns1" using c1 walkedD(5)[OF assms(1)] by (simp add: entry_of_def)
    moreover have "inj_on rel_text (set ns1)" using rel_text_inj walkedD(1,2)[OF assms(1)] by (blast intro: inj_onI)
    ultimately show ?thesis using assms(1) by (simp add: distinct_map walked_def)
  qed
  ultimately have "diff_manifests before after = []" by (simp add: diff_same)
  then have ev: "(event, s4) = (case store_empty_sentinel ?key s3 of (True, s5) \<Rightarrow> (Ran_no_output, s5) | (False, s5) \<Rightarrow> (Sentinel_error, s5))"
    using assms(11,2,3) cap2 by (simp add: run_and_store_def store_manifest_def)
  obtain r s5 where put: "put_bytes_keyed s3 ?key SENTINEL = (r, s5)" by (cases "put_bytes_keyed s3 ?key SENTINEL")
  have ok3: "store_ok s3" "all_allowed (ls_os s3)" using g2 unfolding contents_ok_def by blast+
  note pk = put_keyed_facts[OF ok3(1) key put]
  have r: "r = Inr ()" using pk(8) ok3(2) by (simp add: all_allowed_def)
  then have "event = Ran_no_output" "s4 = s5" using ev put by (simp_all add: store_empty_sentinel_def)
  moreover have "stored_item t ?key = Some SENTINEL" using pk(5) r none assms(15) \<open>s4 = s5\<close> by simp
  then have "restore_manifest (pe_codec E) ?key ?dir t = (Ok True, t)"
    using item_read[OF assms(12,13) key] by (simp add: restore_manifest_def)
  moreover have "task_key E pt t = ?key" using assms(14) by (simp add: task_key_def)
  ultimately show ?thesis by (simp add: postinstall_step_def)
qed

lemma run_and_store_ok:
  assumes "capture_dir (pe_walk E) (pt_cwd pt) s = (before, s1)" "pe_run E pt s1 = (Some True, s2)"
    and "walked E (pt_cwd pt) ns2 B s2" "length key = 32" "run_and_store E key pt s = (event, s4)"
  shows "store_ok s4 \<and> ls_root s4 = ls_root s2 \<and> ls_hash s4 = ls_hash s2 \<and> ls_os s4 = ls_os s2"
proof -
  obtain after s3 where cap2: "capture_dir (pe_walk E) (pt_cwd pt) s2 = (after, s3)" by (cases "capture_dir (pe_walk E) (pt_cwd pt) s2")
  note g2 = walked_capture[OF assms(3) cap2, THEN conjunct2, THEN conjunct1, unfolded grown_def]
  have ok3: "store_ok s3" using g2 unfolding contents_ok_def by blast
  have "s4 = s3 \<or> (\<exists>r b. put_bytes_keyed s3 key b = (r, s4))"
    using assms(1,2,5) cap2
    by (auto simp: run_and_store_def store_manifest_def store_empty_sentinel_def
        split: prod.splits if_splits option.splits sum.splits io.splits bool.splits)
  then show ?thesis
  proof
    assume "\<exists>r b. put_bytes_keyed s3 key b = (r, s4)"
    then obtain r b where "put_bytes_keyed s3 key b = (r, s4)" by blast
    note pk = put_keyed_facts(1-4)[OF ok3 assms(4) this]
    show ?thesis using pk g2 by simp
  qed (use g2 ok3 in simp)
qed

text \<open>Examples: a package with one file, a script that writes a second one and a script that writes nothing.\<close>

definition ex_pt :: PostinstallTask where
  "ex_pt = \<lparr>pt_name = ''n'', pt_version = ''1'', pt_integrity = ''sha'', pt_script = ''node i'', pt_cwd = ''/w/n''\<rparr>"

definition ex_before :: LocalStore where
  "ex_before = \<lparr>ls_root = ''/c'', ls_hash = ex_hash, ls_os = ex_os, ls_disk = \<lparr>names = [''/w/n/in'' \<mapsto> Reg 0],
     inodes = (\<lambda>i. \<lparr>in_bytes = ''a'', in_mode = 420\<rparr>), fresh = 1\<rparr>\<rparr>"

definition ex_delta :: PostinstallManifest where
  "ex_delta = [\<lparr>me_path = ''out'', me_hash = ex_hash ''b'', me_mode = 420, me_kind = Regular\<rparr>]"

definition ex_script :: "PostinstallTask \<Rightarrow> LocalStore \<Rightarrow> bool option \<times> LocalStore" where
  "ex_script pt s = (Some True, s\<lparr>ls_disk := new_file ''/w/n/out'' ''b'' 420 (ls_disk s)\<rparr>)"

definition ex_env :: "(PostinstallTask \<Rightarrow> LocalStore \<Rightarrow> bool option \<times> LocalStore) \<Rightarrow> PostEnv" where
  "ex_env run = \<lparr>pe_walk = (\<lambda>s dir. Some (if Option.is_none (names (ls_disk s) ''/w/n/out'') then [''/w/n/in''] else [''/w/n/in'', ''/w/n/out''])),
     pe_codec = \<lparr>enc = (\<lambda>m. if m = ex_delta then Some ''M'' else None), dec = (\<lambda>t. Some ex_delta)\<rparr>,
     pe_platform = ''linux-x86_64'', pe_node = Some (True, ''v18''), pe_run = run\<rparr>"

lemma ex_before_outside: "ls_root s = ''/c'' \<Longrightarrow> \<not> prefix ''/c/content'' p \<Longrightarrow> store_outside s p"
  by (rule outside_other_root) (simp add: path_join_def is_absolute_def)

lemma ex_os_allowed: "all_allowed ex_os"
  by (simp add: all_allowed_def ex_os_def)

lemma ex_below: "below ''/w/n'' [''in''] = ''/w/n/in''" "below ''/w/n'' [''out''] = ''/w/n/out''"
  by code_simp+

lemma ex_before_ok: "contents_ok {''a'', ''b''} ex_before"
proof -
  have "ex_hash ''a'' \<noteq> ex_hash ''b''" by code_simp
  moreover have "stored_item ex_before (ex_hash ''a'') = None" "stored_item ex_before (ex_hash ''b'') = None" by code_simp+
  moreover have "store_ok ex_before"
    by (simp add: store_ok_def ex_before_def wf_disk_def ex_hash_def min_def)
  ultimately show ?thesis by (simp add: contents_ok_def all_allowed_def ex_before_def ex_os_def)
qed

lemma ex_walked: "walked (ex_env run) ''/w/n'' [[''in'']] {''a'', ''b''} ex_before"
proof -
  have v: "path_view ex_before ''/w/n/in'' = Some (Inl ''a'')" by code_simp
  have n: "names (ls_disk ex_before) ''/w/n/out'' = None" by code_simp
  show ?thesis using ex_before_ok ex_before_outside[of ex_before "''/w/n/in''"]
    by (simp del: below_simps add: walked_def ex_env_def n ex_below v good_name_def) (simp add: ex_before_def)
qed

lemma grown_walked:
  assumes "grown B s s'" "walked E dir nss B s" "pe_walk E s' dir = pe_walk E s dir"
  shows "walked E dir nss B s'"
  using assms grown_outside[OF assms(1)] by (auto simp: walked_def grown_def list_all_iff)

definition ex_noop :: PostEnv where
  "ex_noop = ex_env (\<lambda>pt s. (Some True, s))"

definition ex_captured1 :: LocalStore where
  "ex_captured1 = snd (capture_dir (pe_walk ex_noop) ''/w/n'' ex_before)"

definition ex_after_noop :: LocalStore where
  "ex_after_noop = snd (run_and_store ex_noop (task_key ex_noop ex_pt ex_before) ex_pt ex_before)"

definition ex_emptied :: LocalStore where
  "ex_emptied = ex_after_noop\<lparr>ls_disk := unlink ''/w/n/in'' (ls_disk ex_after_noop)\<rparr>"

lemma noop_run_skips_forever_witness:
  "fst (run_and_store ex_noop (task_key ex_noop ex_pt ex_before) ex_pt ex_before) = Ran_no_output \<and>
   path_view ex_emptied ''/w/n/in'' = None \<and> postinstall_step ex_noop ex_pt ex_emptied = (Restored, ex_emptied)"
proof -
  have cwd: "pt_cwd ex_pt = ''/w/n''" by (simp add: ex_pt_def)
  have w: "walked ex_noop (pt_cwd ex_pt) [[''in'']] {''a'', ''b''} ex_before" unfolding cwd ex_noop_def by (rule ex_walked)
  have cap: "capture_dir (pe_walk ex_noop) (pt_cwd ex_pt) ex_before = (fst (capture_dir (pe_walk ex_noop) (pt_cwd ex_pt) ex_before), ex_captured1)"
    by (simp add: ex_captured1_def cwd)
  note c = walked_capture[OF w cap, THEN conjunct2, THEN conjunct1]
  have run: "pe_run ex_noop ex_pt ex_captured1 = (Some True, ex_captured1)" by (simp add: ex_noop_def ex_env_def)
  have "pe_walk ex_noop ex_captured1 (pt_cwd ex_pt) = pe_walk ex_noop ex_before (pt_cwd ex_pt)" by code_simp
  from grown_walked[OF c w this] have w1: "walked ex_noop (pt_cwd ex_pt) [[''in'']] {''a'', ''b''} ex_captured1" .
  have same: "\<forall>ns\<in>set [[''in'']]. entry_of ex_captured1 (pt_cwd ex_pt) (below (pt_cwd ex_pt) ns) = entry_of ex_before (pt_cwd ex_pt) (below (pt_cwd ex_pt) ns)"
    using c walkedD(3)[OF w] by (auto simp: grown_def intro!: entry_of_cong)
  have h: "ls_hash ex_before = ex_hash" "ls_hash ex_captured1 = ex_hash" using c by (simp_all add: grown_def ex_before_def)
  have "task_key ex_noop ex_pt ex_before \<noteq> ex_hash ''a''" "task_key ex_noop ex_pt ex_before \<noteq> ex_hash ''b''"
    "length (task_key ex_noop ex_pt ex_before) = 32" by code_simp+
  then have key: "task_key ex_noop ex_pt ex_before \<notin> ls_hash ex_before ` {''a'', ''b''}" "length (task_key ex_noop ex_pt ex_before) = 32"
    unfolding h by blast+
  have none: "stored_item ex_before (task_key ex_noop ex_pt ex_before) = None" by code_simp
  obtain ev where res: "run_and_store ex_noop (task_key ex_noop ex_pt ex_before) ex_pt ex_before = (ev, ex_after_noop)"
    by (cases "run_and_store ex_noop (task_key ex_noop ex_pt ex_before) ex_pt ex_before") (simp add: ex_after_noop_def)
  note ok = run_and_store_ok[OF cap run w1 key(2) res]
  have root: "ls_root ex_after_noop = ''/c''" "ls_os ex_after_noop = ex_os" using ok c by (simp_all add: grown_def ex_before_def)
  have out: "store_outside ex_after_noop ''/w/n/in''" using ex_before_outside[OF root(1)] by simp
  have same_t: "same_store ex_after_noop ex_emptied"
    unfolding ex_emptied_def
    by (rule restored_store[OF _ out]) (use ok in \<open>auto simp: disk_simps store_okD path_view_def split: option.splits dentry.splits\<close>)
  have t: "store_ok ex_emptied" "all_allowed (ls_os ex_emptied)" "ls_hash ex_emptied = ls_hash ex_before"
    "\<forall>h c. stored_item ex_after_noop h = Some c \<longrightarrow> stored_item ex_emptied h = Some c"
    using same_t ok h ex_os_allowed unfolding same_store_def root(2) by simp_all
  have "path_view ex_emptied ''/w/n/in'' = None" by (simp add: ex_emptied_def path_view_def disk_simps)
  then show ?thesis using noop_run_skips_forever[OF w cap run w1 refl refl refl same key(1) none res t] res by simp
qed

definition ex_scripted :: LocalStore where
  "ex_scripted = snd (ex_script ex_pt (snd (capture_dir (pe_walk (ex_env ex_script)) ''/w/n'' ex_before)))"

definition ex_key :: string where
  "ex_key = replicate 32 CHR ''k''"

definition ex_stored :: LocalStore where
  "ex_stored = snd (run_and_store (ex_env ex_script) ex_key ex_pt ex_before)"

definition ex_fresh :: LocalStore where
  "ex_fresh = ex_stored\<lparr>ls_disk := unlink ''/w/n/out'' (ls_disk ex_stored)\<rparr>"


end
