(* ===== verification/Root_Task.thy ===== *)
theory Root_Task
  imports Bin_Links Lockfile Postinstall Task_List Scheduler
begin

text \<open>
  The install task of a workspace (src/crates/scheduler/src/runner.rs): its fingerprint, the marker, the two
  ways of restoring node_modules from the store, the run of the package manager and the capture after it,
  and the postinstall phase.  The tarballs are captured by capture_from_lockfile_packages
  (artifact_capture.rs).  The ecosystem plugin's install operations and the command are parameters.
\<close>

section \<open>The fingerprint\<close>

abbreviation nul :: char where "nul \<equiv> CHR 0x00"

definition input_block :: "LocalStore \<Rightarrow> string \<Rightarrow> string" where
  "input_block s p = (case read_local s p of
      Some b \<Rightarrow> ''present:'' @ p @ [nul] @ b | None \<Rightarrow> ''missing:'' @ p @ [nul])"

definition env_block :: "string \<times> string \<Rightarrow> string" where
  "env_block kv = ''env:'' @ fst kv @ ''='' @ snd kv @ [nul]"

definition root_message :: "Task \<Rightarrow> LocalStore \<Rightarrow> string" where
  "root_message t s = ''rage.root-task.v2'' @ [nul] @ t_command t @ [nul] @
     concat (map (input_block s) (t_input_paths t)) @ concat (map env_block (sort_key fst (t_env_hash_inputs t)))"

definition root_task_fingerprint :: "Task \<Rightarrow> LocalStore \<Rightarrow> string" where
  "root_task_fingerprint t s = to_hex (ls_hash s (root_message t s))"

section \<open>Capturing tarballs\<close>

definition find_tarball :: "Fs \<Rightarrow> LocalStore \<Rightarrow> string option \<Rightarrow> LockfilePackage \<Rightarrow> string option" where
  "find_tarball F s pm_cache p = Option.bind pm_cache (\<lambda>dir.
     Option.bind (case find_yarn_berry_zip (fs_list F s) dir (lp_name p) (lp_version p) of
         Some z \<Rightarrow> Some z | None \<Rightarrow> find_yarn_classic_tgz (fs_list F s) dir (lp_name p) (lp_version p))
       (read_local s))"

fun capture_from_lockfile_packages :: "Fs \<Rightarrow> string option \<Rightarrow> LockfilePackage list \<Rightarrow> LocalStore \<Rightarrow> nat \<times> LocalStore" where
  "capture_from_lockfile_packages F pm_cache [] s = (0, s)"
| "capture_from_lockfile_packages F pm_cache (p # ps) s =
    (let key = compute_cas_key (ls_hash s) (lp_integrity p) in
     if contains_key s key then capture_from_lockfile_packages F pm_cache ps s
     else (case find_tarball F s pm_cache p of
         None \<Rightarrow> capture_from_lockfile_packages F pm_cache ps s
       | Some b \<Rightarrow> (case put_bytes_keyed s key b of
             (Inl e, s1) \<Rightarrow> capture_from_lockfile_packages F pm_cache ps s1
           | (Inr _, s1) \<Rightarrow> (case capture_from_lockfile_packages F pm_cache ps s1 of (n, s2) \<Rightarrow> (n + 1, s2)))))"

section \<open>The task\<close>

record InstallPlugin =
  ip_verify :: "LocalStore \<Rightarrow> string \<Rightarrow> bool"
  ip_parse :: "LocalStore \<Rightarrow> string \<Rightarrow> LockfilePackage list option"
  ip_pm_cache :: "LocalStore \<Rightarrow> string \<Rightarrow> string option"
  ip_restore :: "LockfilePackage list \<Rightarrow> string \<Rightarrow> LocalStore \<Rightarrow> bool \<times> LocalStore"
  ip_postinstall :: "LocalStore \<Rightarrow> string \<Rightarrow> PostinstallTask list"

text \<open>re_command runs the package manager: None when it cannot be spawned, else the exit code, -1 after a signal.\<close>

record RootEnv =
  re_fs :: Fs
  re_post :: PostEnv
  re_plugin :: InstallPlugin
  re_cache_dir :: string
  re_command :: "Task \<Rightarrow> LocalStore \<Rightarrow> int option \<times> LocalStore"

datatype RootEvent =
    Cached
  | RestoredTarballs nat
  | RestoredFiles
  | EffectsMissing
  | RestoreFailed
  | Started LocalStore
  | Exited int LocalStore
  | MarkerWritten LocalStore

definition root_marker :: "RootEnv \<Rightarrow> string \<Rightarrow> string" where
  "root_marker E fp = path_join (re_cache_dir E) (''root-'' @ fp @ ''.done'')"

definition artifact_dir :: "RootEnv \<Rightarrow> string \<Rightarrow> string" where
  "artifact_dir E fp = path_join (path_join (re_cache_dir E) ''artifact-packages'') fp"

definition postinstall_phase :: "RootEnv \<Rightarrow> Task \<Rightarrow> LocalStore \<Rightarrow> LocalStore" where
  "postinstall_phase E t s = snd (run_postinstall_phase (re_post E) (ip_postinstall (re_plugin E) s (t_workspace_root t)) s)"

definition restore_tarballs :: "RootEnv \<Rightarrow> Task \<Rightarrow> LocalStore \<Rightarrow> nat option \<times> LocalStore" where
  "restore_tarballs E t s =
     (case ip_parse (re_plugin E) s (t_workspace_root t) of
        None \<Rightarrow> (None, s)
      | Some pkgs \<Rightarrow>
          if list_all (\<lambda>p. contains_key s (compute_cas_key (ls_hash s) (lp_integrity p))) pkgs \<and> pkgs \<noteq> [] then
            (case ip_restore (re_plugin E) pkgs (t_workspace_root t) s of
               (True, s1) \<Rightarrow> (Some (length pkgs), s1) | (False, s1) \<Rightarrow> (None, s1))
          else (None, s))"

definition capture_install :: "RootEnv \<Rightarrow> Task \<Rightarrow> string \<Rightarrow> LocalStore \<Rightarrow> LocalStore" where
  "capture_install E t fp s =
     (case ip_parse (re_plugin E) s (t_workspace_root t) of
        Some pkgs \<Rightarrow> snd (capture_from_lockfile_packages (re_fs E) (ip_pm_cache (re_plugin E) s (t_workspace_root t)) pkgs s)
      | None \<Rightarrow> snd (capture_all_node_modules (re_fs E) (t_workspace_root t) (artifact_dir E fp) s))"

definition write_marker :: "string \<Rightarrow> LocalStore \<Rightarrow> LocalStore" where
  "write_marker marker s = (case write_at (ls_os s) marker [] (ls_disk s) of None \<Rightarrow> s | Some d \<Rightarrow> s\<lparr>ls_disk := d\<rparr>)"

definition remove_marker :: "string \<Rightarrow> LocalStore \<Rightarrow> LocalStore" where
  "remove_marker marker s = s\<lparr>ls_disk := unlink_ignored (ls_os s) marker (ls_disk s)\<rparr>"

definition run_install :: "RootEnv \<Rightarrow> Task \<Rightarrow> string \<Rightarrow> LocalStore \<Rightarrow> (RunError + unit) \<times> LocalStore \<times> RootEvent list" where
  "run_install E t fp s =
     (case re_command E t s of
        (None, s1) \<Rightarrow> (Inl (Spawn (t_package t)), s1, [Started s])
      | (Some code, s1) \<Rightarrow>
          if code = 0 then
            (let s2 = write_marker (root_marker E fp) (capture_install E t fp s1) in
             (Inr (), postinstall_phase E t s2, [Started s, Exited code s1, MarkerWritten s2]))
          else (Inl (TaskFailed (t_package t) code), s1, [Started s, Exited code s1]))"

definition with_events :: "RootEvent list \<Rightarrow> 'a \<times> 'b \<times> RootEvent list \<Rightarrow> 'a \<times> 'b \<times> RootEvent list" where
  "with_events evs r = (case r of (a, s, evs') \<Rightarrow> (a, s, evs @ evs'))"

definition run_root_task_two_phase :: "RootEnv \<Rightarrow> Task \<Rightarrow> LocalStore \<Rightarrow> (RunError + unit) \<times> LocalStore \<times> RootEvent list" where
  "run_root_task_two_phase E t s =
     (let F = re_fs E; root = t_workspace_root t; fp = root_task_fingerprint t s; marker = root_marker E fp in
      if path_exists F s marker then
        if ip_verify (re_plugin E) s root then (Inr (), postinstall_phase E t s, [Cached])
        else (case restore_tarballs E t s of
            (Some n, s1) \<Rightarrow> (Inr (), postinstall_phase E t (snd (create_bin_links F root s1)), [RestoredTarballs n])
          | (None, s1) \<Rightarrow> (case try_restore_from_cas F (artifact_dir E fp) root s1 of
                (Inr True, s2) \<Rightarrow> (Inr (), postinstall_phase E t (snd (create_bin_links F root s2)), [RestoredFiles])
              | (Inr False, s2) \<Rightarrow> with_events [EffectsMissing] (run_install E t fp (remove_marker marker s2))
              | (Inl e, s2) \<Rightarrow> with_events [RestoreFailed] (run_install E t fp (remove_marker marker s2))))
      else run_install E t fp s)"

section \<open>The fingerprint stands for the inputs\<close>

lemma sep_unique:
  assumes "c \<notin> set x" "c \<notin> set y" "x @ c # u = y @ c # v"
  shows "x = y \<and> u = v"
  using assms by (induction x arbitrary: y) (auto simp: Cons_eq_append_conv)

definition input_tag :: "LocalStore \<Rightarrow> string \<Rightarrow> string" where
  "input_tag s p = (if read_local s p = None then ''missing:'' else ''present:'')"

definition input_content :: "LocalStore \<Rightarrow> string \<Rightarrow> string" where
  "input_content s p = (case read_local s p of None \<Rightarrow> [] | Some b \<Rightarrow> b)"

lemma input_block_parts: "input_block s p = input_tag s p @ p @ nul # input_content s p"
  by (simp add: input_block_def input_tag_def input_content_def split: option.splits)

lemma tag_facts: "length (input_tag s p) = 8" "nul \<notin> set (input_tag s p)"
  by (simp_all add: input_tag_def)

lemma tag_content_inj: "input_tag s p = input_tag s' p \<Longrightarrow> input_content s p = input_content s' p \<Longrightarrow> read_local s p = read_local s' p"
  by (auto simp: input_tag_def input_content_def split: if_splits option.splits)

definition plain_inputs :: "LocalStore \<Rightarrow> string list \<Rightarrow> bool" where
  "plain_inputs s ps \<longleftrightarrow> (\<forall>p\<in>set ps. nul \<notin> set p \<and> (\<forall>b. read_local s p = Some b \<longrightarrow> nul \<notin> set b))"

lemma content_blocks_inj:
  assumes "b @ concat (map (input_block s) ps) @ e = b' @ concat (map (input_block s') ps) @ e"
    and "nul \<notin> set b" "nul \<notin> set b'" "plain_inputs s ps" "plain_inputs s' ps"
  shows "b = b' \<and> (\<forall>p\<in>set ps. read_local s p = read_local s' p)"
  using assms
proof (induction ps arbitrary: b b')
  case (Cons p ps)
  have eq: "(b @ input_tag s p @ p) @ nul # (input_content s p @ concat (map (input_block s) ps) @ e) =
      (b' @ input_tag s' p @ p) @ nul # (input_content s' p @ concat (map (input_block s') ps) @ e)"
    using Cons.prems(1) by (simp add: input_block_parts[of _ p])
  have n: "nul \<notin> set p" "nul \<notin> set (input_content s p)" "nul \<notin> set (input_content s' p)"
    using Cons.prems(4,5) by (auto simp: plain_inputs_def input_content_def split: option.splits)
  have nL: "nul \<notin> set (b @ input_tag s p @ p)" and nR: "nul \<notin> set (b' @ input_tag s' p @ p)"
    using Cons.prems(2,3) n(1) tag_facts(2) by simp_all
  have both: "b @ input_tag s p @ p = b' @ input_tag s' p @ p \<and>
      input_content s p @ concat (map (input_block s) ps) @ e = input_content s' p @ concat (map (input_block s') ps) @ e"
    by (rule sep_unique[OF nL nR eq])
  have "b @ input_tag s p = b' @ input_tag s' p" using conjunct1[OF both] by simp
  then have bT: "b = b' \<and> input_tag s p = input_tag s' p"
    using tag_facts(1)[of s p] tag_facts(1)[of s' p] append_eq_append_conv[of b b' "input_tag s p" "input_tag s' p"]
      append_eq_append_conv[of "input_tag s p" "input_tag s' p" b b']
    by (metis append_eq_append_conv)
  have pl: "plain_inputs s ps" "plain_inputs s' ps" using Cons.prems(4,5) by (simp_all add: plain_inputs_def)
  have tl: "input_content s p = input_content s' p \<and> (\<forall>q\<in>set ps. read_local s q = read_local s' q)"
    by (rule Cons.IH[OF conjunct2[OF both] n(2,3) pl])
  have "read_local s p = read_local s' p" by (rule tag_content_inj[OF conjunct2[OF bT] conjunct1[OF tl]])
  with bT tl show ?case by simp
qed simp

lemma root_message_cong:
  assumes "\<forall>p\<in>set (t_input_paths t). read_local s p = read_local s' p"
  shows "root_message t s = root_message t s'"
proof -
  have "map (input_block s) (t_input_paths t) = map (input_block s') (t_input_paths t)"
    using assms by (intro map_cong refl) (simp add: input_block_def)
  then show ?thesis by (simp only: root_message_def)
qed

lemma root_message_inj:
  assumes "plain_inputs s (t_input_paths t)" "plain_inputs s' (t_input_paths t)" "root_message t s = root_message t s'"
  shows "\<forall>p\<in>set (t_input_paths t). read_local s p = read_local s' p"
proof -
  let ?e = "concat (map env_block (sort_key fst (t_env_hash_inputs t)))"
  have "[] @ concat (map (input_block s) (t_input_paths t)) @ ?e = [] @ concat (map (input_block s') (t_input_paths t)) @ ?e"
    using assms(3) by (simp only: root_message_def append_assoc same_append_eq append_Nil)
  from content_blocks_inj[OF this _ _ assms(1,2)] show ?thesis by simp
qed

lemma root_fingerprint_env:
  assumes "mset env = mset (t_env_hash_inputs t)" "distinct (map fst env)"
  shows "root_task_fingerprint (t\<lparr>t_env_hash_inputs := env\<rparr>) s = root_task_fingerprint t s"
proof -
  have "sort_key fst env = sort_key fst (t_env_hash_inputs t)"
    by (rule sort_key_perm) (use assms in \<open>simp_all add: distinct_map\<close>)
  then show ?thesis by (simp add: root_task_fingerprint_def root_message_def)
qed


text \<open>Examples: an install whose only input is a manifest that is there or missing, and a command that fails.\<close>

definition rt_store :: "(string \<rightharpoonup> dentry) \<Rightarrow> LocalStore" where
  "rt_store m = \<lparr>ls_root = ''/c'', ls_hash = ex_hash, ls_os = ex_os, ls_disk = \<lparr>names = m,
     inodes = (\<lambda>i. \<lparr>in_bytes = ''{}'', in_mode = 420\<rparr>), fresh = 1\<rparr>\<rparr>"

definition rt_task :: Task where
  "rt_task = \<lparr>t_package = ''(root)'', t_script = ''install'', t_command = ''npm ci'', t_cwd = ''/w'', t_sandbox = Strict,
     t_is_root = True, t_input_paths = [''/w/package.json''], t_workspace_root = ''/w'', t_declared_input_globs = [],
     t_dep_packages = [], t_output_globs = [], t_env_hash_inputs = [(''B'', ''2''), (''A'', ''1'')]\<rparr>"


section \<open>When the package manager runs\<close>

definition is_started :: "RootEvent \<Rightarrow> bool" where
  "is_started ev = (case ev of Started _ \<Rightarrow> True | _ \<Rightarrow> False)"

text \<open>The task succeeds exactly when the command exits with 0, and exactly then the marker is written.\<close>

definition marked_iff_ok :: "RunError + unit \<Rightarrow> RootEvent list \<Rightarrow> bool" where
  "marked_iff_ok r evs \<longleftrightarrow>
     (r = Inr () \<longleftrightarrow> list_ex (\<lambda>ev. case ev of Exited c _ \<Rightarrow> c = 0 | _ \<Rightarrow> False) evs) \<and>
     (r = Inr () \<longleftrightarrow> list_ex (\<lambda>ev. case ev of MarkerWritten _ \<Rightarrow> True | _ \<Rightarrow> False) evs)"

lemma run_install_events:
  assumes "run_install E t fp s = (r, s', evs)"
  shows "filter is_started evs = [Started s]" "marked_iff_ok r evs"
  using assms by (auto simp: run_install_def Let_def is_started_def marked_iff_ok_def split: prod.splits option.splits if_splits)

lemma with_install_events:
  assumes "with_events [ev] (run_install E t fp s) = (r, s', evs)" "ev = EffectsMissing \<or> ev = RestoreFailed"
  shows "filter is_started evs = [Started s] \<and> marked_iff_ok r evs"
proof -
  obtain r0 s0 es where run: "run_install E t fp s = (r0, s0, es)" by (metis prod_cases3)
  then have "r = r0" "evs = ev # es" using assms(1) by (simp_all add: with_events_def)
  with run_install_events[OF run] assms(2) show ?thesis by (auto simp: is_started_def marked_iff_ok_def)
qed

lemma removed_marker:
  "os_unlink (ls_os (remove_marker m s)) m \<Longrightarrow> names (ls_disk (remove_marker m s)) m = None"
  by (simp add: remove_marker_def unlink_ignored_def disk_simps)

lemma root_task_cases [consumes 1, case_names fresh cached restored again]:
  assumes "run_root_task_two_phase E t s = (r, s', evs)"
  obtains (fresh) "\<not> path_exists (re_fs E) s (root_marker E (root_task_fingerprint t s))"
      "run_install E t (root_task_fingerprint t s) s = (r, s', evs)"
  | (cached) "path_exists (re_fs E) s (root_marker E (root_task_fingerprint t s))"
      "ip_verify (re_plugin E) s (t_workspace_root t)" "r = Inr ()" "evs = [Cached]" "s' = postinstall_phase E t s"
  | (restored) n where "path_exists (re_fs E) s (root_marker E (root_task_fingerprint t s))"
      "\<not> ip_verify (re_plugin E) s (t_workspace_root t)" "r = Inr ()" "evs = [RestoredTarballs n] \<or> evs = [RestoredFiles]"
  | (again) ev x where "path_exists (re_fs E) s (root_marker E (root_task_fingerprint t s))"
      "\<not> ip_verify (re_plugin E) s (t_workspace_root t)" "ev = EffectsMissing \<or> ev = RestoreFailed"
      "with_events [ev] (run_install E t (root_task_fingerprint t s)
        (remove_marker (root_marker E (root_task_fingerprint t s)) x)) = (r, s', evs)"
proof -
  let ?F = "re_fs E" and ?root = "t_workspace_root t" and ?fp = "root_task_fingerprint t s"
  let ?m = "root_marker E ?fp"
  show thesis
  proof (cases "path_exists ?F s ?m \<and> \<not> ip_verify (re_plugin E) s ?root")
    case False
    then show thesis using assms that(1,2)
      by (simp add: run_root_task_two_phase_def Let_def split: if_splits)
  next
    case True
    obtain o1 s1 where r1: "restore_tarballs E t s = (o1, s1)" by fastforce
    obtain o2 s2 where r2: "try_restore_from_cas ?F (artifact_dir E ?fp) ?root s1 = (o2, s2)" by fastforce
    show thesis
    proof (cases o1)
      case (Some n)
      show thesis by (rule that(3)[of n]) (use assms True r1 Some in \<open>simp_all add: run_root_task_two_phase_def Let_def\<close>)
    next
      case None
      note run = assms[unfolded run_root_task_two_phase_def Let_def] and facts = True None r1 r2
      show thesis
      proof (cases o2)
        case (Inl e)
        show thesis by (rule that(4)[of RestoreFailed s2]) (use run facts Inl in simp_all)
      next
        case (Inr ok)
        show thesis
        proof (cases ok)
          case True
          show thesis by (rule that(3)[of 0]) (use run facts Inr True in simp_all)
        next
          case False
          show thesis by (rule that(4)[of EffectsMissing s2]) (use run facts Inr False in simp_all)
        qed
      qed
    qed
  qed
qed


definition rt_env :: "int \<Rightarrow> RootEnv" where
  "rt_env code = \<lparr>re_fs = \<lparr>fs_list = (\<lambda>s p. None), fs_tree = (\<lambda>s p. []), fs_is_dir = (\<lambda>s p. False), fs_canon = (\<lambda>s p. None),
       fs_json = (\<lambda>t. None), fs_pnpm = (\<lambda>t. None), fs_entry = \<lparr>enc = (\<lambda>m. None), dec = (\<lambda>t. None)\<rparr>, fs_diff = (\<lambda>a b. None)\<rparr>,
     re_post = \<lparr>pe_walk = (\<lambda>s dir. None), pe_codec = \<lparr>enc = (\<lambda>m. None), dec = (\<lambda>t. None)\<rparr>,
       pe_platform = ''linux-x86_64'', pe_node = None, pe_run = (\<lambda>p s. (None, s))\<rparr>,
     re_plugin = \<lparr>ip_verify = (\<lambda>s r. False), ip_parse = (\<lambda>s r. None), ip_pm_cache = (\<lambda>s r. None),
       ip_restore = (\<lambda>p r s. (False, s)), ip_postinstall = (\<lambda>s r. [])\<rparr>,
     re_cache_dir = ''/c/cas'', re_command = (\<lambda>t s. (Some code, s))\<rparr>"

definition rt_marked :: LocalStore where
  "rt_marked = rt_store [root_marker (rt_env 7) (root_task_fingerprint rt_task (rt_store Map.empty)) \<mapsto> Reg 0]"


end
