(* ===== verification/Root_Legacy.thy ===== *)
theory Root_Legacy
  imports Root_Task Cache_Store
begin

text \<open>
  The root task of the single-phase runner (src/crates/scheduler/src/runner.rs, \<^verbatim>\<open>run_root_task_legacy\<close>): with a cache
  provider a stored success stands for the install, without one the command runs every time.
\<close>

text \<open>Without a cache the provider finds nothing; \<^verbatim>\<open>with_store\<close> tells whether plugin and store are given.\<close>

definition run_root_task_legacy ::
    "('c \<Rightarrow> string \<Rightarrow> CacheEntry option \<times> 'c) \<Rightarrow> ('c \<Rightarrow> string \<Rightarrow> CacheEntry \<Rightarrow> bool \<times> 'c) \<Rightarrow> RootEnv \<Rightarrow> bool \<Rightarrow> Task \<Rightarrow>
     64 word \<Rightarrow> 64 word \<Rightarrow> 'c \<Rightarrow> LocalStore \<Rightarrow> (RunError + unit) \<times> 'c \<times> LocalStore \<times> RootEvent list" where
  "run_root_task_legacy get put E with_store t elapsed now c s =
     (let fp = root_task_fingerprint t s in
      case get c fp of
        (Some _, c1) \<Rightarrow> (Inr (), c1, s, [Cached])
      | (None, c1) \<Rightarrow> (case re_command E t s of
            (None, s1) \<Rightarrow> (Inl (Spawn (t_package t)), c1, s1, [Started s])
          | (Some code, s1) \<Rightarrow>
              if code = 0 then
                (Inr (), snd (put c1 fp \<lparr>ce_fingerprint = fp, ce_command = t_command t, ce_exit_code = 0,
                     ce_elapsed_ms = elapsed, ce_cached_at = now, ce_pathset_reads = [], ce_abi = None\<rparr>),
                 if with_store then postinstall_phase E t s1 else s1, [Started s, Exited code s1])
              else (Inl (TaskFailed (t_package t) code), c1, s1, [Started s, Exited code s1])))"

text \<open>With a cache, an install that has once succeeded is skipped for the same inputs in every later state of the
  disk, also when its effects are gone; the two-phase runner verifies the effects and does not skip it.\<close>

theorem legacy_skips_lost_install:
  assumes "cache_provider ok key_ok get put" "ok c" "\<And>k e. fst (put (snd (get c fp)) k e)"
    and "run_root_task_legacy get put E with_store t elapsed now c s = (Inr (), c1, s1, [Started s, Exited code s2])"
    and "fp = root_task_fingerprint t s" "root_task_fingerprint t s' = fp" "\<not> ip_verify (re_plugin E) s' (t_workspace_root t)"
  shows "fst (snd (snd (run_root_task_legacy get put E with_store t elapsed' now' c1 s'))) = s' \<and>
    snd (snd (snd (run_root_task_legacy get put E with_store t elapsed' now' c1 s'))) = [Cached] \<and>
    snd (snd (run_root_task_two_phase E t s')) \<noteq> [Cached]"
proof -
  obtain r c2 where g: "get c fp = (r, c2)" by (cases "get c fp")
  with assms(4) have none: "r = None" by (cases r) (auto simp: run_root_task_legacy_def Let_def assms(5))
  have "\<exists>e. c1 = snd (put c2 fp e)"
    using assms(4) g unfolding none by (auto simp: run_root_task_legacy_def Let_def assms(5)[symmetric] split: prod.splits option.splits if_splits)
  then obtain e where e: "c1 = snd (put c2 fp e)" by blast
  have "ok c2" using cache_provider.get_ok[OF assms(1,2), of fp] g by simp
  moreover have "fst (put c2 fp e)" using assms(3) g by simp
  ultimately have "fst (get c1 fp) = Some e" using cache_provider.get_put[OF assms(1)] e by blast
  then obtain c3 where "get c1 fp = (Some e, c3)" by (cases "get c1 fp") auto
  then have hit: "run_root_task_legacy get put E with_store t elapsed' now' c1 s' = (Inr (), c3, s', [Cached])"
    by (simp add: run_root_task_legacy_def assms(6))
  obtain r2 s3 evs where two: "run_root_task_two_phase E t s' = (r2, s3, evs)" by (metis prod_cases3)
  then have "evs \<noteq> [Cached]"
  proof (cases rule: root_task_cases)
    case fresh
    then show ?thesis using run_install_events(1)[OF fresh(2)] by (auto simp: is_started_def)
  next
    case (again ev x)
    with with_install_events[OF again(4,3)] show ?thesis by (auto simp: is_started_def)
  qed (use assms(7) in auto)
  then show ?thesis by (simp add: hit two)
qed

text \<open>A provider that keeps everything in a map, and an install whose tree is lost.\<close>

definition map_get :: "(string \<rightharpoonup> CacheEntry) \<Rightarrow> string \<Rightarrow> CacheEntry option \<times> (string \<rightharpoonup> CacheEntry)" where
  "map_get m k = (m k, m)"

definition map_put :: "(string \<rightharpoonup> CacheEntry) \<Rightarrow> string \<Rightarrow> CacheEntry \<Rightarrow> bool \<times> (string \<rightharpoonup> CacheEntry)" where
  "map_put m k e = (True, m(k \<mapsto> e))"

lemma map_provider: "cache_provider (\<lambda>_. True) (\<lambda>_. True) map_get map_put"
  by unfold_locales (auto simp: map_get_def map_put_def)

lemma legacy_skips_lost_install_witness:
  "\<exists>c. snd (snd (snd (run_root_task_legacy map_get map_put (rt_env 0) False rt_task 0 0 c (rt_store Map.empty)))) = [Cached] \<and>
     snd (snd (run_root_task_two_phase (rt_env 0) rt_task (rt_store Map.empty))) \<noteq> [Cached]"
proof -
  let ?s = "rt_store Map.empty"
  obtain c1 where "run_root_task_legacy map_get map_put (rt_env 0) False rt_task 5 7 Map.empty ?s = (Inr (), c1, ?s, [Started ?s, Exited 0 ?s])"
    by (simp add: run_root_task_legacy_def Let_def map_get_def rt_env_def)
  from legacy_skips_lost_install[OF map_provider TrueI _ this refl refl] show ?thesis
    by (auto simp: map_put_def rt_env_def)
qed

end
