(* ===== verification/Sandbox_Pipe.thy ===== *)
theory Sandbox_Pipe
  imports Files
begin

text \<open>
  The wire format between a sandboxed process and its parent (src/crates/sandbox/src/pipe_proto.rs), the writing
  client (src/crates/sandbox-windows-detours/src/ipc.rs), the reading loop of the parent
  (read_events, src/crates/sandbox/src/windows.rs) and the path set made of the events
  (src/crates/sandbox/src/event.rs).  A byte is a word of 8 bits, a Rust string a list of Unicode scalar values,
  given as numbers; \<^verbatim>\<open>encode_utf16\<close> and \<^verbatim>\<open>from_utf16_lossy\<close> of the standard library are written out.
\<close>

unbundle bit_operations_syntax

section \<open>UTF-16\<close>

type_synonym byte = "8 word"
type_synonym unit16 = "16 word"
type_synonym ustring = "nat list"

definition scalar :: "nat \<Rightarrow> bool" where
  "scalar c \<longleftrightarrow> c < 0xD800 \<or> 0xE000 \<le> c \<and> c < 0x110000"

definition encode_char :: "nat \<Rightarrow> unit16 list" where
  "encode_char c = (if c < 0x10000 then [word_of_nat c]
     else [word_of_nat (0xD800 + (c - 0x10000) div 0x400), word_of_nat (0xDC00 + (c - 0x10000) mod 0x400)])"

definition encode_utf16 :: "ustring \<Rightarrow> unit16 list" where
  "encode_utf16 s = concat (map encode_char s)"

definition high_surrogate :: "unit16 \<Rightarrow> bool" where
  "high_surrogate u \<longleftrightarrow> 0xD800 \<le> unat u \<and> unat u < 0xDC00"

definition low_surrogate :: "unit16 \<Rightarrow> bool" where
  "low_surrogate u \<longleftrightarrow> 0xDC00 \<le> unat u \<and> unat u < 0xE000"

text \<open>A unit of a broken surrogate pair is read as the replacement character.\<close>

fun from_utf16_lossy :: "unit16 list \<Rightarrow> ustring" where
  "from_utf16_lossy [] = []"
| "from_utf16_lossy [u] = [if high_surrogate u \<or> low_surrogate u then 0xFFFD else unat u]"
| "from_utf16_lossy (u # v # us) =
     (if \<not> high_surrogate u \<and> \<not> low_surrogate u then unat u # from_utf16_lossy (v # us)
      else if high_surrogate u \<and> low_surrogate v then (0x10000 + (unat u - 0xD800) * 0x400 + (unat v - 0xDC00)) # from_utf16_lossy us
      else 0xFFFD # from_utf16_lossy (v # us))"

lemma from_utf16_plain:
  "\<not> high_surrogate u \<Longrightarrow> \<not> low_surrogate u \<Longrightarrow> from_utf16_lossy (u # us) = unat u # from_utf16_lossy us"
  by (cases us) simp_all

lemma unat_unit16: "n < 0x10000 \<Longrightarrow> unat (word_of_nat n :: unit16) = n"
  by (simp add: unat_of_nat)

lemma from_utf16_char:
  assumes "scalar c"
  shows "from_utf16_lossy (encode_char c @ us) = c # from_utf16_lossy us"
proof (cases "c < 0x10000")
  case True
  with assms have "\<not> high_surrogate (word_of_nat c)" "\<not> low_surrogate (word_of_nat c)"
    by (auto simp: high_surrogate_def low_surrogate_def unat_unit16 scalar_def)
  then show ?thesis using True by (simp add: encode_char_def from_utf16_plain unat_unit16)
next
  case False
  define d where "d = c - 0x10000"
  have d: "d div 0x400 < 0x400" "c = 0x10000 + d" using False assms by (auto simp: d_def scalar_def)
  have m: "d mod 0x400 < 0x400" by simp
  have h: "unat (word_of_nat (0xD800 + d div 0x400) :: unit16) = 0xD800 + d div 0x400"
    by (rule unat_unit16) (use d(1) in linarith)
  have l: "unat (word_of_nat (0xDC00 + d mod 0x400) :: unit16) = 0xDC00 + d mod 0x400"
    by (rule unat_unit16) (use m in linarith)
  have "high_surrogate (word_of_nat (0xD800 + d div 0x400))" "low_surrogate (word_of_nat (0xDC00 + d mod 0x400))"
    unfolding high_surrogate_def low_surrogate_def h l using d(1) m by linarith+
  moreover have "0x10000 + (0xD800 + d div 0x400 - 0xD800) * 0x400 + (0xDC00 + d mod 0x400 - 0xDC00) = c"
    using div_mult_mod_eq[of d "0x400"] d(2) by simp
  ultimately show ?thesis using False h l
    by (simp add: encode_char_def d_def[symmetric] del: of_nat_add of_nat_numeral)
qed

lemma utf16_roundtrip: "list_all scalar s \<Longrightarrow> from_utf16_lossy (encode_utf16 s) = s"
  by (induction s) (simp_all add: encode_utf16_def from_utf16_char)

section \<open>Records\<close>

text \<open>An event carries the path as the process named it.\<close>

datatype 'p AccessEvent = Read 'p "32 word" | Write 'p "32 word"

definition OP_READ :: byte where "OP_READ = 1"
definition OP_WRITE :: byte where "OP_WRITE = 2"
definition HEADER_LEN :: nat where "HEADER_LEN = 7"

definition write_u16 :: "unit16 \<Rightarrow> byte list" where
  "write_u16 w = [ucast w, ucast (drop_bit 8 w)]"

definition write_u32 :: "32 word \<Rightarrow> byte list" where
  "write_u32 w = [ucast w, ucast (drop_bit 8 w), ucast (drop_bit 16 w), ucast (drop_bit 24 w)]"

definition read_u16 :: "byte \<Rightarrow> byte \<Rightarrow> unit16" where
  "read_u16 a b = ucast a OR push_bit 8 (ucast b)"

definition read_u32 :: "byte \<Rightarrow> byte \<Rightarrow> byte \<Rightarrow> byte \<Rightarrow> 32 word" where
  "read_u32 a b c d = ucast a OR push_bit 8 (ucast b) OR push_bit 16 (ucast c) OR push_bit 24 (ucast d)"

lemma read_write_u16 [simp]: "read_u16 (ucast w) (ucast (drop_bit 8 w)) = w"
  by (rule bit_word_eqI) (auto simp: read_u16_def bit_simps)

lemma read_write_u32 [simp]:
  "read_u32 (ucast w) (ucast (drop_bit 8 w)) (ucast (drop_bit 16 w)) (ucast (drop_bit 24 w)) = w"
proof (rule bit_word_eqI)
  fix n assume n: "n < LENGTH(32)"
  show "bit (read_u32 (ucast w) (ucast (drop_bit 8 w)) (ucast (drop_bit 16 w)) (ucast (drop_bit 24 w))) n = bit w n"
    by (cases "n < 8"; cases "n < 16"; cases "n < 24") (use n in \<open>auto simp: read_u32_def bit_simps\<close>)
qed

text \<open>The number of units is cut to 16 bits (\<^verbatim>\<open>as u16\<close>); the units are all written.\<close>

definition encode_event :: "ustring AccessEvent \<Rightarrow> byte list \<Rightarrow> byte list" where
  "encode_event event buf =
     (let (op, path, pid) = (case event of Read p i \<Rightarrow> (OP_READ, p, i) | Write p i \<Rightarrow> (OP_WRITE, p, i));
          utf16 = encode_utf16 path; path_len = (word_of_nat (length utf16) :: unit16) in
      buf @ [op] @ write_u32 pid @ write_u16 path_len @ concat (map write_u16 utf16))"

fun units_of :: "byte list \<Rightarrow> unit16 list" where
  "units_of (a # b # bs) = read_u16 a b # units_of bs"
| "units_of _ = []"

definition decode_event :: "byte list \<Rightarrow> (ustring AccessEvent \<times> nat) option" where
  "decode_event buf =
     (if length buf < HEADER_LEN then None
      else (let op = buf ! 0; pid = read_u32 (buf ! 1) (buf ! 2) (buf ! 3) (buf ! 4);
                path_words = unat (read_u16 (buf ! 5) (buf ! 6)); total = HEADER_LEN + path_words * 2 in
        if length buf < total then None
        else (let path = from_utf16_lossy (units_of (drop HEADER_LEN (take total buf))) in
          if op = OP_READ then Some (Read path pid, total)
          else if op = OP_WRITE then Some (Write path pid, total)
          else None)))"

lemma units_of_written: "units_of (concat (map write_u16 us)) = us"
  by (induction us) (simp_all add: write_u16_def)

lemma length_written: "length (concat (map write_u16 us)) = length us * 2"
  by (induction us) (simp_all add: write_u16_def)

definition event_path :: "'p AccessEvent \<Rightarrow> 'p" where
  "event_path e = (case e of Read p _ \<Rightarrow> p | Write p _ \<Rightarrow> p)"

definition with_path :: "'q \<Rightarrow> 'p AccessEvent \<Rightarrow> 'q AccessEvent" where
  "with_path q e = (case e of Read _ i \<Rightarrow> Read q i | Write _ i \<Rightarrow> Write q i)"

text \<open>The units that the length field speaks of.\<close>

definition wire_units :: "ustring \<Rightarrow> nat" where
  "wire_units p = length (encode_utf16 p) mod 0x10000"

text \<open>Decoding what was written: the path is cut to the units counted, whatever follows.\<close>

lemma decode_encoded:
  "decode_event (encode_event e [] @ rest) =
     Some (with_path (from_utf16_lossy (take (wire_units (event_path e)) (encode_utf16 (event_path e)))) e,
       HEADER_LEN + wire_units (event_path e) * 2)"
proof -
  define us where "us = encode_utf16 (event_path e)"
  define n where "n = wire_units (event_path e)"
  obtain op pid where op: "encode_event e [] = op # write_u32 pid @ write_u16 (word_of_nat (length us)) @ concat (map write_u16 us)"
    "op = OP_READ \<and> (\<forall>q::ustring. with_path q e = Read q pid) \<or>
     op = OP_WRITE \<and> (\<forall>q::ustring. with_path q e = Write q pid)"
    by (cases e) (auto simp: encode_event_def us_def event_path_def with_path_def Let_def)
  have n: "unat (word_of_nat (length us) :: unit16) = n" "n \<le> length us"
    by (simp_all add: n_def us_def wire_units_def unat_of_nat)
  have "concat (map write_u16 us) = concat (map write_u16 (take n us)) @ concat (map write_u16 (drop n us))"
    by (metis append_take_drop_id concat_append map_append)
  then have cut: "take (n * 2) (concat (map write_u16 us)) = concat (map write_u16 (take n us))"
    using n(2) length_written[of "take n us"] by (simp add: min_absorb2)
  have diff: "OP_WRITE \<noteq> OP_READ" by (simp add: OP_READ_def OP_WRITE_def)
  show ?thesis
    using op(2) n(2) diff
    by (auto simp: decode_event_def op(1) HEADER_LEN_def Let_def write_u32_def write_u16_def[of "word_of_nat _"] n(1) n_def[symmetric]
        us_def[symmetric] length_written cut units_of_written drop_take)
qed


definition fits :: "ustring AccessEvent \<Rightarrow> bool" where
  "fits e \<longleftrightarrow> list_all scalar (event_path e) \<and> length (encode_utf16 (event_path e)) < 0x10000"

lemma length_encoded: "length (encode_event e []) = HEADER_LEN + length (encode_utf16 (event_path e)) * 2"
  by (simp add: encode_event_def length_written write_u32_def write_u16_def[of "word_of_nat _"] HEADER_LEN_def
      event_path_def Let_def split: AccessEvent.split)

lemma with_own_path: "with_path (event_path e) e = e"
  by (cases e) (simp_all add: with_path_def event_path_def)

lemma decode_fitting:
  "fits e \<Longrightarrow> decode_event (encode_event e [] @ rest) = Some (e, length (encode_event e []))"
  by (simp add: decode_encoded fits_def wire_units_def utf16_roundtrip with_own_path length_encoded)

lemma encode_event_append: "encode_event e buf = buf @ encode_event e []"
  by (simp add: encode_event_def Let_def split: AccessEvent.split)

text \<open>The length of the record at the front of a buffer, and the event in its bytes.\<close>

definition record_length :: "byte list \<Rightarrow> nat" where
  "record_length buf = HEADER_LEN + unat (read_u16 (buf ! 5) (buf ! 6)) * 2"

definition record_event :: "byte list \<Rightarrow> ustring AccessEvent option" where
  "record_event t = (let path = from_utf16_lossy (units_of (drop HEADER_LEN t)); pid = read_u32 (t ! 1) (t ! 2) (t ! 3) (t ! 4) in
     if t ! 0 = OP_READ then Some (Read path pid) else if t ! 0 = OP_WRITE then Some (Write path pid) else None)"

lemma decode_event_record:
  "decode_event buf = (if length buf < HEADER_LEN \<or> length buf < record_length buf then None
     else map_option (\<lambda>e. (e, record_length buf)) (record_event (take (record_length buf) buf)))"
proof -
  have "take (record_length buf) buf ! i = buf ! i" if "i < 7" for i
    using that by (simp add: record_length_def HEADER_LEN_def)
  then show ?thesis
    by (simp add: decode_event_def record_event_def record_length_def Let_def)
qed

lemma decode_event_Some:
  assumes "decode_event buf = Some (e, n)"
  shows "HEADER_LEN \<le> n" "n \<le> length buf" "decode_event (buf @ later) = Some (e, n)"
proof -
  have r: "n = record_length buf" "HEADER_LEN \<le> length buf" "n \<le> length buf" "record_event (take n buf) = Some e"
    using assms by (auto simp: decode_event_record split: if_splits)
  have same: "record_length (buf @ later) = n"
    using r(1,2) by (simp add: record_length_def nth_append HEADER_LEN_def)
  show "HEADER_LEN \<le> n" using r(1) by (simp add: record_length_def)
  show "n \<le> length buf" by (rule r(3))
  show "decode_event (buf @ later) = Some (e, n)"
    using r(2-4) by (simp add: decode_event_record[of "buf @ later"] same)
qed

section \<open>The reading loop\<close>

text \<open>Taking the complete records off the front of the buffer; each has at least the seven bytes of its header.\<close>

function drain :: "byte list \<Rightarrow> ustring AccessEvent list \<times> byte list" where
  "drain buf = (case decode_event buf of
      None \<Rightarrow> ([], buf)
    | Some (event, consumed) \<Rightarrow> (case drain (drop consumed buf) of (es, rest) \<Rightarrow> (event # es, rest)))"
  by pat_completeness auto
termination
proof (relation "measure length")
  fix buf :: "byte list" and x2 :: "ustring AccessEvent \<times> nat" and event consumed
  assume "decode_event buf = Some x2" "(event, consumed) = x2"
  then show "(drop consumed buf, buf) \<in> measure length"
    using decode_event_Some(1,2)[of buf event consumed] by (auto simp: HEADER_LEN_def)
qed simp

declare drain.simps [simp del]

lemma drain_append:
  "drain (xs @ ys) = (case drain xs of (es, rest) \<Rightarrow> (case drain (rest @ ys) of (es', rest') \<Rightarrow> (es @ es', rest')))"
proof (induction xs rule: drain.induct)
  case (1 buf)
  show ?case
  proof (cases "decode_event buf")
    case None
    then show ?thesis by (simp add: drain.simps[of buf])
  next
    case (Some r)
    obtain e n where r: "r = (e, n)" by force
    note d = decode_event_Some[OF Some[unfolded r]]
    have "drain (drop n buf @ ys) = (case drain (drop n buf) of (es, rest) \<Rightarrow>
        (case drain (rest @ ys) of (es', rest') \<Rightarrow> (es @ es', rest')))"
      by (rule "1.IH"[OF Some]) (simp add: r)
    then show ?thesis using d(2)
      by (simp add: drain.simps[of buf] drain.simps[of "buf @ ys"] d(3) Some r split: prod.splits)
  qed
qed

lemma drain_rest: "drain xs = (es, rest) \<Longrightarrow> drain rest = ([], rest)"
proof (induction xs arbitrary: es rest rule: drain.induct)
  case (1 buf)
  show ?case
  proof (cases "decode_event buf")
    case None
    then show ?thesis using "1.prems" by (auto simp: drain.simps)
  next
    case (Some r)
    then show ?thesis using "1.prems" "1.IH"[OF Some] by (auto simp: drain.simps[of buf] split: prod.splits)
  qed
qed

text \<open>The loop over the results of \<^verbatim>\<open>ReadFile\<close> until the first that fails or is empty, and the drain after it.\<close>

fun read_loop :: "byte list list \<Rightarrow> byte list \<Rightarrow> ustring AccessEvent list \<Rightarrow> ustring AccessEvent list \<times> byte list" where
  "read_loop [] raw_buf events = (events, raw_buf)"
| "read_loop (chunk # chunks) raw_buf events =
     (if chunk = [] then (events, raw_buf)
      else (case drain (raw_buf @ chunk) of (es, rest) \<Rightarrow> read_loop chunks rest (events @ es)))"

text \<open>\<^verbatim>\<open>connected\<close> is the outcome of \<^verbatim>\<open>ConnectNamedPipe\<close>.\<close>

definition read_events :: "bool \<Rightarrow> byte list list \<Rightarrow> ustring AccessEvent list" where
  "read_events connected chunks =
     (if \<not> connected then []
      else (case read_loop chunks [] [] of (events, raw_buf) \<Rightarrow> events @ fst (drain raw_buf)))"

lemma read_loop_drain:
  assumes "drain raw = ([], raw)"
  shows "(case read_loop chunks raw events of (es, r) \<Rightarrow> es @ fst (drain r)) =
    events @ fst (drain (raw @ concat (takeWhile (\<lambda>c. c \<noteq> []) chunks)))"
  using assms
proof (induction chunks arbitrary: raw events)
  case (Cons c chunks)
  obtain es rest where d: "drain (raw @ c) = (es, rest)" by fastforce
  show ?case
  proof (cases "c = []")
    case False
    have "drain (raw @ concat (takeWhile (\<lambda>c. c \<noteq> []) (c # chunks))) =
        (case drain (rest @ concat (takeWhile (\<lambda>c. c \<noteq> []) chunks)) of (es', r') \<Rightarrow> (es @ es', r'))"
      using False d drain_append[of "raw @ c"] by simp
    with Cons.IH[OF drain_rest[OF d]] False d show ?thesis by (simp split: prod.splits)
  qed (use Cons.prems in simp)
qed (simp add: drain_rest)

section \<open>What arrives\<close>

text \<open>The client writes one event after the other.\<close>

definition written :: "ustring AccessEvent list \<Rightarrow> byte list" where
  "written es = fold encode_event es []"

lemma written_simps: "written [] = []" "written (e # es) = encode_event e [] @ written es"
proof -
  have app: "fold encode_event es buf = buf @ fold encode_event es []" for es buf
  proof (induction es arbitrary: buf)
    case (Cons e es)
    have "fold encode_event (e # es) buf = encode_event e buf @ fold encode_event es []"
      using Cons.IH[of "encode_event e buf"] by simp
    also have "\<dots> = buf @ encode_event e [] @ fold encode_event es []"
      using encode_event_append[of e buf] by simp
    also have "\<dots> = buf @ fold encode_event (e # es) []" using Cons.IH[of "encode_event e []"] by simp
    finally show ?case .
  qed simp
  show "written [] = []" "written (e # es) = encode_event e [] @ written es"
    using app[of es "encode_event e []"] by (simp_all add: written_def)
qed

text \<open>The number of events whose records lie within the first \<^verbatim>\<open>n\<close> bytes.\<close>

fun received :: "nat \<Rightarrow> ustring AccessEvent list \<Rightarrow> nat" where
  "received n [] = 0"
| "received n (e # es) = (let k = length (encode_event e []) in if n < k then 0 else Suc (received (n - k) es))"

lemma drain_prefix:
  assumes "list_all fits es" "bytes @ rest = written es"
  shows "fst (drain bytes) = take (received (length bytes) es) es"
  using assms
proof (induction es arbitrary: bytes)
  case Nil
  then have "bytes = []" by (simp add: written_simps)
  moreover have "decode_event [] = None" by (simp add: decode_event_def HEADER_LEN_def)
  ultimately show ?case by (simp add: drain.simps)
next
  case (Cons e es)
  let ?enc = "encode_event e []"
  have eq: "bytes @ rest = ?enc @ written es" using Cons.prems(2) by (simp add: written_simps)
  have dec: "decode_event (?enc @ x) = Some (e, length ?enc)" for x
    using Cons.prems(1) by (intro decode_fitting) simp
  show ?case
  proof (cases "length bytes < length ?enc")
    case True
    have "decode_event bytes = None"
    proof (rule ccontr)
      assume "decode_event bytes \<noteq> None"
      then obtain e' n where d: "decode_event bytes = Some (e', n)" by (cases "decode_event bytes") auto
      from decode_event_Some(3)[OF d, of rest] dec[of "written es"] have "n = length ?enc" unfolding eq by auto
      with decode_event_Some(2)[OF d] True show False by simp
    qed
    then show ?thesis using True by (simp add: drain.simps Let_def)
  next
    case False
    then obtain bytes' where b: "bytes = ?enc @ bytes'"
      using eq by (metis append_eq_append_conv_if append_eq_conv_conj linorder_le_less_linear append_take_drop_id)
    with eq have "bytes' @ rest = written es" by simp
    with Cons.IH[of bytes'] Cons.prems(1) have "fst (drain bytes') = take (received (length bytes') es) es" by simp
    then show ?thesis using dec[of bytes'] by (auto simp: b drain.simps[of "?enc @ bytes'"] Let_def split: prod.splits)
  qed
qed

lemma read_events_drain: "read_events True chunks = fst (drain (concat (takeWhile (\<lambda>c. c \<noteq> []) chunks)))"
proof -
  have "drain [] = ([], [])" by (simp add: drain.simps decode_event_def HEADER_LEN_def)
  from read_loop_drain[OF this, of chunks "[]"] show ?thesis by (simp add: read_events_def split: prod.splits)
qed

lemma nonempty_chunks: "[] \<notin> set chunks \<Longrightarrow> takeWhile (\<lambda>c. c \<noteq> []) chunks = chunks"
  by (induction chunks) auto

lemma pipe_prefix:
  assumes "list_all fits es" "[] \<notin> set chunks" "concat chunks @ rest = written es"
  shows "read_events True chunks = take (received (length (concat chunks)) es) es"
  using drain_prefix[OF assms(1,3)] by (simp add: read_events_drain nonempty_chunks[OF assms(2)])

lemma received_all: "received (length (written es)) es = length es"
  by (induction es) (simp_all add: written_simps Let_def)

lemma pipe_whole:
  assumes "list_all fits es" "[] \<notin> set chunks" "concat chunks = written es"
  shows "read_events True chunks = es"
  using pipe_prefix[of es chunks "[]"] assms by (simp add: received_all)

text \<open>C21. However the pipe cuts the bytes into reads, the parent gets the events of the complete records, in order and
  unchanged, when every path has fewer than 65536 units; a connection that breaks within a record loses that
  record and nothing before it.\<close>

theorem pipe_delivers:
  assumes "list_all fits es" "[] \<notin> set chunks" "concat chunks @ rest = written es"
  shows "read_events True chunks = take (received (length (concat chunks)) es) es \<and>
    (if rest = [] then read_events True chunks = es else True)"
  using pipe_prefix[OF assms] pipe_whole[OF assms(1,2)] assms(3) by auto

definition ex_events :: "ustring AccessEvent list" where
  "ex_events = [Read [0x2F, 0x1F600] 7, Write [0x2F, 0x62] 0xDEADBEEF]"

definition ex_chunks :: "byte list list" where
  "ex_chunks = [take 3 (written ex_events), take 9 (drop 3 (written ex_events)), drop 12 (written ex_events)]"

lemma pipe_delivers_witness: "read_events True ex_chunks = ex_events"
proof -
  have fit: "list_all fits ex_events"
    by (simp add: ex_events_def fits_def event_path_def scalar_def encode_utf16_def encode_char_def)
  have "length (written ex_events) = 24"
    by (simp add: ex_events_def written_simps length_encoded HEADER_LEN_def event_path_def encode_utf16_def encode_char_def)
  then have ne: "[] \<notin> set ex_chunks" by (auto simp: ex_chunks_def)
  have "concat ex_chunks @ [] = written ex_events"
    unfolding ex_chunks_def using append_take_drop_id[of 9 "drop 3 (written ex_events)"] by simp
  from conjunct2[OF pipe_delivers[OF fit ne this]] show ?thesis by (simp only: refl if_True)
qed

text \<open>A path of 65536 units or more: its event arrives cut to the units that the 16 bits count, and when the next
  unit does not look like an operation code, no event after it arrives at all.\<close>

theorem long_path_cuts_stream:
  assumes "us = encode_utf16 (event_path e)" "0x10000 \<le> length us" "k = length us mod 0x10000"
    and "(ucast (us ! k) :: byte) \<notin> {OP_READ, OP_WRITE}"
    and "[] \<notin> set chunks" "concat chunks = written (e # es)"
  shows "read_events True chunks = [with_path (from_utf16_lossy (take k us)) e]"
proof -
  let ?later = "concat (map write_u16 (drop k us)) @ written es"
  have kl: "k < length us" using assms(2,3) by (simp add: mod_less_divisor order_less_le_trans)
  have k: "wire_units (event_path e) = k" using assms(1,3) by (simp add: wire_units_def)
  have dec: "decode_event (written (e # es)) = Some (with_path (from_utf16_lossy (take k us)) e, HEADER_LEN + k * 2)"
    using decode_encoded[of e "written es"] assms(1) by (simp add: written_simps k)
  have "concat (map write_u16 us) = concat (map write_u16 (take k us)) @ concat (map write_u16 (drop k us))"
    by (metis append_take_drop_id concat_append map_append)
  moreover obtain hd where "encode_event e [] = hd @ concat (map write_u16 us)" "length hd = HEADER_LEN"
    using assms(1) by (auto simp: encode_event_def event_path_def write_u32_def write_u16_def[of "word_of_nat _"] HEADER_LEN_def
        Let_def split: AccessEvent.splits)
  ultimately have after: "drop (HEADER_LEN + k * 2) (written (e # es)) = ?later"
    using kl length_written[of "take k us"] by (simp add: written_simps min_absorb2)
  have head: "?later ! 0 = ucast (us ! k)"
    using kl by (simp add: Cons_nth_drop_Suc[symmetric] write_u16_def)
  have "decode_event ?later = None"
  proof -
    have "record_event (take n l) = None" if "HEADER_LEN \<le> n" "l ! 0 = ucast (us ! k)" for n l
      using that assms(4) by (simp add: record_event_def Let_def HEADER_LEN_def)
    from this[OF _ head] show ?thesis unfolding decode_event_record by (simp add: record_length_def)
  qed
  then have "drain ?later = ([], ?later)" by (subst drain.simps) simp
  with dec after show ?thesis
    by (simp add: read_events_drain nonempty_chunks[OF assms(5)] assms(6) drain.simps[of "written (e # es)"])
qed

lemma encode_ascii: "encode_utf16 (replicate n 0x61) = replicate n 0x61"
  by (induction n) (simp_all add: encode_utf16_def encode_char_def)

lemma long_path_cuts_stream_witness:
  "read_events True [written [Read (replicate 0x10001 0x61) 1, Write [0x62] 1]] = [Read [0x61] 1]"
proof -
  let ?e = "Read (replicate 0x10001 0x61) 1 :: ustring AccessEvent"
  have us: "encode_utf16 (event_path ?e) = replicate 0x10001 0x61" unfolding event_path_def by (simp only: AccessEvent.case encode_ascii)
  have k: "(1::nat) = length (encode_utf16 (event_path ?e)) mod 0x10000" unfolding us by (simp only: length_replicate) simp
  have long: "0x10000 \<le> length (encode_utf16 (event_path ?e))" unfolding us by (simp only: length_replicate)
  have unit: "(ucast (encode_utf16 (event_path ?e) ! 1) :: byte) \<notin> {OP_READ, OP_WRITE}"
    unfolding us by (subst nth_replicate) (simp_all add: OP_READ_def OP_WRITE_def)
  have ne: "[] \<notin> set [written [?e, Write [0x62] 1]]"
    using length_encoded[of ?e] by (auto simp: written_simps HEADER_LEN_def)
  have cat: "concat [written [?e, Write [0x62] 1]] = written (?e # [Write [0x62] 1])" by simp
  have one: "take 1 (replicate 0x10001 0x61) = [0x61 :: unit16]" by (simp only: take_replicate) simp
  have char: "from_utf16_lossy [0x61] = [0x61]" by (simp add: high_surrogate_def low_surrogate_def)
  have "with_path (from_utf16_lossy (take 1 (encode_utf16 (event_path ?e)))) ?e = Read [0x61] 1"
    unfolding us one char by (simp only: with_path_def AccessEvent.case)
  with long_path_cuts_stream[OF refl long k unit ne cat] show ?thesis by (simp only:)
qed

end
