(* ===== verification/Sandbox_Run.thy ===== *)
theory Sandbox_Run
  imports Sandbox_Pipe
begin

text \<open>
  A sandboxed run: the path set made of the events (src/crates/sandbox/src/event.rs), the messages of the macOS
  library and the server that reads them (src/crates/sandbox-macos-dylib/src/client.rs, src/crates/sandbox/src/server.rs
  and macos.rs) and the injection into a suspended process on Windows (src/crates/sandbox/src/windows.rs).  The Win32
  calls are a record of their outcomes, and a run records what it opens and closes; the JSON parser, the processes
  and the sockets are parameters.
\<close>

section \<open>The path set\<close>

record 'p PathSet =
  pset_reads :: "'p list"
  pset_writes :: "'p list"

text \<open>A \<^verbatim>\<open>BTreeSet\<close> of paths compares them by their components, here a key, and keeps the first of two equal ones.\<close>

definition btree_paths :: "('p \<Rightarrow> 'k::linorder) \<Rightarrow> 'p list \<Rightarrow> 'p list" where
  "btree_paths key ps = dedup_key key (sort_key key ps)"

definition from_events :: "('p \<Rightarrow> 'k::linorder) \<Rightarrow> 'p AccessEvent list \<Rightarrow> 'p PathSet" where
  "from_events key es =
     \<lparr>pset_reads = btree_paths key (List.map_filter (\<lambda>e. case e of Read p _ \<Rightarrow> Some p | Write _ _ \<Rightarrow> None) es),
      pset_writes = btree_paths key (List.map_filter (\<lambda>e. case e of Write p _ \<Rightarrow> Some p | Read _ _ \<Rightarrow> None) es)\<rparr>"

lemma btree_paths_spec:
  "sorted_wrt (<) (map key (btree_paths key ps))" "key ` set (btree_paths key ps) = key ` set ps" "set (btree_paths key ps) \<subseteq> set ps"
  unfolding btree_paths_def
  using dedup_key_sorted[of key "sort_key key ps"] dedup_key_keys[of key "sort_key key ps"] dedup_key_set[of key "sort_key key ps"]
  by simp_all

record 'p RunResult =
  rr_exit_code :: int
  rr_path_set :: "'p PathSet"

section \<open>Messages of the macOS library\<close>

definition json_escape :: "string \<Rightarrow> string" where
  "json_escape s = replace_char (CHR 34) [CHR 92, CHR 34] (replace_char (CHR 92) [CHR 92, CHR 92] s)"

text \<open>The text sent for one call; \<^verbatim>\<open>pid\<close> is the decimal text of the process id.\<close>

definition event_message :: "string \<Rightarrow> string \<Rightarrow> string \<Rightarrow> string" where
  "event_message op path pid =
     ''{'' @ [CHR 34] @ ''op'' @ [CHR 34] @ '':'' @ [CHR 34] @ json_escape op @ [CHR 34] @ '','' @ [CHR 34] @ ''path'' @ [CHR 34] @ '':'' @
     [CHR 34] @ json_escape path @ [CHR 34] @ '','' @ [CHR 34] @ ''pid'' @ [CHR 34] @ '':'' @ pid @ ''}'' @ [newline]"

text \<open>The server parses one line at a time and drops what does not parse.\<close>

definition handle_client :: "(string \<Rightarrow> string AccessEvent option) \<Rightarrow> string \<Rightarrow> string AccessEvent list" where
  "handle_client parse text = List.map_filter parse (str_lines text)"

definition resolve_shell :: "(string \<Rightarrow> bool) \<Rightarrow> string" where
  "resolve_shell exists = (case List.find exists [''/opt/homebrew/bin/bash'', ''/usr/local/bin/bash''] of Some c \<Rightarrow> c | None \<Rightarrow> ''sh'')"

definition dylib_path :: "string option \<Rightarrow> string \<Rightarrow> string" where
  "dylib_path env built_in = (case env of Some v \<Rightarrow> v | None \<Rightarrow> built_in)"

section \<open>Injection on Windows\<close>

datatype Handle = Pipe | Process | Thread | RemoteThread | RemoteBuffer

datatype WinCall = Opened Handle | Closed Handle | Terminated | Resumed | Waited Handle

record Win =
  win_dll_env :: "string option"
  win_exe_dir :: "string option"
  win_exists :: "string \<Rightarrow> bool"
  win_pipe :: "string option"
  win_create_process :: "unit16 list \<Rightarrow> unit16 list \<Rightarrow> unit16 list \<Rightarrow> bool"
  win_alloc :: "nat \<Rightarrow> bool"
  win_write_memory :: bool
  win_remote_thread :: bool
  win_connect :: "bool option"
  win_reads :: "byte list list"
  win_exit :: "32 word"

definition find_dll_path :: "Win \<Rightarrow> string option" where
  "find_dll_path w = (case win_dll_env w of Some p \<Rightarrow> Some p | None \<Rightarrow> map_option (\<lambda>d. path_join d ''rage_sandbox.dll'') (win_exe_dir w))"

definition ustr :: "string \<Rightarrow> ustring" where
  "ustr s = map of_char s"

definition wide :: "string \<Rightarrow> unit16 list" where
  "wide s = encode_utf16 (ustr s) @ [0]"

definition win_env_block :: "(string \<times> string) list \<Rightarrow> unit16 list" where
  "win_env_block env = concat (map (\<lambda>(k, v). wide (k @ ''='' @ v)) env) @ [0]"

datatype WinError = DllMissing string | PipeFailed | CreateFailed | AllocFailed | WriteFailed

definition inject_and_spawn :: "Win \<Rightarrow> string \<Rightarrow> string \<Rightarrow> (string \<times> string) list \<Rightarrow> string \<Rightarrow> (WinError + unit) \<times> WinCall list" where
  "inject_and_spawn w cmd cwd env dll =
     (if \<not> win_create_process w (wide (''cmd /c '' @ cmd)) (win_env_block env) (wide cwd) then (Inl CreateFailed, [])
      else (let started = [Opened Process, Opened Thread] in
        if \<not> win_alloc w (length (wide dll) * 2)
        then (Inl AllocFailed, started @ [Terminated, Closed Process, Closed Thread])
        else if \<not> win_write_memory w
        then (Inl WriteFailed, started @ [Opened RemoteBuffer, Closed RemoteBuffer, Terminated, Closed Process, Closed Thread])
        else (Inr (), started @ [Opened RemoteBuffer] @
          (if win_remote_thread w then [Opened RemoteThread, Waited RemoteThread, Closed RemoteThread] else []) @
          [Closed RemoteBuffer, Resumed, Closed Thread])))"

text \<open>\<^verbatim>\<open>ConnectNamedPipe\<close> waits for the process to connect; it never returns when the library does not get there.\<close>

definition do_pipe_blocking :: "Win \<Rightarrow> (ustring AccessEvent list \<times> int) option \<times> WinCall list" where
  "do_pipe_blocking w =
     (case win_connect w of
        None \<Rightarrow> (None, [])
      | Some connected \<Rightarrow>
          (Some (read_events connected (win_reads w), sint (win_exit w)), [Waited Process, Closed Pipe, Closed Process]))"

definition run_sandboxed :: "(ustring \<Rightarrow> 'k::linorder) \<Rightarrow> Win \<Rightarrow> string \<Rightarrow> string \<Rightarrow> (string \<times> string) list \<Rightarrow>
    (WinError + ustring RunResult) option \<times> WinCall list" where
  "run_sandboxed key w cmd cwd env =
     (let dll = (case find_dll_path w of Some p \<Rightarrow> p | None \<Rightarrow> ''rage_sandbox.dll'') in
      if \<not> win_exists w dll then (Some (Inl (DllMissing dll)), [])
      else (case win_pipe w of
          None \<Rightarrow> (Some (Inl PipeFailed), [])
        | Some pipe_name \<Rightarrow> (case inject_and_spawn w cmd cwd (env @ [(''RAGE_PIPE_NAME'', pipe_name)]) dll of
              (Inl e, calls) \<Rightarrow> (Some (Inl e), Opened Pipe # calls)
            | (Inr _, calls) \<Rightarrow> (case do_pipe_blocking w of
                  (None, calls') \<Rightarrow> (None, Opened Pipe # calls @ calls')
                | (Some (events, exit_code), calls') \<Rightarrow>
                    (Some (Inr \<lparr>rr_exit_code = exit_code, rr_path_set = from_events key events\<rparr>), Opened Pipe # calls @ calls')))))"

section \<open>Handles\<close>

text \<open>The handles open after some calls; None when a call closes or waits for a handle that is not open.\<close>

fun open_after :: "WinCall list \<Rightarrow> Handle list \<Rightarrow> Handle list option" where
  "open_after [] hs = Some hs"
| "open_after (Opened h # cs) hs = (if h \<in> set hs then None else open_after cs (h # hs))"
| "open_after (Closed h # cs) hs = (if h \<in> set hs then open_after cs (remove1 h hs) else None)"
| "open_after (Waited h # cs) hs = (if h \<in> set hs then open_after cs hs else None)"
| "open_after (_ # cs) hs = (if Process \<in> set hs then open_after cs hs else None)"

text \<open>Every outcome of the Win32 calls: a run that returns a result has closed every handle once, resumed the process
  and waited for it, and reports the paths that were read from the pipe; one that fails has terminated a process it
  started and closed what it opened, except for the pipe; one whose process never connects does not return and holds
  the pipe and the process.\<close>

theorem windows_run_handles:
  "case run_sandboxed key w cmd cwd env of
     (Some (Inr r), calls) \<Rightarrow> open_after calls [] = Some [] \<and> Resumed \<in> set calls \<and> Waited Process \<in> set calls \<and> Terminated \<notin> set calls \<and>
       (\<exists>connected. win_connect w = Some connected \<and> rr_path_set r = from_events key (read_events connected (win_reads w)))
   | (Some (Inl e), calls) \<Rightarrow> open_after calls [] = Some (if calls = [] then [] else [Pipe]) \<and> Resumed \<notin> set calls \<and>
       (Opened Process \<in> set calls \<longleftrightarrow> Terminated \<in> set calls)
   | (None, calls) \<Rightarrow> win_connect w = None \<and> Resumed \<in> set calls \<and> open_after calls [] = Some [Process, Pipe]"
  by (auto simp: run_sandboxed_def inject_and_spawn_def do_pipe_blocking_def Let_def split: option.splits)

end
