(* ===== verification/Sandbox_Linux.thy ===== *)
theory Sandbox_Linux
  imports Sandbox_Run
begin

text \<open>
  The Linux sandbox: the program in the kernel that follows the processes of a task and writes a record for every
  openat of theirs (src/crates/sandbox-linux-ebpf-prog/src/main.rs), and the run that loads it, starts the task and
  reads the records (src/crates/sandbox-linux-ebpf/src/linux.rs).  What the kernel does is a list of events; whether
  the ring buffer has room for one more record, what a reserved slot held before, and what reading the ring gives
  are parameters.  Native integers are little-endian, as on the target of the program.
\<close>

section \<open>UTF-8\<close>

definition utf8_char :: "nat \<Rightarrow> nat list" where
  "utf8_char c = (if c < 0x80 then [c]
     else if c < 0x800 then [0xC0 + c div 64, 0x80 + c mod 64]
     else if c < 0x10000 then [0xE0 + c div 4096, 0x80 + c div 64 mod 64, 0x80 + c mod 64]
     else [0xF0 + c div 262144, 0x80 + c div 4096 mod 64, 0x80 + c div 64 mod 64, 0x80 + c mod 64])"

definition to_utf8 :: "ustring \<Rightarrow> byte list" where
  "to_utf8 s = map word_of_nat (concat (map utf8_char s))"

definition continuation :: "nat \<Rightarrow> bool" where
  "continuation b \<longleftrightarrow> 0x80 \<le> b \<and> b < 0xC0"

abbreviation opt_cons :: "'a \<Rightarrow> 'a list option \<Rightarrow> 'a list option" where
  "opt_cons x r \<equiv> map_option (\<lambda>xs. x # xs) r"

fun utf8_scalars :: "nat list \<Rightarrow> ustring option" where
  "utf8_scalars [] = Some []"
| "utf8_scalars (a # r) =
     (if a < 0x80 then opt_cons a (utf8_scalars r)
      else if 0xC2 \<le> a \<and> a < 0xE0 then
        (case r of b # r' \<Rightarrow> if continuation b then opt_cons ((a - 0xC0) * 64 + (b - 0x80)) (utf8_scalars r') else None | _ \<Rightarrow> None)
      else if 0xE0 \<le> a \<and> a < 0xF0 then
        (case r of b # c # r' \<Rightarrow>
           (let v = (a - 0xE0) * 4096 + (b - 0x80) * 64 + (c - 0x80) in
            if continuation b \<and> continuation c \<and> 0x800 \<le> v \<and> scalar v then opt_cons v (utf8_scalars r') else None)
         | _ \<Rightarrow> None)
      else if 0xF0 \<le> a \<and> a < 0xF5 then
        (case r of b # c # d # r' \<Rightarrow>
           (let v = (a - 0xF0) * 262144 + (b - 0x80) * 4096 + (c - 0x80) * 64 + (d - 0x80) in
            if continuation b \<and> continuation c \<and> continuation d \<and> 0x10000 \<le> v \<and> scalar v then opt_cons v (utf8_scalars r') else None)
         | _ \<Rightarrow> None)
      else None)"

definition from_utf8 :: "byte list \<Rightarrow> ustring option" where
  "from_utf8 bs = utf8_scalars (map unat bs)"

lemma utf8_char_bounds: "scalar c \<Longrightarrow> b \<in> set (utf8_char c) \<Longrightarrow> b < 256"
  by (auto simp: utf8_char_def scalar_def split: if_splits)

lemma two_bytes: "64 * (c div 64) + c mod 64 = (c :: nat)"
  by simp

lemma three_bytes: "4096 * (c div 4096) + 64 * (c div 64 mod 64) + c mod 64 = (c :: nat)"
proof -
  have "c div 4096 = c div 64 div 64" by (simp add: div_mult2_eq[symmetric])
  then show ?thesis using two_bytes[of c] two_bytes[of "c div 64"] by linarith
qed

lemma utf8_scalars_char:
  assumes "scalar c"
  shows "utf8_scalars (utf8_char c @ r) = opt_cons c (utf8_scalars r)"
proof -
  consider "c < 0x80" | "0x80 \<le> c" "c < 0x800" | "0x800 \<le> c" "c < 0x10000" | "0x10000 \<le> c" "c < 0x110000"
    using assms unfolding scalar_def by linarith
  then show ?thesis
  proof cases
    case 1
    then show ?thesis by (simp add: utf8_char_def)
  next
    case 2
    then have "2 \<le> c div 64" "c div 64 < 32" by auto
    with 2 two_bytes[of c] show ?thesis by (simp add: utf8_char_def continuation_def)
  next
    case 3
    then have "c div 4096 < 16" by auto
    with 3 three_bytes[of c] assms show ?thesis by (simp add: utf8_char_def continuation_def mult.commute)
  next
    case 4
    then have "c div 262144 < 5" by auto
    moreover have "262144 * (c div 262144) + 4096 * (c div 4096 mod 64) + 64 * (c div 64 mod 64) + c mod 64 = c"
    proof -
      have "c div 262144 = c div 4096 div 64" by (simp add: div_mult2_eq[symmetric])
      then show ?thesis using three_bytes[of c] two_bytes[of "c div 4096"] by linarith
    qed
    ultimately show ?thesis using 4 assms by (simp add: utf8_char_def continuation_def mult.commute)
  qed
qed

lemma utf8_roundtrip:
  assumes "list_all scalar s"
  shows "from_utf8 (to_utf8 s) = Some s"
proof -
  have "utf8_scalars (concat (map utf8_char s)) = Some s"
    using assms by (induction s) (simp_all add: utf8_scalars_char)
  moreover have "map unat (map (word_of_nat :: nat \<Rightarrow> byte) (concat (map utf8_char s))) = concat (map utf8_char s)"
    using assms utf8_char_bounds by (force intro!: map_idI simp: list_all_iff unat_of_nat)
  ultimately show ?thesis by (simp add: from_utf8_def to_utf8_def)
qed

section \<open>The program in the kernel\<close>

type_synonym pid = "32 word"

text \<open>The file name of an openat is what reading it from user space gives; \<^verbatim>\<open>slot\<close> is what the reserved record held.
  The process of an openat and of an exit is the thread group of the current thread.\<close>

datatype KEvent = Openat pid "byte list option" "64 word" "byte list" | Fork pid pid | Exit pid

record Kernel =
  k_watched :: "pid list"
  k_reserved :: nat
  k_ring :: "byte list list"

definition MAX_WATCHED :: nat where "MAX_WATCHED = 4096"
definition EVENT_SIZE :: nat where "EVENT_SIZE = 4 + 1 + 3 + 4 + 4096"
definition EBPF_READ :: byte where "EBPF_READ = 0"
definition EBPF_WRITE :: byte where "EBPF_WRITE = 1"

definition is_write_flags :: "64 word \<Rightarrow> bool" where
  "is_write_flags flags = (flags AND (1 OR 2 OR 64 OR 512) \<noteq> 0)"

definition event_entry :: "byte list \<Rightarrow> pid \<Rightarrow> byte \<Rightarrow> byte list \<Rightarrow> byte list" where
  "event_entry slot pid op s =
     write_u32 pid @ [op] @ take 3 (drop 5 slot) @ write_u32 (word_of_nat (length s)) @ s @ drop (12 + length s) slot"

text \<open>A record whose name cannot be read is discarded, which still takes its room.\<close>

definition try_emit :: "(nat \<Rightarrow> bool) \<Rightarrow> pid \<Rightarrow> byte list option \<Rightarrow> byte \<Rightarrow> byte list \<Rightarrow> Kernel \<Rightarrow> Kernel" where
  "try_emit room pid path op slot k =
     (if pid \<notin> set (k_watched k) then k
      else if \<not> room (k_reserved k) then k
      else (case path of
          Some s \<Rightarrow> k\<lparr>k_reserved := k_reserved k + 1, k_ring := k_ring k @ [event_entry slot pid op s]\<rparr>
        | None \<Rightarrow> k\<lparr>k_reserved := k_reserved k + 1\<rparr>))"

definition watch :: "pid \<Rightarrow> Kernel \<Rightarrow> Kernel" where
  "watch p k = (if p \<in> set (k_watched k) \<or> length (k_watched k) < MAX_WATCHED then k\<lparr>k_watched := set_insert p (k_watched k)\<rparr> else k)"

fun kernel_step :: "(nat \<Rightarrow> bool) \<Rightarrow> KEvent \<Rightarrow> Kernel \<Rightarrow> Kernel" where
  "kernel_step room (Openat pid path flags slot) k = try_emit room pid path (if is_write_flags flags then EBPF_WRITE else EBPF_READ) slot k"
| "kernel_step room (Fork parent child) k = (if parent \<in> set (k_watched k) then watch child k else k)"
| "kernel_step room (Exit pid) k = k\<lparr>k_watched := removeAll pid (k_watched k)\<rparr>"

definition kernel_run :: "(nat \<Rightarrow> bool) \<Rightarrow> KEvent list \<Rightarrow> Kernel \<Rightarrow> Kernel" where
  "kernel_run room evs k = fold (kernel_step room) evs k"

definition loaded :: Kernel where
  "loaded = \<lparr>k_watched = [], k_reserved = 0, k_ring = []\<rparr>"

section \<open>Reading the records\<close>

record ParsedEvent =
  pe_pid :: pid
  pe_op :: byte
  pe_path :: "byte list"

definition parse_event :: "byte list \<Rightarrow> ParsedEvent option" where
  "parse_event data =
     (if length data < 4 + 1 + 3 + 4 then None
      else (let path_len = unat (read_u32 (data ! 8) (data ! 9) (data ! 10) (data ! 11));
                path_start = 12;
                path_end = path_start + min (min path_len 4096) (length data - path_start) in
        if length data < path_end then None
        else Some \<lparr>pe_pid = read_u32 (data ! 0) (data ! 1) (data ! 2) (data ! 3), pe_op = data ! 4,
          pe_path = take (path_end - path_start) (drop path_start data)\<rparr>))"

definition event_text :: "byte list \<Rightarrow> ustring option" where
  "event_text bs = Option.bind (from_utf8 bs) (\<lambda>s.
     let t = rev (dropWhile (\<lambda>c. c = 0) (rev s)) in if t = [] then None else Some t)"

text \<open>What reading the ring gives until the first timeout, as sets still in the order of their insertions.\<close>

fun drain_ring_buf :: "byte list option list \<Rightarrow> ustring list \<Rightarrow> ustring list \<Rightarrow> ustring list \<times> ustring list" where
  "drain_ring_buf [] reads writes = (reads, writes)"
| "drain_ring_buf (None # _) reads writes = (reads, writes)"
| "drain_ring_buf (Some data # rest) reads writes =
     (if data = [] then (reads, writes)
      else (case parse_event data of
          None \<Rightarrow> drain_ring_buf rest reads writes
        | Some event \<Rightarrow> (case event_text (pe_path event) of
              None \<Rightarrow> drain_ring_buf rest reads writes
            | Some p \<Rightarrow> if pe_op event = 0 then drain_ring_buf rest (reads @ [p]) writes
                else drain_ring_buf rest reads (writes @ [p]))))"

section \<open>The run\<close>

datatype EbpfError = LoadFailed | AttachFailed string | SpawnFailed | NoPid | InsertFailed | NoEventsMap | WaitFailed

text \<open>The outcomes of the calls, what happens before and after the process is entered as watched, and what the ring
  gives; \<^verbatim>\<open>lx_wait\<close> has no code when a signal ended the process.\<close>

record Linux =
  lx_load :: bool
  lx_attach :: "string \<Rightarrow> bool"
  lx_spawn :: "pid option option"
  lx_before :: "KEvent list"
  lx_insert :: bool
  lx_events_map :: bool
  lx_during :: "KEvent list"
  lx_wait :: "int option option"
  lx_room :: "nat \<Rightarrow> bool"
  lx_readable :: "byte list list \<Rightarrow> byte list option list"

definition tracepoints :: "string list" where
  "tracepoints = [''sys_enter_openat'', ''sched_process_fork'', ''sched_process_exit'']"

definition run_sandboxed_linux :: "(ustring \<Rightarrow> 'k::linorder) \<Rightarrow> Linux \<Rightarrow> EbpfError + ustring RunResult" where
  "run_sandboxed_linux key L =
     (if \<not> lx_load L then Inl LoadFailed
      else (case List.find (\<lambda>name. \<not> lx_attach L name) tracepoints of
        Some name \<Rightarrow> Inl (AttachFailed name)
      | None \<Rightarrow> (case lx_spawn L of
        None \<Rightarrow> Inl SpawnFailed
      | Some None \<Rightarrow> Inl NoPid
      | Some (Some pid) \<Rightarrow>
          if \<not> lx_insert L then Inl InsertFailed
          else if \<not> lx_events_map L then Inl NoEventsMap
          else (case lx_wait L of
            None \<Rightarrow> Inl WaitFailed
          | Some code \<Rightarrow>
              (let k = kernel_run (lx_room L) (lx_during L) (watch pid (kernel_run (lx_room L) (lx_before L) loaded)) in
               case drain_ring_buf (lx_readable L (k_ring k)) [] [] of (reads, writes) \<Rightarrow>
                 Inr \<lparr>rr_exit_code = (case code of Some c \<Rightarrow> c | None \<Rightarrow> -1),
                   rr_path_set = \<lparr>pset_reads = btree_paths key reads, pset_writes = btree_paths key writes\<rparr>\<rparr>)))))"

section \<open>Which processes are followed\<close>

text \<open>The processes that descend from the task and have not ended, by the events since the task was entered.\<close>

inductive tracked :: "pid \<Rightarrow> KEvent list \<Rightarrow> pid \<Rightarrow> bool" for root where
  tracked_root: "tracked root [] root"
| tracked_fork: "tracked root evs p \<Longrightarrow> tracked root (evs @ [Fork p c]) c"
| tracked_stays: "tracked root evs p \<Longrightarrow> e \<noteq> Exit p \<Longrightarrow> tracked root (evs @ [e]) p"

inductive_cases tracked_NilE: "tracked root [] p"

lemma tracked_Nil: "tracked root [] p = (p = root)"
  using tracked.tracked_root by (auto elim: tracked_NilE)

lemma tracked_snoc:
  "tracked root (evs @ [e]) p \<longleftrightarrow> (\<exists>q. e = Fork q p \<and> tracked root evs q) \<or> (tracked root evs p \<and> e \<noteq> Exit p)"
  by (auto intro: tracked.intros elim: tracked.cases)

definition forks :: "KEvent list \<Rightarrow> nat" where
  "forks evs = length (filter (\<lambda>e. case e of Fork _ _ \<Rightarrow> True | _ \<Rightarrow> False) evs)"

definition openats :: "KEvent list \<Rightarrow> nat" where
  "openats evs = length (filter (\<lambda>e. case e of Openat _ _ _ _ \<Rightarrow> True | _ \<Rightarrow> False) evs)"

lemma kernel_run_snoc: "kernel_run room (evs @ [e]) k = kernel_step room e (kernel_run room evs k)"
  by (simp add: kernel_run_def)

lemma try_emit_watched [simp]: "k_watched (try_emit room pid path op slot k) = k_watched k"
  by (simp add: try_emit_def split: option.split)

lemma try_emit_reserved: "k_reserved (try_emit room pid path op slot k) \<le> Suc (k_reserved k)"
  by (simp add: try_emit_def split: option.split)

lemma set_insert_length: "length (set_insert x xs) \<le> Suc (length xs)"
  by (simp add: set_insert_def)

lemma watched_count:
  "length (k_watched (kernel_run room evs k)) \<le> length (k_watched k) + forks evs"
proof (induction evs rule: rev_induct)
  case Nil
  show ?case by (simp add: kernel_run_def)
next
  case (snoc e evs)
  let ?k = "kernel_run room evs k"
  show ?case
  proof (cases e)
    case (Fork p c)
    then show ?thesis using snoc set_insert_length[of c "k_watched ?k"]
      by (auto simp: kernel_run_snoc forks_def watch_def intro: order_trans)
  next
    case (Exit p)
    then show ?thesis using snoc
      by (auto simp: kernel_run_snoc forks_def intro: le_trans[OF length_removeAll_less_eq])
  qed (use snoc in \<open>simp_all add: kernel_run_snoc forks_def\<close>)
qed

lemma reserved_count: "k_reserved (kernel_run room evs k) \<le> k_reserved k + openats evs"
proof (induction evs rule: rev_induct)
  case Nil
  show ?case by (simp add: kernel_run_def)
next
  case (snoc e evs)
  show ?case
  proof (cases e)
    case (Openat q s flags slot)
    then show ?thesis
      using snoc try_emit_reserved[of room q s "if is_write_flags flags then EBPF_WRITE else EBPF_READ" slot "kernel_run room evs k"]
      by (simp add: kernel_run_snoc openats_def)
  qed (use snoc in \<open>simp_all add: kernel_run_snoc openats_def watch_def\<close>)
qed

lemma watched_tracked:
  assumes "k_watched k = [root]" "forks evs < MAX_WATCHED"
  shows "p \<in> set (k_watched (kernel_run room evs k)) \<longleftrightarrow> tracked root evs p"
  using assms(2)
proof (induction evs arbitrary: p rule: rev_induct)
  case Nil
  show ?case using assms(1) by (simp add: kernel_run_def tracked_Nil)
next
  case (snoc e evs)
  let ?k = "kernel_run room evs k"
  have few: "forks evs < MAX_WATCHED" using snoc.prems by (simp add: forks_def split: if_splits)
  note IH = snoc.IH[OF few]
  show ?case
  proof (cases e)
    case (Fork q c)
    then have "length (k_watched ?k) < MAX_WATCHED"
      using snoc.prems watched_count[of room evs k] assms(1) by (simp add: forks_def)
    then show ?thesis using IH Fork by (auto simp: kernel_run_snoc tracked_snoc watch_def)
  qed (use IH in \<open>auto simp: kernel_run_snoc tracked_snoc\<close>)
qed

section \<open>Which records are written\<close>

text \<open>The records: one for every openat of a followed process whose name could be read.\<close>

definition entry_at :: "KEvent list \<Rightarrow> nat \<Rightarrow> byte list option" where
  "entry_at evs i = (case evs ! i of
     Openat q (Some s) flags slot \<Rightarrow> Some (event_entry slot q (if is_write_flags flags then EBPF_WRITE else EBPF_READ) s)
   | _ \<Rightarrow> None)"

definition opener :: "KEvent \<Rightarrow> pid" where
  "opener e = (case e of Openat q _ _ _ \<Rightarrow> q | _ \<Rightarrow> 0)"

lemma ring_entries:
  assumes "k_watched k = [root]" "k_ring k = []" "k_reserved k = 0" "forks evs < MAX_WATCHED" "\<forall>n < openats evs. room n"
  shows "x \<in> set (k_ring (kernel_run room evs k)) \<longleftrightarrow>
    (\<exists>i < length evs. entry_at evs i = Some x \<and> tracked root (take i evs) (opener (evs ! i)))"
  using assms(4,5)
proof (induction evs rule: rev_induct)
  case Nil
  show ?case using assms(2) by (simp add: kernel_run_def)
next
  case (snoc e evs)
  let ?k = "kernel_run room evs k"
  have few: "forks evs < MAX_WATCHED" "\<forall>n < openats evs. room n"
    using snoc.prems by (simp_all add: forks_def openats_def split: if_splits KEvent.splits)
  have old: "(\<exists>i < length evs. entry_at (evs @ [e]) i = Some x \<and> tracked root (take i (evs @ [e])) (opener ((evs @ [e]) ! i))) \<longleftrightarrow>
      x \<in> set (k_ring ?k)"
    using snoc.IH[OF few] by (auto simp: entry_at_def nth_append)
  have split: "(\<exists>i < length (evs @ [e]). P i) \<longleftrightarrow> (\<exists>i < length evs. P i) \<or> P (length evs)" for P
    by (auto simp: less_Suc_eq)
  show ?case
  proof (cases e)
    case (Openat q path flags slot)
    have "k_reserved ?k < openats (evs @ [e])"
      using reserved_count[of room evs k] assms(3) Openat by (simp add: openats_def)
    then have "room (k_reserved ?k)" using snoc.prems(2) by blast
    then show ?thesis
      unfolding split old using Openat watched_tracked[OF assms(1) few(1), of q room]
      by (auto simp: kernel_run_snoc try_emit_def entry_at_def opener_def split: option.splits)
  qed (unfold split old, simp_all add: kernel_run_snoc entry_at_def watch_def)
qed

section \<open>From the kernel to the path set\<close>

lemma write_u32_length [simp]: "length (write_u32 w) = 4"
  by (simp add: write_u32_def)

lemma event_entry_length:
  "length slot = EVENT_SIZE \<Longrightarrow> length s \<le> 4096 \<Longrightarrow> length (event_entry slot q op s) = EVENT_SIZE"
  by (simp add: event_entry_def EVENT_SIZE_def)

lemma length_3: "length l = 3 \<Longrightarrow> \<exists>x y z. l = [x, y, z]"
  by (auto simp: numeral_3_eq_3 length_Suc_conv)

text \<open>Whatever the reserved slot held, the parser gets back what the program wrote.\<close>

lemma parse_event_entry:
  assumes "length slot = EVENT_SIZE" "length s \<le> 4096"
  shows "parse_event (event_entry slot q op s) = Some \<lparr>pe_pid = q, pe_op = op, pe_path = s\<rparr>"
proof -
  obtain a b c d where q: "write_u32 q = [a, b, c, d]" by (simp add: write_u32_def)
  then have rq: "read_u32 a b c d = q" by (auto simp: write_u32_def)
  obtain e f g h where n: "write_u32 (word_of_nat (length s)) = [e, f, g, h]" by (simp add: write_u32_def)
  then have "read_u32 e f g h = word_of_nat (length s)" by (auto simp: write_u32_def)
  then have rn: "unat (read_u32 e f g h) = length s" using assms(2) by (simp add: unat_of_nat)
  have "length (take 3 (drop 5 slot)) = 3" using assms(1) by (simp add: EVENT_SIZE_def)
  from length_3[OF this] obtain x y z where t: "take 3 (drop 5 slot) = [x, y, z]" by blast
  have "length (event_entry slot q op s) = 4108" using event_entry_length[OF assms] by (simp add: EVENT_SIZE_def)
  moreover have entry: "event_entry slot q op s = [a, b, c, d, op, x, y, z, e, f, g, h] @ s @ drop (12 + length s) slot"
    by (simp add: event_entry_def q n t)
  ultimately show ?thesis
    using assms(2) by (simp add: parse_event_def Let_def rq rn entry)
qed

definition ring_text :: "bool \<Rightarrow> byte list \<Rightarrow> ustring option" where
  "ring_text w x = Option.bind (parse_event x) (\<lambda>ev. if (pe_op ev \<noteq> 0) = w then event_text (pe_path ev) else None)"

lemma parse_event_Nil [simp]: "parse_event [] = None"
  by (simp add: parse_event_def)

lemma drain_ring:
  assumes "list_all (\<lambda>x. parse_event x \<noteq> None) ring"
  shows "drain_ring_buf (map Some ring @ None # rest) reads writes =
    (reads @ List.map_filter (ring_text False) ring, writes @ List.map_filter (ring_text True) ring)"
  using assms by (induction ring arbitrary: reads writes) (auto simp: ring_text_def split: option.splits)

lemma drain_ring_count:
  assumes "drain_ring_buf (map Some ring @ None # rest) reads writes = (reads', writes')"
  shows "length reads' + length writes' \<le> length reads + length writes + length ring"
  using assms by (induction ring arbitrary: reads writes) (fastforce split: option.splits if_splits)+

lemma kernel_unwatched: "kernel_run room evs loaded = loaded"
proof (induction evs rule: rev_induct)
  case (snoc e evs)
  then show ?case by (cases e) (simp_all add: kernel_run_snoc, simp_all add: loaded_def try_emit_def)
qed (simp add: kernel_run_def)

lemma watch_loaded: "k_watched (watch root loaded) = [root]" "k_ring (watch root loaded) = []" "k_reserved (watch root loaded) = 0"
  by (simp_all add: watch_def loaded_def set_insert_def MAX_WATCHED_def)

text \<open>The paths opened for reading, or for writing, by a followed process.\<close>

definition opens :: "pid set \<Rightarrow> KEvent \<Rightarrow> bool \<Rightarrow> ustring \<Rightarrow> bool" where
  "opens S e w p = (case e of
     Openat q (Some s) flags slot \<Rightarrow> q \<in> S \<and> event_text s = Some p \<and> is_write_flags flags = w | _ \<Rightarrow> False)"

definition opened :: "pid \<Rightarrow> KEvent list \<Rightarrow> bool \<Rightarrow> ustring set" where
  "opened root evs w = {p. \<exists>i < length evs. opens {q. tracked root (take i evs) q} (evs ! i) w p}"

definition slots_ok :: "KEvent list \<Rightarrow> bool" where
  "slots_ok evs = list_all (\<lambda>e. case e of
     Openat q path flags slot \<Rightarrow> length slot = EVENT_SIZE \<and> (case path of Some s \<Rightarrow> length s \<le> 4096 | None \<Rightarrow> True) | _ \<Rightarrow> True) evs"

lemma entry_text:
  assumes "slots_ok evs" "i < length evs" "entry_at evs i = Some x"
  shows "\<exists>q s flags slot. evs ! i = Openat q (Some s) flags slot \<and> parse_event x \<noteq> None \<and>
    ring_text w x = (if is_write_flags flags = w then event_text s else None)"
proof -
  from assms(3) obtain q s flags slot where e: "evs ! i = Openat q (Some s) flags slot"
    and x: "x = event_entry slot q (if is_write_flags flags then EBPF_WRITE else EBPF_READ) s"
    by (auto simp: entry_at_def split: KEvent.splits option.splits)
  have "length slot = EVENT_SIZE" "length s \<le> 4096" using assms(1,2) e by (auto simp: slots_ok_def list_all_length)
  from parse_event_entry[OF this] show ?thesis
    using e by (auto simp: x ring_text_def EBPF_WRITE_def EBPF_READ_def)
qed

lemma ring_opened:
  fixes root :: pid
  assumes "forks evs < MAX_WATCHED" "\<forall>n < openats evs. room n" "slots_ok evs"
  defines "ring \<equiv> k_ring (kernel_run room evs (watch root loaded))"
  shows "list_all (\<lambda>x. parse_event x \<noteq> None) ring" "set (List.map_filter (ring_text w) ring) = opened root evs w"
proof -
  note ring = ring_entries[OF watch_loaded[of root] assms(1,2), folded ring_def]
  show "list_all (\<lambda>x. parse_event x \<noteq> None) ring"
    unfolding list_all_iff
  proof
    fix x assume "x \<in> set ring"
    then obtain i where "i < length evs" "entry_at evs i = Some x" using ring by blast
    then show "parse_event x \<noteq> None" using entry_text[OF assms(3)] by blast
  qed
  show "set (List.map_filter (ring_text w) ring) = opened root evs w"
  proof (intro set_eqI iffI)
    fix p assume "p \<in> set (List.map_filter (ring_text w) ring)"
    then obtain x i where x: "ring_text w x = Some p" "i < length evs" "entry_at evs i = Some x" "tracked root (take i evs) (opener (evs ! i))"
      by (auto simp: in_set_map_filter ring)
    then show "p \<in> opened root evs w"
      using entry_text[OF assms(3) x(2,3), of w] by (auto simp: opened_def opens_def opener_def split: if_splits)
  next
    fix p assume "p \<in> opened root evs w"
    then obtain i where i: "i < length evs" "opens {q. tracked root (take i evs) q} (evs ! i) w p"
      by (auto simp: opened_def)
    then obtain q s flags slot where "evs ! i = Openat q (Some s) flags slot" "tracked root (take i evs) q"
        "event_text s = Some p" "is_write_flags flags = w"
      by (cases "evs ! i") (auto simp: opens_def split: option.splits)
    note i = i(1) this
    then obtain x where x: "entry_at evs i = Some x" by (simp add: entry_at_def)
    with i have "x \<in> set ring" by (auto simp: ring opener_def)
    moreover have "ring_text w x = Some p" using entry_text[OF assms(3) i(1) x, of w] i by auto
    ultimately show "p \<in> set (List.map_filter (ring_text w) ring)" by (auto simp: in_set_map_filter)
  qed
qed

lemma linux_run_result:
  assumes "run_sandboxed_linux key L = Inr r" "lx_spawn L = Some (Some root)"
  shows "\<exists>reads writes. drain_ring_buf (lx_readable L (k_ring (kernel_run (lx_room L) (lx_during L) (watch root loaded)))) [] [] = (reads, writes) \<and>
    rr_path_set r = \<lparr>pset_reads = btree_paths key reads, pset_writes = btree_paths key writes\<rparr>"
  using assms by (auto simp: run_sandboxed_linux_def Let_def kernel_unwatched split: if_splits option.splits prod.splits)


section \<open>What is lost\<close>

lemma ring_length: "length (k_ring (kernel_run room evs k)) + k_reserved k \<le> k_reserved (kernel_run room evs k) + length (k_ring k)"
proof (induction evs rule: rev_induct)
  case (snoc e evs)
  then show ?case by (cases e) (simp_all add: kernel_run_snoc try_emit_def watch_def split: option.split)
qed (simp add: kernel_run_def)

lemma reserved_room:
  assumes "\<forall>n. cap \<le> n \<longrightarrow> \<not> room n" "k_reserved k \<le> cap"
  shows "k_reserved (kernel_run room evs k) \<le> cap"
proof (induction evs rule: rev_induct)
  case (snoc e evs)
  have "k_reserved (try_emit room pid path op slot (kernel_run room evs k)) \<le> cap" for pid path op slot
    using snoc assms(1) by (auto simp: try_emit_def not_le[symmetric] split: option.split) (metis not_less_eq_eq le_antisym)+
  then show ?case using snoc by (cases e) (simp_all add: kernel_run_snoc watch_def)
qed (use assms(2) in \<open>simp add: kernel_run_def\<close>)

lemma dedup_key_length: "length (dedup_key f xs) \<le> length xs"
  by (induction f xs rule: dedup_key.induct) auto

lemma btree_paths_length: "length (btree_paths key ps) \<le> length ps"
  using dedup_key_length[of key "sort_key key ps"] by (simp add: btree_paths_def)

lemma run_before: "run_sandboxed_linux key (L\<lparr>lx_before := evs\<rparr>) = run_sandboxed_linux key L"
  by (simp add: run_sandboxed_linux_def kernel_unwatched Let_def split: option.split)


definition opened_by :: "pid \<Rightarrow> KEvent \<Rightarrow> bool" where
  "opened_by q e = (case e of Openat q' _ _ _ \<Rightarrow> q' = q | _ \<Rightarrow> False)"

definition forked_to :: "pid \<Rightarrow> KEvent \<Rightarrow> bool" where
  "forked_to q e = (case e of Fork _ q' \<Rightarrow> q' = q | _ \<Rightarrow> False)"

lemma kernel_run_blind:
  assumes "q \<notin> set (k_watched k)" "\<not> list_ex (forked_to q) evs"
  shows "kernel_run room evs k = kernel_run room (filter (\<lambda>e. \<not> opened_by q e) evs) k"
  using assms
proof (induction evs arbitrary: k)
  case (Cons e evs)
  have same: "kernel_step room e k = k" if "opened_by q e"
    using that Cons.prems(1) by (cases e) (simp_all add: opened_by_def try_emit_def)
  have "q \<notin> set (k_watched (kernel_step room e k))"
    using Cons.prems by (cases e) (auto simp: forked_to_def watch_def)
  then have "kernel_run room evs (kernel_step room e k) = kernel_run room (filter (\<lambda>e. \<not> opened_by q e) evs) (kernel_step room e k)"
    using Cons.IH Cons.prems(2) by simp
  then show ?case using same by (simp add: kernel_run_def)
qed (simp add: kernel_run_def)

lemma exit_blinds:
  assumes "\<not> list_ex (forked_to q) post"
  shows "kernel_run room (pre @ Exit q # post) k = kernel_run room (pre @ Exit q # filter (\<lambda>e. \<not> opened_by q e) post) k"
  using kernel_run_blind[OF _ assms, of "kernel_step room (Exit q) (kernel_run room pre k)" room]
  by (simp add: kernel_run_def)

text \<open>A process is taken off the watched ones when any of its threads ends, since the exit is entered under the
  thread group: from then on nothing it opens is reported, until it is forked again.\<close>

theorem thread_exit_blinds:
  assumes "\<not> list_ex (forked_to q) post"
  shows "run_sandboxed_linux key (L\<lparr>lx_during := pre @ Exit q # post\<rparr>) =
    run_sandboxed_linux key (L\<lparr>lx_during := pre @ Exit q # filter (\<lambda>e. \<not> opened_by q e) post\<rparr>)"
  using exit_blinds[OF assms, of "lx_room L" pre] by (simp add: run_sandboxed_linux_def Let_def split: option.split)

section \<open>An example\<close>

fun follow_pids :: "KEvent \<Rightarrow> pid set \<Rightarrow> pid set" where
  "follow_pids (Fork p c) S = (if p \<in> S then insert c S else S)"
| "follow_pids (Exit p) S = S - {p}"
| "follow_pids (Openat _ _ _ _) S = S"

lemma tracked_follow_pids: "tracked root evs p \<longleftrightarrow> p \<in> fold follow_pids evs {root}"
proof (induction evs arbitrary: p rule: rev_induct)
  case (snoc e evs)
  then show ?case by (cases e) (auto simp: tracked_snoc)
qed (simp add: tracked_Nil)

fun opens_from :: "pid set \<Rightarrow> KEvent list \<Rightarrow> bool \<Rightarrow> ustring list" where
  "opens_from S [] w = []"
| "opens_from S (e # es) w = (case e of
     Openat q (Some s) flags slot \<Rightarrow> (case event_text s of Some p \<Rightarrow> if q \<in> S \<and> is_write_flags flags = w then [p] else [] | None \<Rightarrow> [])
   | _ \<Rightarrow> []) @ opens_from (follow_pids e S) es w"

lemma opens_from_set:
  "set (opens_from S evs w) = {p. \<exists>i < length evs. opens (fold follow_pids (take i evs) S) (evs ! i) w p}"
proof (induction evs arbitrary: S)
  case (Cons e es)
  have "set (opens_from S (e # es) w) = {p. opens S e w p} \<union> set (opens_from (follow_pids e S) es w)"
    by (cases e) (auto simp: opens_def split: option.splits)
  then show ?case unfolding Cons by (simp add: Ex_less_Suc2 Collect_disj_eq)
qed simp

lemma opened_opens_from: "opened root evs w = set (opens_from {root} evs w)"
  by (simp add: opens_from_set opened_def tracked_follow_pids)

lemma event_text_utf8:
  assumes "list_all scalar p" "p \<noteq> []" "last p \<noteq> 0"
  shows "event_text (to_utf8 p) = Some p"
proof -
  obtain q x where p: "p = q @ [x]" using assms(2) by (cases p rule: rev_cases) auto
  then have "x \<noteq> 0" using assms(3) by simp
  then show ?thesis using utf8_roundtrip[OF assms(1)] by (simp add: event_text_def p)
qed

definition ex_open :: "pid \<Rightarrow> nat \<Rightarrow> 64 word \<Rightarrow> KEvent" where
  "ex_open q c flags = Openat q (Some (to_utf8 [0x2F, c])) flags (replicate EVENT_SIZE 0xFF)"

definition ex_during :: "KEvent list" where
  "ex_during = [ex_open 7 0x61 0, Fork 7 8, ex_open 8 0x1F600 65, Exit 8, ex_open 8 0x63 0, ex_open 9 0x64 0]"

definition ex_linux :: "nat \<Rightarrow> Linux" where
  "ex_linux cap = \<lparr>lx_load = True, lx_attach = (\<lambda>_. True), lx_spawn = Some (Some 7), lx_before = [ex_open 7 0x65 0], lx_insert = True,
     lx_events_map = True, lx_during = ex_during, lx_wait = Some (Some 0), lx_room = (\<lambda>n. n < cap),
     lx_readable = (\<lambda>ring. map Some ring @ [None])\<rparr>"

lemma ex_linux_runs: "\<exists>r. run_sandboxed_linux key (ex_linux cap) = Inr r"
  by (auto simp: run_sandboxed_linux_def ex_linux_def Let_def tracepoints_def split: prod.split)

lemma ex_text: "c \<in> {0x61, 0x1F600, 0x63, 0x64} \<Longrightarrow> event_text (to_utf8 [0x2F, c]) = Some [0x2F, c]"
  by (rule event_text_utf8) (auto simp: scalar_def)

lemma ex_slots: "slots_ok ex_during"
  by (simp add: slots_ok_def ex_during_def ex_open_def to_utf8_def utf8_char_def)



lemma thread_exit_blinds_witness:
  "run_sandboxed_linux last ((ex_linux 8)\<lparr>lx_during := [ex_open 7 0x61 0, Exit 7, ex_open 7 0x62 65]\<rparr>) =
   run_sandboxed_linux last ((ex_linux 8)\<lparr>lx_during := [ex_open 7 0x61 0, Exit 7]\<rparr>)"
  using thread_exit_blinds[where q = 7 and post = "[ex_open 7 0x62 65]" and key = last and L = "ex_linux 8" and pre = "[ex_open 7 0x61 0]"]
  by (simp add: forked_to_def opened_by_def ex_open_def)

end
