(* ===== verification/Sandbox_Hooks.thy ===== *)
theory Sandbox_Hooks
  imports Sandbox_Linux
begin

text \<open>
  The libraries that are loaded into the processes of a task: the functions that stand in for those of libc on macOS
  (src/crates/sandbox-macos-dylib/src/interpose.rs and client.rs) with the run that collects their messages
  (src/crates/sandbox/src/macos.rs, server.rs), and the hooks of the two calls that open files on Windows
  (src/crates/sandbox-windows-detours/src/hooks.rs).  A hook reports a call and then makes it: the calls themselves
  are not modelled.  Pointers of macOS are the bytes up to the NUL, or None; the memory of Windows is a function from
  addresses to bytes.
\<close>

section \<open>macOS: the interposed functions\<close>

type_synonym c_str = "string option"

datatype MacCall = CallOpen c_str "32 word" | CallOpenat int c_str "32 word" | CallStat c_str | CallLstat c_str
  | CallRename c_str c_str | CallUnlink c_str | CallMkdir c_str

definition mac_is_write :: "32 word \<Rightarrow> bool" where
  "mac_is_write flags = (flags AND 1 \<noteq> 0 \<or> flags AND 2 \<noteq> 0 \<or> flags AND 0x200 \<noteq> 0 \<or> flags AND 0x400 \<noteq> 0)"

text \<open>An event for a path that is not null and is UTF-8.\<close>

definition to_str :: "c_str \<Rightarrow> string option" where
  "to_str path = Option.bind path (\<lambda>p. if from_utf8 (map of_char p) \<noteq> None then Some p else None)"

definition notice :: "string \<Rightarrow> c_str \<Rightarrow> (string \<times> string) list" where
  "notice op path = (case to_str path of Some s \<Rightarrow> [(op, s)] | None \<Rightarrow> [])"

text \<open>The replacements of the functions; each then calls the original with its arguments.\<close>

definition rage_open :: "c_str \<Rightarrow> 32 word \<Rightarrow> (string \<times> string) list" where
  [simp]: "rage_open path flags = notice (if mac_is_write flags then ''write'' else ''read'') path"

definition rage_openat :: "int \<Rightarrow> c_str \<Rightarrow> 32 word \<Rightarrow> (string \<times> string) list" where
  [simp]: "rage_openat dirfd path flags = notice (if mac_is_write flags then ''write'' else ''read'') path"

definition rage_stat :: "c_str \<Rightarrow> (string \<times> string) list" where
  [simp]: "rage_stat path = notice ''read'' path"

definition rage_lstat :: "c_str \<Rightarrow> (string \<times> string) list" where
  [simp]: "rage_lstat path = notice ''read'' path"

definition rage_rename :: "c_str \<Rightarrow> c_str \<Rightarrow> (string \<times> string) list" where
  [simp]: "rage_rename old new = notice ''write'' old @ notice ''write'' new"

definition rage_unlink :: "c_str \<Rightarrow> (string \<times> string) list" where
  [simp]: "rage_unlink path = notice ''write'' path"

definition rage_mkdir :: "c_str \<Rightarrow> (string \<times> string) list" where
  [simp]: "rage_mkdir path = notice ''write'' path"

fun rage_call :: "MacCall \<Rightarrow> (string \<times> string) list" where
  "rage_call (CallOpen path flags) = rage_open path flags"
| "rage_call (CallOpenat dirfd path flags) = rage_openat dirfd path flags"
| "rage_call (CallStat path) = rage_stat path"
| "rage_call (CallLstat path) = rage_lstat path"
| "rage_call (CallRename old new) = rage_rename old new"
| "rage_call (CallUnlink path) = rage_unlink path"
| "rage_call (CallMkdir path) = rage_mkdir path"

text \<open>What a process writes to the socket: nothing when it has no socket or cannot connect to it.\<close>

definition init_from_env :: "string option \<Rightarrow> (string \<Rightarrow> bool) \<Rightarrow> bool" where
  "init_from_env socket connects = (case socket of None \<Rightarrow> False | Some p \<Rightarrow> connects p)"

definition send_events :: "bool \<Rightarrow> string \<Rightarrow> MacCall list \<Rightarrow> string" where
  "send_events connected pid calls =
     (if connected then concat (map (\<lambda>(op, path). event_message op path pid) (concat (map rage_call calls))) else [])"

section \<open>macOS: the run\<close>

datatype MacError = DylibMissing | TempdirFailed | ServerFailed | MacSpawnFailed

text \<open>The connections, each with what was written to it and how many of its lines were read by the end, and the order
  in which the events of the connections came together.\<close>

record Mac =
  mac_dylib_env :: "string option"
  mac_dylib_built :: string
  mac_exists :: "string \<Rightarrow> bool"
  mac_tempdir :: bool
  mac_server :: bool
  mac_status :: "int option option"
  mac_parse :: "string \<Rightarrow> string AccessEvent option"
  mac_clients :: "(string \<times> nat) list"
  mac_order :: "string AccessEvent list \<Rightarrow> string AccessEvent list"

definition client_events :: "(string \<Rightarrow> string AccessEvent option) \<Rightarrow> string \<times> nat \<Rightarrow> string AccessEvent list" where
  "client_events parse c = List.map_filter parse (take (snd c) (str_lines (fst c)))"

definition server_drain :: "Mac \<Rightarrow> string AccessEvent list" where
  "server_drain M = mac_order M (concat (map (client_events (mac_parse M)) (mac_clients M)))"

definition run_sandboxed_macos :: "(string \<Rightarrow> 'k::linorder) \<Rightarrow> Mac \<Rightarrow> MacError + string RunResult" where
  "run_sandboxed_macos key M =
     (if \<not> mac_exists M (dylib_path (mac_dylib_env M) (mac_dylib_built M)) then Inl DylibMissing
      else if \<not> mac_tempdir M then Inl TempdirFailed
      else if \<not> mac_server M then Inl ServerFailed
      else (case mac_status M of
          None \<Rightarrow> Inl MacSpawnFailed
        | Some code \<Rightarrow> Inr \<lparr>rr_exit_code = (case code of Some c \<Rightarrow> c | None \<Rightarrow> -1),
            rr_path_set = from_events key (server_drain M)\<rparr>))"

section \<open>Windows: the hooks\<close>

text \<open>A NUL-terminated string at a pointer; None when it has no end.\<close>

partial_function (option) wide_len :: "(nat \<Rightarrow> unit16) \<Rightarrow> nat \<Rightarrow> nat option" where
  "wide_len mem len = (if mem len = 0 then Some len else wide_len mem (len + 1))"

definition wide_ptr_to_string :: "(nat \<Rightarrow> unit16) option \<Rightarrow> ustring option option" where
  "wide_ptr_to_string ptr = (case ptr of
     None \<Rightarrow> Some None
   | Some mem \<Rightarrow> Option.bind (wide_len mem 0) (\<lambda>len. Some (Some (from_utf16_lossy (map mem [0..<len])))))"

type_synonym memory = "64 word \<Rightarrow> byte"

definition mem_u16 :: "memory \<Rightarrow> 64 word \<Rightarrow> unit16" where
  "mem_u16 m a = read_u16 (m a) (m (a + 1))"

definition mem_ptr :: "memory \<Rightarrow> 64 word \<Rightarrow> 64 word" where
  "mem_ptr m a = ucast (read_u32 (m a) (m (a + 1)) (m (a + 2)) (m (a + 3))) OR
     push_bit 32 (ucast (read_u32 (m (a + 4)) (m (a + 5)) (m (a + 6)) (m (a + 7))))"

definition oa_to_string :: "memory \<Rightarrow> 64 word \<Rightarrow> ustring option" where
  "oa_to_string m oa =
     (if oa = 0 then None
      else (let object_name = mem_ptr m (oa + 16) in
        if object_name = 0 then None
        else (let length_bytes = mem_u16 m object_name in
          if length_bytes = 0 then None
          else (let buffer = mem_ptr m (object_name + 8) in
            if buffer = 0 then None
            else Some (from_utf16_lossy (map (\<lambda>i. mem_u16 m (buffer + 2 * word_of_nat i)) [0..<unat length_bytes div 2]))))))"

definition send_access :: "bool \<Rightarrow> bool \<Rightarrow> ustring option \<Rightarrow> 32 word \<Rightarrow> ustring AccessEvent list" where
  "send_access connected is_write path pid = (case path of
     None \<Rightarrow> []
   | Some p \<Rightarrow> if connected then [if is_write then Write p pid else Read p pid] else [])"

definition GENERIC_WRITE :: "32 word" where "GENERIC_WRITE = 0x40000000"
definition FILE_WRITE_DATA :: "32 word" where "FILE_WRITE_DATA = 2"
definition NT_FILE_WRITE_DATA :: "32 word" where "NT_FILE_WRITE_DATA = 2"
definition NT_FILE_APPEND_DATA :: "32 word" where "NT_FILE_APPEND_DATA = 4"

definition hook_create_file_w :: "bool \<Rightarrow> ustring option \<Rightarrow> 32 word \<Rightarrow> 32 word \<Rightarrow> ustring AccessEvent list" where
  "hook_create_file_w connected path desired_access pid =
     send_access connected (desired_access AND GENERIC_WRITE \<noteq> 0 \<or> desired_access AND FILE_WRITE_DATA \<noteq> 0) path pid"

definition hook_nt_create_file :: "bool \<Rightarrow> memory \<Rightarrow> 64 word \<Rightarrow> 32 word \<Rightarrow> 32 word \<Rightarrow> ustring AccessEvent list" where
  "hook_nt_create_file connected m oa desired_access pid =
     send_access connected (desired_access AND (NT_FILE_WRITE_DATA OR NT_FILE_APPEND_DATA) \<noteq> 0) (oa_to_string m oa) pid"

text \<open>The outcomes of the calls by which the hooks are installed, by name, and what is in place afterwards.\<close>

record Hooks =
  hk_client :: bool
  hk_create_file :: bool
  hk_nt_create :: bool

fun install :: "(string \<Rightarrow> bool) \<Rightarrow> (string \<times> (Hooks \<Rightarrow> Hooks)) list \<Rightarrow> Hooks \<Rightarrow> string option \<times> Hooks" where
  "install ok [] h = (None, h)"
| "install ok ((name, effect) # steps) h = (if ok name then install ok steps (effect h) else (Some name, h))"

definition setup_hooks :: "(string \<Rightarrow> bool) \<Rightarrow> Hooks \<Rightarrow> string option \<times> Hooks" where
  "setup_hooks ok h = install ok
     [(''connect'', \<lambda>h. h\<lparr>hk_client := True\<rparr>),
      (''kernel32'', id), (''CreateFileW'', id), (''initialize CreateFileW'', id), (''enable CreateFileW'', \<lambda>h. h\<lparr>hk_create_file := True\<rparr>),
      (''ntdll'', id), (''NtCreateFile'', id), (''initialize NtCreateFile'', id), (''enable NtCreateFile'', \<lambda>h. h\<lparr>hk_nt_create := True\<rparr>)] h"

section \<open>macOS: what is recorded\<close>

definition event_line :: "string \<Rightarrow> string \<Rightarrow> string \<Rightarrow> string" where
  "event_line op path pid = butlast (event_message op path pid)"

lemma event_message_line: "event_message op path pid = event_line op path pid @ [newline]"
proof -
  have "event_message op path pid \<noteq> []" "last (event_message op path pid) = newline" by (simp_all add: event_message_def)
  then show ?thesis by (metis append_butlast_last_id event_line_def)
qed

lemma json_escape_simps [simp]:
  "json_escape [] = []" "json_escape (c # s) = (if c = CHR 92 \<or> c = CHR 34 then [CHR 92, c] else [c]) @ json_escape s"
  by (simp_all add: json_escape_def replace_char_def)

lemma json_escape_chars: "set (json_escape s) \<subseteq> set s \<union> {CHR 92}"
  by (induction s) auto

lemma event_line_clean:
  assumes "newline \<notin> set op" "newline \<notin> set path" "newline \<notin> set pid"
  shows "newline \<notin> set (event_line op path pid)" "drop_cr (event_line op path pid) = event_line op path pid"
  using assms json_escape_chars[of op] json_escape_chars[of path]
  by (auto simp: event_line_def event_message_def butlast_append drop_cr_def)

lemma split_lines:
  "(\<And>l. l \<in> set ls \<Longrightarrow> newline \<notin> set l) \<Longrightarrow> split_on newline (concat (map (\<lambda>l. l @ [newline]) ls)) = ls @ [[]]"
  by (induction ls) (simp_all add: split_on_append)

lemma str_lines_written:
  "(\<And>l. l \<in> set ls \<Longrightarrow> newline \<notin> set l \<and> drop_cr l = l) \<Longrightarrow> str_lines (concat (map (\<lambda>l. l @ [newline]) ls)) = ls"
  by (simp add: str_lines_def split_lines map_idI)

definition mac_event :: "(string \<Rightarrow> 32 word) \<Rightarrow> string \<Rightarrow> string \<times> string \<Rightarrow> string AccessEvent" where
  "mac_event pid_of pid = (\<lambda>(op, path). if op = ''read'' then Read path (pid_of pid) else Write path (pid_of pid))"

lemma mac_event_iff:
  "Read p w = mac_event pid_of pid (op, q) \<longleftrightarrow> op = ''read'' \<and> q = p \<and> w = pid_of pid"
  "Write p w = mac_event pid_of pid (op, q) \<longleftrightarrow> op \<noteq> ''read'' \<and> q = p \<and> w = pid_of pid"
  by (auto simp: mac_event_def)

text \<open>What the parser has to do: JSON of strings without control characters.\<close>

definition clean_path :: "string \<Rightarrow> bool" where
  "clean_path p = (list_all (\<lambda>c. 32 \<le> (of_char c :: nat)) p \<and> from_utf8 (map of_char p) \<noteq> None)"

definition parses_events :: "(string \<Rightarrow> string AccessEvent option) \<Rightarrow> (string \<Rightarrow> 32 word) \<Rightarrow> bool" where
  "parses_events parse pid_of \<longleftrightarrow> (\<forall>op path pid. op \<in> {''read'', ''write''} \<and> clean_path path \<longrightarrow>
     parse (event_line op path pid) = Some (mac_event pid_of pid (op, path)))"

definition clean_calls :: "MacCall list \<Rightarrow> bool" where
  "clean_calls calls = list_all (\<lambda>call. list_all (\<lambda>(op, p). clean_path p) (rage_call call)) calls"

lemma rage_call_op: "(op, p) \<in> set (rage_call call) \<Longrightarrow> op \<in> {''read'', ''write''}"
  by (cases call) (auto simp: notice_def split: option.splits if_splits)

lemma clean_no_newline: "clean_path p \<Longrightarrow> newline \<notin> set p"
  by (auto simp: clean_path_def list_all_iff)

lemma map_filter_map_Some:
  "(\<And>x. x \<in> set xs \<Longrightarrow> f (g x) = Some (h x)) \<Longrightarrow> List.map_filter f (map g xs) = map h xs"
  by (induction xs) simp_all

lemma client_events_sent:
  assumes "parses_events parse pid_of" "clean_calls calls" "newline \<notin> set pid" "length (concat (map rage_call calls)) \<le> n"
  shows "client_events parse (send_events True pid calls, n) = map (mac_event pid_of pid) (concat (map rage_call calls))"
proof -
  let ?sent = "concat (map rage_call calls)" and ?line = "\<lambda>(op, path). event_line op path pid"
  have ok: "op \<in> {''read'', ''write''} \<and> clean_path p" if "(op, p) \<in> set ?sent" for op p
    using that assms(2) rage_call_op by (fastforce simp: clean_calls_def list_all_iff)
  have written: "send_events True pid calls = concat (map (\<lambda>l. l @ [newline]) (map ?line ?sent))"
    by (simp add: send_events_def event_message_line o_def case_prod_unfold)
  have "str_lines (send_events True pid calls) = map ?line ?sent"
    unfolding written
  proof (rule str_lines_written)
    fix l assume "l \<in> set (map ?line ?sent)"
    then obtain op p where "(op, p) \<in> set ?sent" and l: "l = event_line op p pid" by auto
    from ok[OF this(1)] have "newline \<notin> set op" "newline \<notin> set p" using clean_no_newline by auto
    then show "newline \<notin> set l \<and> drop_cr l = l" unfolding l using event_line_clean assms(3) by blast
  qed
  moreover have "List.map_filter parse (map ?line ?sent) = map (mac_event pid_of pid) ?sent"
  proof (rule map_filter_map_Some)
    fix x assume "x \<in> set ?sent"
    then show "parse (?line x) = Some (mac_event pid_of pid x)"
      using ok[of "fst x" "snd x"] assms(1) by (simp add: parses_events_def case_prod_unfold)
  qed
  ultimately show ?thesis using assms(4) ok by (simp add: client_events_def)
qed

lemma from_events_keys:
  "key ` set (pset_reads (from_events key es)) = key ` {p. \<exists>w. Read p w \<in> set es}"
  "key ` set (pset_writes (from_events key es)) = key ` {p. \<exists>w. Write p w \<in> set es}"
proof -
  have "set (List.map_filter (\<lambda>e. case e of Read p _ \<Rightarrow> Some p | Write _ _ \<Rightarrow> None) es) = {p. \<exists>w. Read p w \<in> set es}"
    by (induction es) (auto split: AccessEvent.splits)
  moreover have "set (List.map_filter (\<lambda>e. case e of Write p _ \<Rightarrow> Some p | Read _ _ \<Rightarrow> None) es) = {p. \<exists>w. Write p w \<in> set es}"
    by (induction es) (auto split: AccessEvent.splits)
  ultimately show "key ` set (pset_reads (from_events key es)) = key ` {p. \<exists>w. Read p w \<in> set es}"
    "key ` set (pset_writes (from_events key es)) = key ` {p. \<exists>w. Write p w \<in> set es}"
    by (simp_all add: from_events_def btree_paths_spec)
qed

text \<open>The paths a process reports under an operation.\<close>

definition reported :: "string \<Rightarrow> (string \<times> MacCall list) list \<Rightarrow> string set" where
  "reported op procs = {p. \<exists>(pid, calls) \<in> set procs. (op, p) \<in> set (concat (map rage_call calls))}"

text \<open>The clients of a run, each read to its end.\<close>

definition mac_sends :: "Mac \<Rightarrow> (string \<times> MacCall list) list \<Rightarrow> bool" where
  "mac_sends M procs \<longleftrightarrow>
     mac_clients M = map (\<lambda>(pid, calls). (send_events True pid calls, length (concat (map rage_call calls)))) procs \<and>
     list_all (\<lambda>(pid, calls). newline \<notin> set pid \<and> clean_calls calls) procs"

definition mac_sent :: "(string \<Rightarrow> 32 word) \<Rightarrow> (string \<times> MacCall list) list \<Rightarrow> string AccessEvent list" where
  "mac_sent pid_of procs = concat (map (\<lambda>(pid, calls). map (mac_event pid_of pid) (concat (map rage_call calls))) procs)"

lemma server_drain_sent:
  assumes "parses_events (mac_parse M) pid_of" "iteration_order (mac_order M)" "mac_sends M procs"
  shows "set (server_drain M) = set (mac_sent pid_of procs)"
proof -
  have each: "client_events (mac_parse M) (send_events True (fst c) (snd c), length (concat (map rage_call (snd c)))) =
      map (mac_event pid_of (fst c)) (concat (map rage_call (snd c)))" if "c \<in> set procs" for c
    using client_events_sent[OF assms(1)] assms(3) that by (auto simp: mac_sends_def list_all_iff)
  have "set (server_drain M) = (\<Union>c \<in> set procs. set (client_events (mac_parse M)
      (send_events True (fst c) (snd c), length (concat (map rage_call (snd c))))))"
    using assms(2,3) by (simp add: server_drain_def mac_sends_def case_prod_unfold)
  also have "\<dots> = (\<Union>c \<in> set procs. set (map (mac_event pid_of (fst c)) (concat (map rage_call (snd c)))))"
    using each by (intro SUP_cong refl) (simp only:)
  finally show ?thesis by (simp add: mac_sent_def case_prod_unfold)
qed


text \<open>A parser that does what is asked of it, and a run with a process that opens a file, writes another and moves it.\<close>

fun unescape :: "string \<Rightarrow> (string \<times> string) option" where
  "unescape [] = None"
| "unescape (c # cs) =
     (if c = CHR 34 then Some ([], cs)
      else if c = CHR 92 then (case cs of [] \<Rightarrow> None | d # ds \<Rightarrow> map_option (\<lambda>(a, b). (d # a, b)) (unescape ds))
      else map_option (\<lambda>(a, b). (c # a, b)) (unescape cs))"

lemma unescape_escape: "unescape (json_escape p @ CHR 34 # r) = Some (p, r)"
  by (induction p) auto

definition op_prefix :: "string \<Rightarrow> string" where
  "op_prefix op = ''{'' @ [CHR 34] @ ''op'' @ [CHR 34] @ '':'' @ [CHR 34] @ op @ [CHR 34] @ '','' @ [CHR 34] @ ''path'' @ [CHR 34] @ '':'' @ [CHR 34]"

definition ex_parse :: "string \<Rightarrow> string AccessEvent option" where
  "ex_parse l = (case strip_pre (op_prefix ''read'') l of
     Some r \<Rightarrow> map_option (\<lambda>(p, _). Read p 0) (unescape r)
   | None \<Rightarrow> Option.bind (strip_pre (op_prefix ''write'') l) (\<lambda>r. map_option (\<lambda>(p, _). Write p 0) (unescape r)))"

lemma event_line_prefix:
  "json_escape op = op \<Longrightarrow> event_line op path pid = op_prefix op @ json_escape path @ CHR 34 # ('','' @ [CHR 34] @ ''pid'' @ [CHR 34] @ '':'' @ pid @ ''}'')"
  by (simp add: event_line_def event_message_def op_prefix_def butlast_append)

lemma ex_parses: "parses_events ex_parse (\<lambda>_. 0)"
proof -
  have "ex_parse (event_line ''read'' path pid) = Some (Read path 0)" for path pid
    using unescape_escape[of path] by (subst event_line_prefix) (simp_all add: ex_parse_def strip_pre_Some_iff[THEN iffD2])
  moreover have "ex_parse (event_line ''write'' path pid) = Some (Write path 0)" for path pid
  proof -
    have "strip_pre (op_prefix ''read'') (op_prefix ''write'' @ r) = None" for r by (simp add: op_prefix_def)
    then show ?thesis
      using unescape_escape[of path] by (subst event_line_prefix) (simp_all add: ex_parse_def strip_pre_Some_iff[THEN iffD2])
  qed
  ultimately show ?thesis by (auto simp: parses_events_def mac_event_def)
qed

definition ex_procs :: "(string \<times> MacCall list) list" where
  "ex_procs = [(''7'', [CallOpen (Some ''/a'') 0, CallOpen (Some ''/t'') 0x201]), (''8'', [CallRename (Some ''/t'') (Some ''/b''), CallStat None])]"

definition ex_mac :: Mac where
  "ex_mac = \<lparr>mac_dylib_env = None, mac_dylib_built = ''/lib'', mac_exists = (\<lambda>_. True), mac_tempdir = True, mac_server = True,
     mac_status = Some (Some 0), mac_parse = ex_parse,
     mac_clients = map (\<lambda>(pid, calls). (send_events True pid calls, length (concat (map rage_call calls)))) ex_procs, mac_order = rev\<rparr>"

lemma ex_mac_paths [simp]: "from_utf8 [47, 97] = Some [47, 97]" "from_utf8 [47, 98] = Some [47, 98]" "from_utf8 [47, 116] = Some [47, 116]"
  by (simp_all add: from_utf8_def)

lemma ex_mac_calls:
  "map (\<lambda>(pid, calls). concat (map rage_call calls)) ex_procs =
    [[(''read'', ''/a''), (''write'', ''/t'')], [(''write'', ''/t''), (''write'', ''/b'')]]"
  by (simp add: ex_procs_def notice_def to_str_def mac_is_write_def)


section \<open>Windows: what is reported\<close>

fun mem_holds :: "memory \<Rightarrow> 64 word \<Rightarrow> byte list \<Rightarrow> bool" where
  "mem_holds m a [] = True"
| "mem_holds m a (b # bs) = (m a = b \<and> mem_holds m (a + 1) bs)"

definition write_ptr :: "64 word \<Rightarrow> byte list" where
  "write_ptr p = write_u32 (ucast p) @ write_u32 (ucast (drop_bit 32 p))"

lemma ptr_halves: "ucast (ucast p :: 32 word) OR push_bit 32 (ucast (ucast (drop_bit 32 p) :: 32 word)) = (p :: 64 word)"
  by (rule bit_word_eqI) (auto simp: bit_simps)

lemma mem_ptr_holds:
  assumes "mem_holds m a (write_ptr p)"
  shows "mem_ptr m a = p"
proof -
  obtain b0 b1 b2 b3 where lo: "write_u32 (ucast p) = [b0, b1, b2, b3]" by (simp add: write_u32_def)
  obtain b4 b5 b6 b7 where hi: "write_u32 (ucast (drop_bit 32 p)) = [b4, b5, b6, b7]" by (simp add: write_u32_def)
  have "read_u32 b0 b1 b2 b3 = ucast p" "read_u32 b4 b5 b6 b7 = ucast (drop_bit 32 p)"
    using lo hi by (auto simp: write_u32_def)
  moreover have "m a = b0" "m (a + 1) = b1" "m (a + 2) = b2" "m (a + 3) = b3" "m (a + 4) = b4" "m (a + 5) = b5" "m (a + 6) = b6" "m (a + 7) = b7"
    using assms by (simp_all add: write_ptr_def lo hi add.assoc)
  ultimately show ?thesis using ptr_halves[of p] by (simp add: mem_ptr_def)
qed

lemma mem_units_hold:
  "mem_holds m a (concat (map write_u16 us)) \<Longrightarrow> i < length us \<Longrightarrow> mem_u16 m (a + 2 * word_of_nat i) = us ! i"
proof (induction us arbitrary: a i)
  case (Cons u us)
  have first: "m a = ucast u" "m (a + 1) = ucast (drop_bit 8 u)" and rest: "mem_holds m (a + 2) (concat (map write_u16 us))"
    using Cons.prems(1) by (simp_all add: write_u16_def[of u] add.assoc)
  show ?case
  proof (cases i)
    case 0
    then show ?thesis by (simp add: mem_u16_def first)
  next
    case (Suc j)
    then have "mem_u16 m (a + 2 + 2 * word_of_nat j) = us ! j" using Cons.IH[OF rest] Cons.prems(2) by simp
    then show ?thesis by (simp add: Suc algebra_simps)
  qed
qed simp

text \<open>A call of \<^verbatim>\<open>NtCreateFile\<close> whose attributes name a string in memory reports that string, as a write exactly when the
  right to write or to append data is asked for; so a call that asks for \<^verbatim>\<open>GENERIC_WRITE\<close> only is reported as a read,
  though the hook of \<^verbatim>\<open>CreateFileW\<close> counts that right as writing, and not the right to append.\<close>

theorem nt_create_file_reported:
  assumes "oa \<noteq> 0" "object_name \<noteq> 0" "buffer \<noteq> 0" "list_all scalar s" "s \<noteq> []" "2 * length (encode_utf16 s) < 0x10000"
    and "mem_holds m (oa + 16) (write_ptr object_name)" "mem_holds m object_name (write_u16 (word_of_nat (2 * length (encode_utf16 s))))"
    and "mem_holds m (object_name + 8) (write_ptr buffer)" "mem_holds m buffer (concat (map write_u16 (encode_utf16 s)))"
  shows "hook_nt_create_file True m oa access pid = [if access AND 6 \<noteq> 0 then Write s pid else Read s pid] \<and>
    hook_nt_create_file True m oa GENERIC_WRITE pid = [Read s pid] \<and>
    hook_create_file_w True (Some s) GENERIC_WRITE pid = [Write s pid] \<and>
    hook_nt_create_file True m oa NT_FILE_APPEND_DATA pid = [Write s pid] \<and>
    hook_create_file_w True (Some s) NT_FILE_APPEND_DATA pid = [Read s pid]"
proof -
  let ?us = "encode_utf16 s"
  define w :: unit16 where "w = word_of_nat (2 * length ?us)"
  have u: "mem_u16 m object_name = w" using assms(8) by (simp add: mem_u16_def write_u16_def w_def)
  have "?us \<noteq> []" using assms(5) by (cases s) (auto simp: encode_utf16_def encode_char_def)
  moreover have w: "unat w = 2 * length ?us" unfolding w_def by (rule unat_unit16[OF assms(6)])
  ultimately have "unat w div 2 = length ?us" "w \<noteq> 0" by auto
  moreover have "map (\<lambda>i. mem_u16 m (buffer + 2 * word_of_nat i)) [0..<length ?us] = ?us"
    using mem_units_hold[OF assms(10)] by (auto intro: nth_equalityI)
  ultimately have "oa_to_string m oa = Some (from_utf16_lossy ?us)"
    using assms(1-3) mem_ptr_holds[OF assms(7)] mem_ptr_holds[OF assms(9)] by (simp add: oa_to_string_def Let_def u)
  then have "oa_to_string m oa = Some s" using utf16_roundtrip[OF assms(4)] by simp
  then show ?thesis
    by (simp add: hook_nt_create_file_def hook_create_file_w_def send_access_def NT_FILE_WRITE_DATA_def NT_FILE_APPEND_DATA_def
        GENERIC_WRITE_def FILE_WRITE_DATA_def)
qed

definition list_mem :: "byte list \<Rightarrow> memory" where
  "list_mem bs a = (if unat a < length bs then bs ! unat a else 0)"

lemma mem_holds_list:
  "bs = pre @ mid @ post \<Longrightarrow> length bs < 2 ^ 64 \<Longrightarrow> mem_holds (list_mem bs) (word_of_nat (length pre)) mid"
proof (induction mid arbitrary: pre)
  case (Cons b rest)
  have "unat (word_of_nat (length pre) :: 64 word) = length pre" using Cons.prems by (simp add: unat_of_nat)
  then have "list_mem bs (word_of_nat (length pre)) = b" using Cons.prems by (simp add: list_mem_def)
  moreover have "mem_holds (list_mem bs) (word_of_nat (length (pre @ [b]))) rest" using Cons.prems by (intro Cons.IH) simp_all
  ultimately show ?case by (simp add: add.commute)
qed simp

definition ex_bytes :: "byte list" where
  "ex_bytes = replicate 32 0 @ write_ptr 48 @ replicate 8 0 @ write_u16 4 @ replicate 6 0 @ write_ptr 64 @ concat (map write_u16 (encode_utf16 [0x61, 0x62]))"

definition ex_mem :: memory where
  "ex_mem = list_mem ex_bytes"

lemma ex_bytes_parts:
  "ex_bytes = replicate 32 0 @ write_ptr 48 @ (replicate 8 0 @ write_u16 4 @ replicate 6 0 @ write_ptr 64 @ concat (map write_u16 (encode_utf16 [0x61, 0x62])))"
  "ex_bytes = (replicate 32 0 @ write_ptr 48 @ replicate 8 0) @ write_u16 4 @ (replicate 6 0 @ write_ptr 64 @ concat (map write_u16 (encode_utf16 [0x61, 0x62])))"
  "ex_bytes = (replicate 32 0 @ write_ptr 48 @ replicate 8 0 @ write_u16 4 @ replicate 6 0) @ write_ptr 64 @ concat (map write_u16 (encode_utf16 [0x61, 0x62]))"
  "ex_bytes = (replicate 32 0 @ write_ptr 48 @ replicate 8 0 @ write_u16 4 @ replicate 6 0 @ write_ptr 64) @ concat (map write_u16 (encode_utf16 [0x61, 0x62])) @ []"
  by (simp_all add: ex_bytes_def)

lemma ex_lengths: "length (write_ptr p) = 8" "length (write_u16 u) = 2" "encode_utf16 [0x61, 0x62] = [0x61, 0x62]"
  by (simp_all add: write_ptr_def write_u32_def write_u16_def encode_utf16_def encode_char_def)

lemma ex_bytes_length: "length ex_bytes < 2 ^ 64"
  by (simp add: ex_bytes_def ex_lengths)

lemmas ex_mem_holds = mem_holds_list[OF ex_bytes_parts(1) ex_bytes_length] mem_holds_list[OF ex_bytes_parts(2) ex_bytes_length]
  mem_holds_list[OF ex_bytes_parts(3) ex_bytes_length] mem_holds_list[OF ex_bytes_parts(4) ex_bytes_length]

lemma nt_create_file_reported_witness:
  "hook_nt_create_file True ex_mem 16 2 9 = [Write [0x61, 0x62] 9] \<and> hook_nt_create_file True ex_mem 16 GENERIC_WRITE 9 = [Read [0x61, 0x62] 9]"
  using nt_create_file_reported[of 16 48 64 "[0x61, 0x62]" ex_mem 2 9]
    ex_mem_holds[folded ex_mem_def]
  by (simp add: scalar_def ex_lengths)

text \<open>The hooks of a process whose set-up fails half way stay in place.\<close>

lemma setup_hooks_partial:
  "setup_hooks (\<lambda>name. name \<noteq> ''ntdll'') \<lparr>hk_client = False, hk_create_file = False, hk_nt_create = False\<rparr> =
    (Some ''ntdll'', \<lparr>hk_client = True, hk_create_file = True, hk_nt_create = False\<rparr>)"
  by (simp add: setup_hooks_def)

end
