(* ===== verification/Sandbox_Channels.thy ===== *)
theory Sandbox_Channels
  imports Sandbox_Hooks
begin

text \<open>
  What the recording of accesses rests on, whatever carries the events: a channel that delivers them, in some order
  and cut into pieces as it likes, gives the path set of the events themselves.  The named pipe of Windows
  (src/crates/sandbox/src/pipe_proto.rs, windows.rs) and the socket of macOS (src/crates/sandbox/src/server.rs) are
  such channels, so that a run on Windows records exactly what its hooks report.
\<close>

section \<open>Channels of events\<close>

locale event_channel =
  fixes admissible :: "'p AccessEvent list \<Rightarrow> bool"
    and carries :: "'w \<Rightarrow> 'p AccessEvent list \<Rightarrow> bool"
    and delivered :: "'w \<Rightarrow> 'p AccessEvent list"
  assumes delivers: "admissible es \<Longrightarrow> carries w es \<Longrightarrow> set (delivered w) = set es"
begin

lemma path_set_exact:
  fixes key :: "'p \<Rightarrow> 'k::linorder"
  assumes "admissible es" "carries w es"
  shows "key ` set (pset_reads (from_events key (delivered w))) = key ` {p. \<exists>pid. Read p pid \<in> set es}"
    "key ` set (pset_writes (from_events key (delivered w))) = key ` {p. \<exists>pid. Write p pid \<in> set es}"
  by (simp_all add: from_events_keys delivers[OF assms])

text \<open>The keys of the path set, in order, are those of the path set made of the events sent.\<close>

lemma path_set_keys:
  fixes key :: "'p \<Rightarrow> 'k::linorder"
  assumes "admissible es" "carries w es"
  shows "map key (pset_reads (from_events key (delivered w))) = map key (pset_reads (from_events key es))"
    "map key (pset_writes (from_events key (delivered w))) = map key (pset_writes (from_events key es))"
proof -
  have unique: "xs = ys" if "sorted_wrt (<) xs" "sorted_wrt (<) ys" "set xs = set ys" for xs ys :: "'k list"
    using that strict_sorted_equal by blast
  have sorted: "sorted_wrt (<) (map key (pset_reads (from_events key fs)))" "sorted_wrt (<) (map key (pset_writes (from_events key fs)))" for fs
    by (simp_all add: from_events_def btree_paths_spec(1))
  show "map key (pset_reads (from_events key (delivered w))) = map key (pset_reads (from_events key es))"
    by (rule unique[OF sorted(1) sorted(1)]) (simp add: from_events_keys delivers[OF assms])
  show "map key (pset_writes (from_events key (delivered w))) = map key (pset_writes (from_events key es))"
    by (rule unique[OF sorted(2) sorted(2)]) (simp add: from_events_keys delivers[OF assms])
qed

text \<open>Two deliveries of the same events are recorded alike.\<close>

lemma deliveries_alike:
  fixes key :: "'p \<Rightarrow> 'k::linorder"
  assumes "admissible es" "carries w es" "carries w' es"
  shows "map key (pset_reads (from_events key (delivered w))) = map key (pset_reads (from_events key (delivered w')))"
  using path_set_keys(1)[OF assms(1,2), of key] path_set_keys(1)[OF assms(1,3), of key] by simp

end

section \<open>The pipe and the socket\<close>

definition pipe_carries :: "byte list list \<Rightarrow> ustring AccessEvent list \<Rightarrow> bool" where
  "pipe_carries chunks es = ([] \<notin> set chunks \<and> concat chunks = written es)"

interpretation windows_pipe: event_channel "list_all fits" pipe_carries "read_events True"
  by unfold_locales (simp add: pipe_carries_def pipe_whole)

definition socket_carries :: "(string \<Rightarrow> 32 word) \<Rightarrow> Mac \<Rightarrow> string AccessEvent list \<Rightarrow> bool" where
  "socket_carries pid_of M es \<longleftrightarrow> parses_events (mac_parse M) pid_of \<and> iteration_order (mac_order M) \<and>
     (\<exists>procs. mac_sends M procs \<and> es = mac_sent pid_of procs)"

interpretation macos_socket: event_channel "\<lambda>_. True" "socket_carries pid_of" server_drain for pid_of
  by unfold_locales (auto simp: socket_carries_def server_drain_sent)

section \<open>A run on Windows\<close>

datatype HookCall = CreateFileW "ustring option" "32 word" | NtCreateFile memory "64 word" "32 word"

fun hook_events :: "HookCall \<Rightarrow> 32 word \<Rightarrow> ustring AccessEvent list" where
  "hook_events (CreateFileW path desired_access) pid = hook_create_file_w True path desired_access pid"
| "hook_events (NtCreateFile m oa desired_access) pid = hook_nt_create_file True m oa desired_access pid"

fun hook_path :: "HookCall \<Rightarrow> ustring option" where
  "hook_path (CreateFileW path _) = path"
| "hook_path (NtCreateFile m oa _) = oa_to_string m oa"

fun hook_writes :: "HookCall \<Rightarrow> bool" where
  "hook_writes (CreateFileW _ access) = (access AND (GENERIC_WRITE OR FILE_WRITE_DATA) \<noteq> 0)"
| "hook_writes (NtCreateFile _ _ access) = (access AND (NT_FILE_WRITE_DATA OR NT_FILE_APPEND_DATA) \<noteq> 0)"

lemma and_or_nonzero: "x AND (a OR b) \<noteq> 0 \<longleftrightarrow> x AND a \<noteq> 0 \<or> x AND b \<noteq> 0" for x a b :: "32 word"
  by (auto simp: bit_eq_iff bit_and_iff bit_or_iff)

lemma hook_events_eq:
  "hook_events c pid = (case hook_path c of None \<Rightarrow> [] | Some p \<Rightarrow> [if hook_writes c then Write p pid else Read p pid])"
  by (cases c) (simp_all only: hook_events.simps hook_path.simps hook_writes.simps hook_create_file_w_def hook_nt_create_file_def
      send_access_def and_or_nonzero if_True simp_thms)

definition ex_trace :: "(32 word \<times> HookCall) list" where
  "ex_trace = [(7, CreateFileW (Some [0x2F, 0x61]) 0x80000000), (9, CreateFileW (Some [0x2F, 0x62]) 0x40000000), (7, CreateFileW None 1)]"

definition ex_win :: Win where
  "ex_win = \<lparr>win_dll_env = Some ''hook.dll'', win_exe_dir = None, win_exists = (\<lambda>p. p = ''hook.dll''), win_pipe = Some ''p'',
     win_create_process = (\<lambda>_ _ _. True), win_alloc = (\<lambda>_. True), win_write_memory = True, win_remote_thread = True,
     win_connect = Some True, win_reads = [written [Read [0x2F, 0x61] 7, Write [0x2F, 0x62] 9]], win_exit = 0\<rparr>"

lemma ex_trace_events: "concat (map (\<lambda>(pid, c). hook_events c pid) ex_trace) = [Read [0x2F, 0x61] 7, Write [0x2F, 0x62] 9]"
  by (simp add: ex_trace_def hook_events_eq GENERIC_WRITE_def FILE_WRITE_DATA_def)

text \<open>C37. A run on Windows whose hooked processes reach the pipe records, however the pipe cuts and however the calls are
  interleaved, exactly the paths the hooks were called with, those opened with one of the recognised write rights as
  written and the others as read, when every path fits the length field.\<close>

theorem windows_calls_recorded:
  fixes key :: "ustring \<Rightarrow> 'k::linorder"
  assumes "fst (run_sandboxed key w cmd cwd env) = Some (Inr r)" "win_connect w = Some True"
    and "[] \<notin> set (win_reads w)" "concat (win_reads w) = written (concat (map (\<lambda>(pid, c). hook_events c pid) trace))"
    and "list_all fits (concat (map (\<lambda>(pid, c). hook_events c pid) trace))"
  shows "key ` set (pset_reads (rr_path_set r)) = key ` {p. \<exists>pid c. (pid, c) \<in> set trace \<and> hook_path c = Some p \<and> \<not> hook_writes c} \<and>
    key ` set (pset_writes (rr_path_set r)) = key ` {p. \<exists>pid c. (pid, c) \<in> set trace \<and> hook_path c = Some p \<and> hook_writes c}"
proof -
  let ?es = "concat (map (\<lambda>(pid, c). hook_events c pid) trace)"
  have r: "rr_path_set r = from_events key (read_events True (win_reads w))"
    using assms(1,2) by (auto simp: run_sandboxed_def do_pipe_blocking_def Let_def split: option.splits if_splits prod.splits sum.splits)
  have "{p. \<exists>pid. Read p pid \<in> set ?es} = {p. \<exists>pid c. (pid, c) \<in> set trace \<and> hook_path c = Some p \<and> \<not> hook_writes c}"
    "{p. \<exists>pid. Write p pid \<in> set ?es} = {p. \<exists>pid c. (pid, c) \<in> set trace \<and> hook_path c = Some p \<and> hook_writes c}"
    by (auto simp: hook_events_eq split: option.splits if_splits) force+
  then show ?thesis
    using windows_pipe.path_set_exact[OF assms(5), of "win_reads w" key] assms(3,4) by (simp add: r pipe_carries_def)
qed

lemma windows_calls_recorded_witness:
  "\<exists>r. fst (run_sandboxed (\<lambda>p. p) ex_win ''build'' ''w'' []) = Some (Inr r) \<and>
     set (pset_reads (rr_path_set r)) = {[0x2F, 0x61]} \<and> set (pset_writes (rr_path_set r)) = {[0x2F, 0x62]}"
proof -
  obtain r where r: "fst (run_sandboxed (\<lambda>p. p) ex_win ''build'' ''w'' []) = Some (Inr r)"
    by (simp add: run_sandboxed_def inject_and_spawn_def do_pipe_blocking_def find_dll_path_def ex_win_def)
  have fit: "list_all fits [Read [0x2F, 0x61] 7, Write [0x2F, 0x62] 9]"
    by (simp add: fits_def event_path_def scalar_def encode_utf16_def encode_char_def)
  have "0 < length (written [Read [0x2F, 0x61] 7, Write [0x2F, 0x62] 9])"
    by (simp add: written_simps(2) length_encoded HEADER_LEN_def)
  then have ne: "[] \<notin> set (win_reads ex_win)" by (auto simp: ex_win_def)
  have reads: "concat (win_reads ex_win) = written [Read [0x2F, 0x61] 7, Write [0x2F, 0x62] 9]" by (simp add: ex_win_def)
  have connected: "win_connect ex_win = Some True" by (simp add: ex_win_def)
  note recorded = windows_calls_recorded[OF r connected ne, of ex_trace, unfolded ex_trace_events, OF reads fit]
  have "{p. \<exists>pid c. (pid, c) \<in> set ex_trace \<and> hook_path c = Some p \<and> \<not> hook_writes c} = {[0x2F, 0x61]}"
    "{p. \<exists>pid c. (pid, c) \<in> set ex_trace \<and> hook_path c = Some p \<and> hook_writes c} = {[0x2F, 0x62]}"
    by (simp_all add: ex_trace_def GENERIC_WRITE_def FILE_WRITE_DATA_def conj_disj_distribR ex_disj_distrib conj_assoc insert_commute Collect_conv_if)
  then show ?thesis using r recorded by (intro exI[of _ r]) simp
qed

end
