(* ===== verification/Build_Summary.thy ===== *)
theory Build_Summary
  imports Complex_Main Strings
begin

text \<open>
  The summary printed at the end of a run (\<^verbatim>\<open>BuildSummary\<close> in src/crates/scheduler/src/runner.rs): the counts, the
  timings, the critical path and the advice.  The floating-point numbers of the code are rational numbers here; the
  index of the 95th percentile, computed there as (n - 1) * 0.95 and cut off, is computed with integers.
\<close>

section \<open>Records\<close>

datatype TaskOutcome = Built | Cached | Failed

record BuildRecord =
  br_package :: string
  br_script :: string
  br_started :: nat
  br_elapsed :: nat
  br_outcome :: TaskOutcome
  br_deps :: "string list"

record BuildSummary =
  bs_wall :: "nat option"
  bs_records :: "BuildRecord list"
  bs_allowed :: nat
  bs_peak :: nat

definition summary_default :: BuildSummary where
  "summary_default = \<lparr>bs_wall = None, bs_records = [], bs_allowed = 1, bs_peak = 0\<rparr>"

definition summary_record :: "BuildRecord \<Rightarrow> BuildSummary \<Rightarrow> BuildSummary" where
  "summary_record r s = s\<lparr>bs_records := bs_records s @ [r]\<rparr>"

section \<open>Timings\<close>

definition with_outcome :: "TaskOutcome \<Rightarrow> BuildRecord list \<Rightarrow> BuildRecord list" where
  "with_outcome oc rs = filter (\<lambda>r. br_outcome r = oc) rs"

definition avg_build_ms :: "BuildRecord list \<Rightarrow> rat" where
  "avg_build_ms rs = (let built = with_outcome Built rs in
     if built = [] then 0 else of_nat (sum_list (map br_elapsed built)) / of_nat (length built))"

definition p95_ms :: "BuildRecord list \<Rightarrow> nat" where
  "p95_ms rs = (let built = with_outcome Built rs in
     if built = [] then 0 else sort (map br_elapsed built) ! ((length built - 1) * 95 div 100))"

definition cpu_util_pct :: "nat \<Rightarrow> nat \<Rightarrow> BuildRecord list \<Rightarrow> rat" where
  "cpu_util_pct wall_ms allowed rs =
     (if wall_ms = 0 \<or> allowed = 0 then 0
      else of_nat (sum_list (map br_elapsed (with_outcome Built rs))) / (of_nat wall_ms * of_nat allowed) * 100)"

section \<open>The critical path\<close>

text \<open>\<^verbatim>\<open>max_by_key\<close> gives the last of the greatest elements.\<close>

fun max_by_key :: "('a \<Rightarrow> nat) \<Rightarrow> 'a list \<Rightarrow> 'a option" where
  "max_by_key key [] = None"
| "max_by_key key (x # xs) = (case max_by_key key xs of None \<Rightarrow> Some x | Some y \<Rightarrow> if key x \<le> key y then Some y else Some x)"

definition finish :: "BuildRecord \<Rightarrow> nat" where
  "finish r = br_started r + br_elapsed r"

text \<open>The two hash maps keep the last record of a package.\<close>

definition finish_at :: "BuildRecord list \<Rightarrow> string \<Rightarrow> nat option" where
  "finish_at rs = map_of (rev (map (\<lambda>r. (br_package r, finish r)) rs))"

definition deps_of :: "BuildRecord list \<Rightarrow> string \<Rightarrow> string list option" where
  "deps_of rs = map_of (rev (map (\<lambda>r. (br_package r, br_deps r)) rs))"

definition latest_dep :: "BuildRecord list \<Rightarrow> string \<Rightarrow> string option" where
  "latest_dep rs pkg = Option.bind (deps_of rs pkg) (\<lambda>deps.
     map_option fst (max_by_key snd (List.map_filter (\<lambda>d. map_option (\<lambda>f. (d, f)) (finish_at rs d)) deps)))"

text \<open>The chain from its end back; the number counts down what the loop still lets in.\<close>

fun trace_back :: "BuildRecord list \<Rightarrow> nat \<Rightarrow> string option \<Rightarrow> BuildRecord list" where
  "trace_back rs 0 cur = []"
| "trace_back rs (Suc n) None = []"
| "trace_back rs (Suc n) (Some pkg) = (case List.find (\<lambda>r. br_package r = pkg) rs of
     None \<Rightarrow> [] | Some r \<Rightarrow> r # trace_back rs n (latest_dep rs pkg))"

definition CHAIN_CAP :: nat where "CHAIN_CAP = 51"

definition cp_tail :: "BuildRecord list \<Rightarrow> BuildRecord option" where
  "cp_tail rs = max_by_key finish rs"

definition cp_ms :: "BuildRecord list \<Rightarrow> nat" where
  "cp_ms rs = (case cp_tail rs of Some r \<Rightarrow> finish r | None \<Rightarrow> 0)"

definition critical_chain :: "BuildRecord list \<Rightarrow> BuildRecord list" where
  "critical_chain rs = rev (trace_back rs CHAIN_CAP (map_option br_package (cp_tail rs)))"

section \<open>Advice\<close>

datatype Insight = AllCached | CriticalPath rat string | Saturated nat nat | Gaps rat | Balanced nat nat rat

definition cp_eff_pct :: "nat \<Rightarrow> BuildRecord list \<Rightarrow> rat" where
  "cp_eff_pct wall_ms rs = (if wall_ms = 0 then 0 else of_nat (cp_ms rs) / of_nat wall_ms * 100)"

definition insight :: "nat \<Rightarrow> nat \<Rightarrow> nat \<Rightarrow> BuildRecord list \<Rightarrow> Insight" where
  "insight wall_ms allowed peak rs =
     (let peak_util = (if allowed = 0 then 0 else of_nat peak / of_nat allowed :: rat) in
      if with_outcome Built rs = [] then AllCached
      else if cp_eff_pct wall_ms rs > 75 then
        CriticalPath (cp_eff_pct wall_ms rs) (case critical_chain rs of [] \<Rightarrow> ''?'' | c \<Rightarrow> br_package (last c))
      else if peak_util \<ge> 9 / 10 then Saturated peak allowed
      else if cpu_util_pct wall_ms allowed rs < 40 then Gaps (cpu_util_pct wall_ms allowed rs)
      else Balanced peak allowed (cpu_util_pct wall_ms allowed rs))"

text \<open>What is printed: nothing without records.\<close>

record Printed =
  pr_counts :: "nat \<times> nat \<times> nat \<times> nat"
  pr_timing :: "(rat \<times> nat) option"
  pr_concurrency :: "nat \<times> nat \<times> rat"
  pr_critical :: "(nat \<times> rat \<times> (nat \<times> string) list) option"
  pr_insight :: Insight

definition summary_print :: "BuildSummary \<Rightarrow> Printed option" where
  "summary_print s =
     (let wall_ms = (case bs_wall s of Some w \<Rightarrow> w | None \<Rightarrow> 1); rs = bs_records s in
      if rs = [] then None
      else Some \<lparr>pr_counts = (length rs, length (with_outcome Built rs), length (with_outcome Cached rs), length (with_outcome Failed rs)),
        pr_timing = (if with_outcome Built rs = [] then None else Some (avg_build_ms rs, p95_ms rs)),
        pr_concurrency = (bs_peak s, bs_allowed s, cpu_util_pct wall_ms (bs_allowed s) rs),
        pr_critical = (if cp_ms rs > 0
          then Some (cp_ms rs, cp_eff_pct wall_ms rs, map (\<lambda>r. (br_elapsed r, br_package r)) (critical_chain rs)) else None),
        pr_insight = insight wall_ms (bs_allowed s) (bs_peak s) rs\<rparr>)"

section \<open>The chain\<close>

lemma max_by_key_None: "max_by_key key xs = None \<longleftrightarrow> xs = []"
  by (cases xs) (auto split: option.splits)

lemma max_by_key_Some: "max_by_key key xs = Some y \<Longrightarrow> y \<in> set xs \<and> (\<forall>x \<in> set xs. key x \<le> key y)"
  by (induction xs arbitrary: y) (fastforce split: option.splits if_splits simp: max_by_key_None)+

lemma map_of_records:
  assumes "distinct (map br_package rs)" "r \<in> set rs"
  shows "finish_at rs (br_package r) = Some (finish r)" "deps_of rs (br_package r) = Some (br_deps r)"
  using assms by (auto simp: finish_at_def deps_of_def o_def rev_map[symmetric] intro!: map_of_is_SomeI)

lemma finish_at_Some: "finish_at rs p = Some f \<Longrightarrow> \<exists>r \<in> set rs. br_package r = p \<and> finish r = f"
  unfolding finish_at_def by (drule map_of_SomeD) auto

lemma find_record:
  "distinct (map br_package rs) \<Longrightarrow> r \<in> set rs \<Longrightarrow> List.find (\<lambda>q. br_package q = br_package r) rs = Some r"
  by (induction rs) force+

text \<open>The records of the packages that a record waited for.\<close>

definition waited_for :: "BuildRecord list \<Rightarrow> BuildRecord \<Rightarrow> BuildRecord set" where
  "waited_for rs r = {q \<in> set rs. br_package q \<in> set (br_deps r)}"

definition candidates :: "BuildRecord list \<Rightarrow> BuildRecord \<Rightarrow> (string \<times> nat) list" where
  "candidates rs r = List.map_filter (\<lambda>d. map_option (\<lambda>f. (d, f)) (finish_at rs d)) (br_deps r)"

lemma candidates_set: "set (candidates rs r) = {(d, f). d \<in> set (br_deps r) \<and> finish_at rs d = Some f}"
  by (auto simp: candidates_def in_set_map_filter)

lemma latest_dep_candidates:
  "distinct (map br_package rs) \<Longrightarrow> r \<in> set rs \<Longrightarrow>
    latest_dep rs (br_package r) = map_option fst (max_by_key snd (candidates rs r))"
  by (simp add: latest_dep_def map_of_records(2) candidates_def)

lemma latest_dep_None:
  assumes "distinct (map br_package rs)" "r \<in> set rs" "latest_dep rs (br_package r) = None"
  shows "waited_for rs r = {}"
proof -
  have "candidates rs r = []" using assms by (simp add: latest_dep_candidates max_by_key_None)
  then have "\<not> (d \<in> set (br_deps r) \<and> finish_at rs d = Some f)" for d f using candidates_set[of rs r] by auto
  then show ?thesis using map_of_records(1)[OF assms(1)] by (auto simp: waited_for_def)
qed

lemma latest_dep_Some:
  assumes "distinct (map br_package rs)" "r \<in> set rs" "latest_dep rs (br_package r) = Some p"
  shows "\<exists>q \<in> waited_for rs r. br_package q = p \<and> (\<forall>q' \<in> waited_for rs r. finish q' \<le> finish q)"
proof -
  from assms obtain f where m: "max_by_key snd (candidates rs r) = Some (p, f)"
    by (auto simp: latest_dep_candidates)
  from max_by_key_Some[OF this] have p: "p \<in> set (br_deps r)" "finish_at rs p = Some f"
    and max: "\<And>d f'. d \<in> set (br_deps r) \<and> finish_at rs d = Some f' \<Longrightarrow> f' \<le> f"
    unfolding candidates_set by auto
  from finish_at_Some[OF p(2)] obtain q where q: "q \<in> set rs" "br_package q = p" "finish q = f" by blast
  have "finish q' \<le> finish q" if "q' \<in> waited_for rs r" for q'
    using that max[of "br_package q'"] map_of_records(1)[OF assms(1), of q'] q(3) by (auto simp: waited_for_def)
  with q p(1) show ?thesis by (auto simp: waited_for_def)
qed

definition late_dep :: "BuildRecord list \<Rightarrow> BuildRecord \<Rightarrow> BuildRecord \<Rightarrow> bool" where
  "late_dep rs a b \<longleftrightarrow> b \<in> waited_for rs a \<and> (\<forall>q \<in> waited_for rs a. finish q \<le> finish b)"

text \<open>Tasks start when what they wait for has ended.\<close>

definition timely :: "BuildRecord list \<Rightarrow> bool" where
  "timely rs = list_all (\<lambda>r. list_all (\<lambda>q. br_package q \<in> set (br_deps r) \<longrightarrow> finish q \<le> br_started r) rs) rs"

lemma timely_waited: "timely rs \<Longrightarrow> r \<in> set rs \<Longrightarrow> q \<in> waited_for rs r \<Longrightarrow> finish q \<le> br_started r"
  by (auto simp: timely_def list_all_iff waited_for_def)

lemma trace_back_chain:
  assumes "distinct (map br_package rs)" "r \<in> set rs"
  shows "\<exists>tail. trace_back rs (Suc n) (Some (br_package r)) = r # tail \<and> successively (late_dep rs) (r # tail) \<and>
    length tail \<le> n \<and> (length tail < n \<longrightarrow> waited_for rs (last (r # tail)) = {}) \<and>
    (timely rs \<longrightarrow> sum_list (map br_elapsed (r # tail)) \<le> finish r)"
  using assms(2)
proof (induction n arbitrary: r)
  case 0
  show ?case using find_record[OF assms(1) 0] by (simp add: finish_def)
next
  case (Suc n)
  have step: "trace_back rs (Suc (Suc n)) (Some (br_package r)) = r # trace_back rs (Suc n) (latest_dep rs (br_package r))"
    using find_record[OF assms(1) Suc.prems] by simp
  show ?case
  proof (cases "latest_dep rs (br_package r)")
    case None
    then show ?thesis using latest_dep_None[OF assms(1) Suc.prems] by (simp add: step finish_def del: trace_back.simps(3))
  next
    case (Some p)
    from latest_dep_Some[OF assms(1) Suc.prems Some] obtain q where q: "late_dep rs r q" "br_package q = p" "q \<in> set rs"
      by (auto simp: late_dep_def waited_for_def)
    from Suc.IH[OF q(3)] obtain tail where tail: "trace_back rs (Suc n) (Some (br_package q)) = q # tail"
        "successively (late_dep rs) (q # tail)" "length tail \<le> n" "length tail < n \<longrightarrow> waited_for rs (last (q # tail)) = {}"
        "timely rs \<longrightarrow> sum_list (map br_elapsed (q # tail)) \<le> finish q" by blast
    have "timely rs \<longrightarrow> sum_list (map br_elapsed (r # q # tail)) \<le> finish r"
      using tail(5) timely_waited[OF _ Suc.prems, of q] q(1) by (auto simp: late_dep_def finish_def[of r])
    moreover have "trace_back rs (Suc (Suc n)) (Some (br_package r)) = r # q # tail"
      unfolding step Some using tail(1) q(2) by simp
    ultimately show ?thesis using tail(2-4) q(1) by (intro exI[of _ "q # tail"]) auto
  qed
qed

text \<open>C29. The chain that is printed: it ends with the task that ended last; before each task stands the one that ended last
  of those it waited for; it holds at most 51 tasks, and begins with one that waited for nothing unless it is that
  long; and its tasks together take no longer than the time it is given.\<close>

theorem critical_chain_correct:
  assumes "distinct (map br_package rs)" "rs \<noteq> []" "timely rs"
  shows "case critical_chain rs of [] \<Rightarrow> False | c # cs \<Rightarrow>
    cp_ms rs = finish (last (c # cs)) \<and> list_all (\<lambda>r. finish r \<le> cp_ms rs) rs \<and>
    successively (\<lambda>b a. late_dep rs a b) (c # cs) \<and> length (c # cs) \<le> 51 \<and>
    (if length (c # cs) < 51 then waited_for rs c = {} else True) \<and>
    sum_list (map br_elapsed (c # cs)) \<le> cp_ms rs"
proof -
  obtain r where r: "cp_tail rs = Some r" using assms(2) by (cases "cp_tail rs") (auto simp: cp_tail_def max_by_key_None)
  have max: "r \<in> set rs" "\<forall>q \<in> set rs. finish q \<le> finish r" using max_by_key_Some[OF r[unfolded cp_tail_def]] by auto
  from trace_back_chain[OF assms(1) max(1), of 50] obtain tail where
    tail: "trace_back rs 51 (Some (br_package r)) = r # tail" "successively (late_dep rs) (r # tail)" "length tail \<le> 50"
      "length tail < 50 \<longrightarrow> waited_for rs (last (r # tail)) = {}" "sum_list (map br_elapsed (r # tail)) \<le> finish r"
    using assms(3) by auto
  have chain: "critical_chain rs = rev (r # tail)" by (simp only: critical_chain_def r option.map CHAIN_CAP_def tail(1))
  have cp: "cp_ms rs = finish r" by (simp add: cp_ms_def r)
  obtain c cs where c: "critical_chain rs = c # cs" by (cases "critical_chain rs") (auto simp: chain)
  have eq: "c # cs = rev (r # tail)" using c chain by simp
  have "c = last (r # tail)" using eq by (metis hd_rev list.sel(1))
  moreover have "last (c # cs) = r" unfolding eq by simp
  moreover have "length (c # cs) = Suc (length tail)" unfolding eq by simp
  moreover have "successively (\<lambda>b a. late_dep rs a b) (c # cs)" unfolding eq successively_rev using tail(2) by simp
  moreover have "sum_list (map br_elapsed (c # cs)) \<le> finish r" unfolding eq using tail(5) by (simp add: rev_map[symmetric] sum_list_rev)
  ultimately show ?thesis unfolding c using tail(3,4) max(2) cp by (auto simp: list_all_iff)
qed

section \<open>The advice\<close>

lemma max_by_key_map: "max_by_key key (map f xs) = map_option f (max_by_key (\<lambda>x. key (f x)) xs)"
  by (induction xs) (auto split: option.splits)

definition without_deps :: "BuildRecord list \<Rightarrow> BuildRecord list" where
  "without_deps rs = map (\<lambda>r. r\<lparr>br_deps := []\<rparr>) rs"

lemma cp_tail_without: "cp_tail (without_deps rs) = map_option (\<lambda>r. r\<lparr>br_deps := []\<rparr>) (cp_tail rs)"
  by (simp add: cp_tail_def without_deps_def max_by_key_map finish_def[abs_def])

lemma critical_last:
  assumes "cp_tail rs = Some r"
  shows "\<exists>c cs. critical_chain rs = c # cs \<and> br_package (last (c # cs)) = br_package r"
proof -
  have "r \<in> set rs" using max_by_key_Some[OF assms[unfolded cp_tail_def]] by simp
  then have "List.find (\<lambda>q. br_package q = br_package r) rs \<noteq> None" by (auto simp: find_None_iff)
  then obtain q where q: "List.find (\<lambda>q. br_package q = br_package r) rs = Some q" by blast
  then have name: "br_package q = br_package r" by (auto simp: find_Some_iff)
  have "trace_back rs (Suc 50) (Some (br_package r)) = q # trace_back rs 50 (latest_dep rs (br_package r))"
    using q by (simp only: trace_back.simps option.case)
  then have chain: "critical_chain rs = rev (trace_back rs 50 (latest_dep rs (br_package r))) @ [q]"
    by (simp add: critical_chain_def assms CHAIN_CAP_def)
  obtain c cs where "critical_chain rs = c # cs" by (cases "critical_chain rs") (auto simp: chain)
  moreover from this have "last (c # cs) = q" by (metis chain last_snoc)
  ultimately show ?thesis using name by blast
qed

lemma insight_critical:
  assumes "with_outcome Built rs \<noteq> []" "0 < wall" "3 * wall < 4 * cp_ms rs" "cp_tail rs = Some r"
  shows "insight wall allowed peak rs = CriticalPath (of_nat (cp_ms rs) / of_nat wall * 100) (br_package r)"
proof -
  have "(3 * of_nat wall :: rat) < 4 * of_nat (cp_ms rs)" using assms(3) by (metis of_nat_less_iff of_nat_mult of_nat_numeral)
  then have "75 < (of_nat (cp_ms rs) / of_nat wall * 100 :: rat)" using assms(2) by (simp add: field_simps)
  moreover from critical_last[OF assms(4)] obtain c cs where "critical_chain rs = c # cs" "br_package (last (c # cs)) = br_package r" by blast
  ultimately show ?thesis using assms(1,2) by (simp add: insight_def Let_def cp_eff_pct_def)
qed

text \<open>The length given to the critical path is the end of the last task since the start of the run, so that the advice
  says that the critical path dominates and more processors do not help whenever the last task ends in the last
  quarter of the run, also when no task depends on any other and all ran one after another for want of processors.\<close>

theorem insight_blames_critical_path:
  assumes "with_outcome Built rs \<noteq> []" "0 < wall" "3 * wall < 4 * cp_ms rs"
  shows "\<exists>p. insight wall allowed peak rs = CriticalPath (of_nat (cp_ms rs) / of_nat wall * 100) p \<and>
    insight wall allowed peak (without_deps rs) = insight wall allowed peak rs"
proof -
  have "rs \<noteq> []" using assms(1) by (auto simp: with_outcome_def)
  then obtain r where r: "cp_tail rs = Some r" by (cases "cp_tail rs") (auto simp: cp_tail_def max_by_key_None)
  have cp: "cp_ms (without_deps rs) = cp_ms rs" by (simp add: cp_ms_def cp_tail_without r finish_def)
  have "with_outcome Built (without_deps rs) \<noteq> []" using assms(1) by (simp add: with_outcome_def without_deps_def filter_map o_def)
  from insight_critical[OF this assms(2), of "r\<lparr>br_deps := []\<rparr>"] have
    "insight wall allowed peak (without_deps rs) = CriticalPath (of_nat (cp_ms rs) / of_nat wall * 100) (br_package r)"
    using assms(3) by (simp add: cp cp_tail_without r)
  then show ?thesis using insight_critical[OF assms r] by simp
qed

definition ex_rec :: "string \<Rightarrow> nat \<Rightarrow> nat \<Rightarrow> string list \<Rightarrow> BuildRecord" where
  "ex_rec p started elapsed deps = \<lparr>br_package = p, br_script = ''build'', br_started = started, br_elapsed = elapsed,
     br_outcome = Built, br_deps = deps\<rparr>"

definition ex_timeline :: "BuildRecord list" where
  "ex_timeline = [ex_rec ''a'' 0 4 [], ex_rec ''b'' 1 1 [], ex_rec ''c'' 5 3 [''a'', ''b'']]"

lemma critical_chain_correct_witness:
  "case critical_chain ex_timeline of [] \<Rightarrow> False | c # cs \<Rightarrow> cp_ms ex_timeline = 8 \<and> sum_list (map br_elapsed (c # cs)) \<le> 8"
proof -
  have "distinct (map br_package ex_timeline)" "ex_timeline \<noteq> []" "timely ex_timeline"
    by (simp_all add: ex_timeline_def ex_rec_def timely_def finish_def)
  from critical_chain_correct[OF this] show ?thesis
    by (simp add: ex_timeline_def ex_rec_def cp_ms_def cp_tail_def finish_def split: list.splits)
qed

lemma insight_blames_critical_path_witness:
  "\<exists>p. insight 8 1 1 [ex_rec ''a'' 0 4 [], ex_rec ''b'' 4 4 []] = CriticalPath 100 p"
  using insight_blames_critical_path[of "[ex_rec ''a'' 0 4 [], ex_rec ''b'' 4 4 []]" 8 1 1]
  by (auto simp: with_outcome_def ex_rec_def cp_ms_def cp_tail_def finish_def)

end
