(* ===== verification/Scheduler_Props.thy ===== *)
theory Scheduler_Props
  imports Scheduler
begin

text \<open>Safety, result and progress of the continuous scheduler, and the waves of \<^verbatim>\<open>compute_task_levels\<close>.\<close>

section \<open>The invariant of a run\<close>

definition run_rel :: "Task list \<Rightarrow> (string \<times> string) set" where
  "run_rel ts = {(t_package t, d) | t d. t \<in> set ts \<and> d \<in> set (t_dep_packages t) \<and> d \<in> t_package ` set ts}"

definition chan_of_phase :: "Sched \<Rightarrow> string \<Rightarrow> bool" where
  "chan_of_phase s p \<longleftrightarrow> (case sc_phase s p of
      Waiting \<Rightarrow> sc_chan s p = \<lparr>ch_value = DPending, ch_closed = False\<rparr>
    | Running \<Rightarrow> sc_chan s p = \<lparr>ch_value = DPending, ch_closed = False\<rparr>
    | Finished r \<Rightarrow> sc_chan s p = \<lparr>ch_value = (case r of None \<Rightarrow> DDone | Some _ \<Rightarrow> DFailed), ch_closed = True\<rparr>
    | Aborted \<Rightarrow> sc_chan s p = \<lparr>ch_value = DPending, ch_closed = True\<rparr>
    | Joined \<Rightarrow> ch_closed (sc_chan s p))"

definition bad_chan :: "Sched \<Rightarrow> string \<Rightarrow> bool" where
  "bad_chan s p \<longleftrightarrow> ch_value (sc_chan s p) = DFailed \<or> (ch_value (sc_chan s p) = DPending \<and> ch_closed (sc_chan s p))"

definition root_cause :: "Task list \<Rightarrow> (Task \<Rightarrow> RunError option \<Rightarrow> bool) \<Rightarrow> Sched \<Rightarrow> bool" where
  "root_cause ts outcome s \<longleftrightarrow>
     (\<exists>t\<in>set ts. (\<exists>e. outcome t (Some e)) \<and> ch_value (sc_chan s (t_package t)) = DFailed)"

definition sched_inv :: "Task list \<Rightarrow> (Task \<Rightarrow> RunError option \<Rightarrow> bool) \<Rightarrow> Sched \<Rightarrow> bool" where
  "sched_inv ts outcome s \<longleftrightarrow>
     (\<forall>p. chan_of_phase s p) \<and>
     (\<forall>p d. (p, d) \<in> run_rel ts \<longrightarrow> sc_phase s p = Running \<or> ch_value (sc_chan s p) = DDone \<longrightarrow>
        ch_value (sc_chan s d) = DDone) \<and>
     (\<forall>p. sc_error s = None \<longrightarrow> sc_phase s p = Joined \<longrightarrow> ch_value (sc_chan s p) = DDone) \<and>
     (sc_abort s \<longrightarrow> sc_error s \<noteq> None) \<and> (\<forall>p. sc_phase s p = Aborted \<longrightarrow> sc_abort s) \<and>
     ((sc_error s \<noteq> None \<or> (\<exists>p. bad_chan s p)) \<longrightarrow> root_cause ts outcome s) \<and>
     (sc_error s \<noteq> None \<longrightarrow> (\<exists>p\<in>t_package ` set ts. ch_value (sc_chan s p) \<noteq> DDone))"

lemma sched_invD:
  assumes "sched_inv ts outcome s"
  shows "chan_of_phase s p"
    "(p, d) \<in> run_rel ts \<Longrightarrow> sc_phase s p = Running \<or> ch_value (sc_chan s p) = DDone \<Longrightarrow> ch_value (sc_chan s d) = DDone"
    "sc_error s = None \<Longrightarrow> sc_phase s p = Joined \<Longrightarrow> ch_value (sc_chan s p) = DDone"
    "sc_abort s \<Longrightarrow> sc_error s \<noteq> None" "sc_phase s p = Aborted \<Longrightarrow> sc_abort s"
    "sc_error s \<noteq> None \<Longrightarrow> root_cause ts outcome s" "bad_chan s p \<Longrightarrow> root_cause ts outcome s"
    "sc_error s \<noteq> None \<Longrightarrow> \<exists>p\<in>t_package ` set ts. ch_value (sc_chan s p) \<noteq> DDone"
  using assms unfolding sched_inv_def by blast+

lemma chan_in_dep_chans:
  "t \<in> set ts \<Longrightarrow> (t_package t, d) \<in> run_rel ts \<Longrightarrow> distinct (map t_package ts) \<Longrightarrow>
   sc_chan s d \<in> set (dep_chans ts s t)"
  by (auto simp: run_rel_def dep_chans_def distinct_map dest: inj_onD)

lemma dep_chans_rel:
  "t \<in> set ts \<Longrightarrow> c \<in> set (dep_chans ts s t) \<Longrightarrow> \<exists>d. (t_package t, d) \<in> run_rel ts \<and> c = sc_chan s d"
  by (auto simp: run_rel_def dep_chans_def)

lemma sched_fields [simp]:
  "sc_phase (start_task t s) = (sc_phase s)(t_package t := Running)"
  "sc_chan (start_task t s) = sc_chan s"
  "sc_error (start_task t s) = sc_error s" "sc_abort (start_task t s) = sc_abort s"
  "sc_phase (skip_task t s) = (sc_phase s)(t_package t := Finished (Some (Skipped (t_package t))))"
  "sc_chan (skip_task t s) = (sc_chan s)(t_package t := \<lparr>ch_value = DFailed, ch_closed = True\<rparr>)"
  "sc_error (skip_task t s) = sc_error s" "sc_abort (skip_task t s) = sc_abort s"
  "sc_phase (finish_task t r s) = (sc_phase s)(t_package t := Finished r)"
  "sc_chan (finish_task t r s) = (sc_chan s)(t_package t :=
     \<lparr>ch_value = (case r of None \<Rightarrow> DDone | Some _ \<Rightarrow> DFailed), ch_closed = True\<rparr>)"
  "sc_error (finish_task t r s) = sc_error s" "sc_abort (finish_task t r s) = sc_abort s"
  "sc_phase (cancel_task t s) = (sc_phase s)(t_package t := Aborted)"
  "sc_chan (cancel_task t s) = (sc_chan s)(t_package t :=
     \<lparr>ch_value = ch_value (sc_chan s (t_package t)), ch_closed = True\<rparr>)"
  "sc_error (cancel_task t s) = sc_error s" "sc_abort (cancel_task t s) = sc_abort s"
  by (simp_all add: start_task_def skip_task_def finish_task_def cancel_task_def set_phase_def publish_def)

lemma join_fields [simp]:
  "sc_chan (join_task t s) = sc_chan s"
  "sc_phase s (t_package t) \<in> {Finished r, Aborted} \<Longrightarrow> sc_phase (join_task t s) = (sc_phase s)(t_package t := Joined)"
  by (auto simp: join_task_def set_phase_def split: Phase.splits option.splits)

text \<open>No step takes back a published value.\<close>

lemma step_keeps_value:
  assumes "sched_step ts outcome s s'" "sched_inv ts outcome s" "ch_value (sc_chan s p) \<noteq> DPending"
  shows "ch_value (sc_chan s' p) = ch_value (sc_chan s p)"
proof -
  have "sc_phase s p \<noteq> Waiting \<and> sc_phase s p \<noteq> Running"
    using sched_invD(1)[OF assms(2), of p] assms(3) by (auto simp: chan_of_phase_def)
  with assms(1) show ?thesis by cases auto
qed

lemma root_cause_mono:
  assumes "sched_step ts outcome s s'" "sched_inv ts outcome s" "root_cause ts outcome s"
  shows "root_cause ts outcome s'"
  using assms step_keeps_value[OF assms(1,2)] by (fastforce simp: root_cause_def)

lemma sched_inv_init: "ts \<noteq> [] \<or> True \<Longrightarrow> sched_inv ts outcome sched_init"
  by (simp add: sched_inv_def sched_init_def chan_of_phase_def bad_chan_def)

lemma chan_of_phase_cong:
  "sc_phase s' p = sc_phase s p \<Longrightarrow> sc_chan s' p = sc_chan s p \<Longrightarrow> chan_of_phase s' p = chan_of_phase s p"
  unfolding chan_of_phase_def by presburger

lemma active_chan:
  assumes "sched_inv ts outcome s" "sc_phase s p \<in> {Waiting, Running}"
  shows "sc_chan s p = \<lparr>ch_value = DPending, ch_closed = False\<rparr>"
  using sched_invD(1)[OF assms(1), of p] assms(2) by (auto simp: chan_of_phase_def)

lemma start_inv:
  assumes inv: "sched_inv ts outcome s" and t: "t \<in> set ts" "sc_phase s (t_package t) = Waiting"
    and d: "distinct (map t_package ts)" and aw: "await_deps (dep_chans ts s t) = AllDone"
  shows "sched_inv ts outcome (start_task t s)"
proof -
  have deps: "ch_value (sc_chan s dep) = DDone" if "(t_package t, dep) \<in> run_rel ts" for dep
    using await_deps_done[OF aw chan_in_dep_chans[OF t(1) that d]] .
  have ch: "chan_of_phase (start_task t s) p" for p
  proof (cases "p = t_package t")
    case True
    then show ?thesis using active_chan[OF inv, of p] t(2) by (simp add: chan_of_phase_def)
  next
    case False
    then show ?thesis using sched_invD(1)[OF inv, of p] chan_of_phase_cong[of "start_task t s" p s] by simp
  qed
  show ?thesis
    unfolding sched_inv_def
  proof (intro conjI allI impI)
    fix p dep assume "(p, dep) \<in> run_rel ts"
      "sc_phase (start_task t s) p = Running \<or> ch_value (sc_chan (start_task t s) p) = DDone"
    then show "ch_value (sc_chan (start_task t s) dep) = DDone"
      using deps sched_invD(2)[OF inv, of p dep] by (auto split: if_splits)
  qed (use ch sched_invD[OF inv] in \<open>auto simp: bad_chan_def root_cause_def split: if_splits\<close>)
qed

lemma skip_inv:
  assumes inv: "sched_inv ts outcome s" and t: "t \<in> set ts" "sc_phase s (t_package t) = Waiting"
    and aw: "await_deps (dep_chans ts s t) = AnyFailed"
  shows "sched_inv ts outcome (skip_task t s)"
proof -
  let ?s = "skip_task t s"
  obtain c where c: "c \<in> set (dep_chans ts s t)" "ch_value c = DFailed \<or> (ch_value c = DPending \<and> ch_closed c)"
    using await_deps_failed[OF aw] by blast
  then obtain dep where "c = sc_chan s dep" using dep_chans_rel[OF t(1)] by blast
  then have "bad_chan s dep" using c(2) by (simp add: bad_chan_def)
  then have cause: "root_cause ts outcome ?s"
    using sched_invD(7)[OF inv] root_cause_mono[OF step_skip[OF t aw] inv] by blast
  have act: "sc_chan s (t_package t) = \<lparr>ch_value = DPending, ch_closed = False\<rparr>"
    using active_chan[OF inv] t(2) by simp
  have ch: "chan_of_phase ?s p" for p
  proof (cases "p = t_package t")
    case True
    then show ?thesis by (simp add: chan_of_phase_def)
  next
    case False
    then show ?thesis using sched_invD(1)[OF inv, of p] chan_of_phase_cong[of ?s p s] by simp
  qed
  show ?thesis
    unfolding sched_inv_def
  proof (intro conjI allI impI)
    fix p dep assume "(p, dep) \<in> run_rel ts" "sc_phase ?s p = Running \<or> ch_value (sc_chan ?s p) = DDone"
    then show "ch_value (sc_chan ?s dep) = DDone"
      using sched_invD(2)[OF inv, of p dep] act by (auto split: if_splits)
  qed (use ch cause sched_invD[OF inv] act in \<open>auto split: if_splits\<close>)
qed

lemma finish_inv:
  assumes inv: "sched_inv ts outcome s" and t: "t \<in> set ts" "sc_phase s (t_package t) = Running"
    and r: "outcome t r"
  shows "sched_inv ts outcome (finish_task t r s)"
proof -
  let ?s = "finish_task t r s"
  have act: "sc_chan s (t_package t) = \<lparr>ch_value = DPending, ch_closed = False\<rparr>"
    using active_chan[OF inv] t(2) by simp
  have step: "sched_step ts outcome s ?s" using t r by (rule step_finish)
  have ch: "chan_of_phase ?s p" for p
  proof (cases "p = t_package t")
    case True
    then show ?thesis by (simp add: chan_of_phase_def)
  next
    case False
    then show ?thesis using sched_invD(1)[OF inv, of p] chan_of_phase_cong[of ?s p s] by simp
  qed
  have cause: "root_cause ts outcome ?s" if "sc_error ?s \<noteq> None \<or> bad_chan ?s p" for p
  proof (cases "r \<noteq> None \<and> bad_chan ?s p \<and> p = t_package t")
    case True
    then show ?thesis using t(1) r by (auto simp: root_cause_def)
  next
    case False
    then have "sc_error s \<noteq> None \<or> bad_chan s p"
      using that by (auto simp: bad_chan_def split: if_splits option.splits)
    then show ?thesis using sched_invD(6,7)[OF inv] root_cause_mono[OF step inv] by blast
  qed
  show ?thesis
    unfolding sched_inv_def
  proof (intro conjI allI impI)
    fix p dep assume pd: "(p, dep) \<in> run_rel ts" "sc_phase ?s p = Running \<or> ch_value (sc_chan ?s p) = DDone"
    have "sc_phase s p = Running \<or> ch_value (sc_chan s p) = DDone"
      using pd(2) t(2) by (auto split: if_splits)
    then have "ch_value (sc_chan s dep) = DDone" by (rule sched_invD(2)[OF inv pd(1)])
    then show "ch_value (sc_chan ?s dep) = DDone"
      using step_keeps_value[OF step inv, of dep] by simp
  next
    assume "sc_error ?s \<noteq> None"
    then obtain p where "p \<in> t_package ` set ts" "ch_value (sc_chan s p) = DFailed"
      using sched_invD(6)[OF inv] by (auto simp: root_cause_def)
    then show "\<exists>p\<in>t_package ` set ts. ch_value (sc_chan ?s p) \<noteq> DDone"
      using step_keeps_value[OF step inv, of p] by (intro bexI[of _ p]) simp_all
  next
    assume "sc_error ?s \<noteq> None \<or> (\<exists>p. bad_chan ?s p)"
    then show "root_cause ts outcome ?s" using cause by blast
  next
    show "chan_of_phase ?s p" for p by (rule ch)
  next
    fix p assume "sc_error ?s = None" "sc_phase ?s p = Joined"
    then show "ch_value (sc_chan ?s p) = DDone" using sched_invD(3)[OF inv, of p] by (auto split: if_splits)
  next
    show "sc_abort ?s \<Longrightarrow> sc_error ?s \<noteq> None" using sched_invD(4)[OF inv] by simp
  next
    fix p assume "sc_phase ?s p = Aborted"
    then show "sc_abort ?s" using sched_invD(5)[OF inv, of p] by (auto split: if_splits)
  qed
qed

lemma cancel_inv:
  assumes inv: "sched_inv ts outcome s" and t: "t \<in> set ts" "sc_phase s (t_package t) \<in> {Waiting, Running}"
    and ab: "sc_abort s"
  shows "sched_inv ts outcome (cancel_task t s)"
proof -
  let ?s = "cancel_task t s"
  have act: "sc_chan s (t_package t) = \<lparr>ch_value = DPending, ch_closed = False\<rparr>"
    using active_chan[OF inv] t(2) by simp
  have val: "ch_value (sc_chan ?s p) = ch_value (sc_chan s p)" for p by simp
  have step: "sched_step ts outcome s ?s" using t ab by (intro step_cancel) simp_all
  have err: "sc_error s \<noteq> None" using sched_invD(4)[OF inv ab] .
  have cause: "root_cause ts outcome ?s"
    using sched_invD(6)[OF inv err] root_cause_mono[OF step inv] by blast
  have ch: "chan_of_phase ?s p" for p
  proof (cases "p = t_package t")
    case True
    then show ?thesis using act by (simp add: chan_of_phase_def)
  next
    case False
    then show ?thesis using sched_invD(1)[OF inv, of p] chan_of_phase_cong[of ?s p s] by simp
  qed
  show ?thesis
    unfolding sched_inv_def val
  proof (intro conjI allI impI)
    fix p dep assume "(p, dep) \<in> run_rel ts" "sc_phase ?s p = Running \<or> ch_value (sc_chan s p) = DDone"
    then show "ch_value (sc_chan s dep) = DDone"
      using sched_invD(2)[OF inv, of p dep] by (auto split: if_splits)
  qed (use ch cause err ab sched_invD(8)[OF inv err] in auto)
qed

lemma join_inv:
  assumes inv: "sched_inv ts outcome s" and t: "t \<in> set ts"
    and ph: "(\<exists>r. sc_phase s (t_package t) = Finished r) \<or> sc_phase s (t_package t) = Aborted"
  shows "sched_inv ts outcome (join_task t s)"
proof -
  let ?s = "join_task t s" and ?p = "t_package t"
  have phase: "sc_phase ?s = (sc_phase s)(?p := Joined)" using ph by auto
  have c: "chan_of_phase s ?p" by (rule sched_invD(1)[OF inv])
  have step: "sched_step ts outcome s ?s" using t ph by (rule step_join)
  have ch: "chan_of_phase ?s p" for p
  proof (cases "p = ?p")
    case True
    then show ?thesis using c ph by (auto simp: chan_of_phase_def phase)
  next
    case False
    then show ?thesis using sched_invD(1)[OF inv, of p] chan_of_phase_cong[of ?s p s] by (simp add: phase)
  qed
  have bad: "bad_chan ?s p = bad_chan s p" for p by (simp add: bad_chan_def)
  have err: "sc_error ?s = None \<longleftrightarrow> sc_error s = None \<and> sc_phase s ?p = Finished None"
    using ph by (auto simp: join_task_def set_phase_def split: Phase.splits option.splits)
  have ab: "sc_abort ?s \<longleftrightarrow> sc_abort s \<or> (\<exists>e. sc_phase s ?p = Finished (Some e))"
    using ph by (auto simp: join_task_def set_phase_def split: Phase.splits option.splits)
  have cause: "root_cause ts outcome ?s" if "sc_error ?s \<noteq> None \<or> bad_chan ?s p" for p
  proof -
    have "sc_error s \<noteq> None \<or> bad_chan s p \<or> bad_chan s ?p"
      using that err bad c ph by (auto simp: bad_chan_def chan_of_phase_def split: option.splits)
    then show ?thesis using sched_invD(6,7)[OF inv] root_cause_mono[OF step inv] by blast
  qed
  show ?thesis
    unfolding sched_inv_def
  proof (intro conjI allI impI)
    fix p dep assume "(p, dep) \<in> run_rel ts" "sc_phase ?s p = Running \<or> ch_value (sc_chan ?s p) = DDone"
    then show "ch_value (sc_chan ?s dep) = DDone"
      using sched_invD(2)[OF inv, of p dep] by (auto simp: phase split: if_splits)
  next
    fix p assume "sc_error ?s = None" "sc_phase ?s p = Joined"
    then show "ch_value (sc_chan ?s p) = DDone"
      using sched_invD(3)[OF inv, of p] err c by (auto simp: phase chan_of_phase_def split: if_splits)
  next
    show "sc_abort ?s \<Longrightarrow> sc_error ?s \<noteq> None" using ab err sched_invD(4)[OF inv] by auto
  next
    fix p assume "sc_phase ?s p = Aborted"
    then show "sc_abort ?s" using ab sched_invD(5)[OF inv, of p] by (auto simp: phase split: if_splits)
  next
    assume "sc_error ?s \<noteq> None \<or> (\<exists>p. bad_chan ?s p)"
    then show "root_cause ts outcome ?s" using cause by blast
  next
    assume "sc_error ?s \<noteq> None"
    then have "root_cause ts outcome ?s" using cause by blast
    then show "\<exists>p\<in>t_package ` set ts. ch_value (sc_chan ?s p) \<noteq> DDone" by (force simp: root_cause_def)
  qed (rule ch)
qed

lemma sched_step_inv:
  assumes step: "sched_step ts outcome s s'" and inv: "sched_inv ts outcome s" and d: "distinct (map t_package ts)"
  shows "sched_inv ts outcome s'"
  using step
proof cases
  case (step_start t)
  show ?thesis unfolding step_start(1) by (rule start_inv[OF inv step_start(2,3) d step_start(4)])
next
  case (step_skip t)
  show ?thesis unfolding step_skip(1) by (rule skip_inv[OF inv step_skip(2,3,4)])
next
  case (step_finish t r)
  show ?thesis unfolding step_finish(1) by (rule finish_inv[where r=r]) (use inv step_finish in auto)
next
  case (step_cancel t)
  show ?thesis unfolding step_cancel(1) by (rule cancel_inv[OF inv step_cancel(2,4,3)])
next
  case (step_join t)
  show ?thesis unfolding step_join(1) by (rule join_inv[OF inv step_join(2,3)])
qed

lemma sched_run_inv:
  assumes "sched_run ts outcome n s" "distinct (map t_package ts)"
  shows "sched_inv ts outcome s"
  using assms
proof induction
  case run_init
  show ?case by (rule sched_inv_init) simp
next
  case (run_step n s s')
  then show ?case using sched_step_inv by blast
qed

section \<open>Safety and result\<close>

text \<open>C10. Dependencies first: when a task's command is running, or has succeeded, every task of the run it
  needs, directly or through other tasks of the run, has succeeded, whatever the interleaving.\<close>
theorem sched_dependencies_first:
  assumes "distinct (map t_package ts)" "sched_run ts outcome n s"
    "sc_phase s p = Running \<or> ch_value (sc_chan s p) = DDone" "(p, d) \<in> (run_rel ts)\<^sup>+"
  shows "ch_value (sc_chan s d) = DDone"
  using assms(4,3)
proof (induction rule: trancl_induct)
  case (base d)
  then show ?case using sched_invD(2)[OF sched_run_inv[OF assms(2,1)]] by blast
next
  case (step d e)
  then show ?case using sched_invD(2)[OF sched_run_inv[OF assms(2,1)]] by blast
qed

lemma run_result_facts:
  assumes "distinct (map t_package ts)" "sched_run ts outcome n s" "all_joined ts s"
  shows "(run_result s = Inr () \<longleftrightarrow> (\<forall>t\<in>set ts. ch_value (sc_chan s (t_package t)) = DDone)) \<and>
    (run_result s \<noteq> Inr () \<longrightarrow> (\<exists>t\<in>set ts. \<exists>e. outcome t (Some e) \<and> ch_value (sc_chan s (t_package t)) = DFailed))"
proof -
  note inv = sched_run_inv[OF assms(2,1)]
  show ?thesis
  proof (cases "sc_error s")
    case None
    then show ?thesis
      using sched_invD(3)[OF inv] assms(3) by (auto simp: run_result_def all_joined_def)
  next
    case (Some e)
    then have "sc_error s \<noteq> None" by simp
    from sched_invD(6)[OF inv this] sched_invD(8)[OF inv this] show ?thesis
      using Some by (auto simp: run_result_def root_cause_def)
  qed
qed

text \<open>The result of a run: when every task has been joined, the run reports success exactly if every task
  succeeded; when it reports an error, some task's own command failed (a skipped or cancelled task is
  never the only reason).\<close>
theorem sched_result_correct:
  assumes "distinct (map t_package ts)" "sched_run ts outcome n s" "all_joined ts s"
  shows "(run_result s = Inr () \<longleftrightarrow> (\<forall>t\<in>set ts. ch_value (sc_chan s (t_package t)) = DDone)) \<and>
    (run_result s \<noteq> Inr () \<longrightarrow> (\<exists>t\<in>set ts. \<exists>e. outcome t (Some e) \<and> ch_value (sc_chan s (t_package t)) = DFailed))"
  by (rule run_result_facts[OF assms])

section \<open>Progress\<close>

fun phase_weight :: "Phase \<Rightarrow> nat" where
  "phase_weight Waiting = 3"
| "phase_weight Running = 2"
| "phase_weight (Finished _) = 1"
| "phase_weight Aborted = 1"
| "phase_weight Joined = 0"

definition sched_weight :: "Task list \<Rightarrow> Sched \<Rightarrow> nat" where
  "sched_weight ts s = (\<Sum>p\<in>t_package ` set ts. phase_weight (sc_phase s p))"

lemma step_weight:
  assumes "sched_step ts outcome s s'"
  shows "sched_weight ts s' < sched_weight ts s"
proof -
  have "\<exists>t\<in>set ts. (\<forall>p. p \<noteq> t_package t \<longrightarrow> sc_phase s' p = sc_phase s p) \<and>
      phase_weight (sc_phase s' (t_package t)) < phase_weight (sc_phase s (t_package t))"
    using assms
  proof cases
    case (step_start t)
    then show ?thesis by (intro bexI[of _ t]) auto
  next
    case (step_skip t)
    then show ?thesis by (intro bexI[of _ t]) auto
  next
    case (step_finish t r)
    then show ?thesis by (intro bexI[of _ t]) auto
  next
    case (step_cancel t)
    then show ?thesis by (intro bexI[of _ t]) auto
  next
    case (step_join t)
    then show ?thesis by (intro bexI[of _ t]) auto
  qed
  then obtain t where t: "t \<in> set ts" "\<And>p. p \<noteq> t_package t \<Longrightarrow> sc_phase s' p = sc_phase s p"
    "phase_weight (sc_phase s' (t_package t)) < phase_weight (sc_phase s (t_package t))" by blast
  have "phase_weight (sc_phase s' p) \<le> phase_weight (sc_phase s p)" for p
    using t(2,3) by (cases "p = t_package t") auto
  then show ?thesis
    unfolding sched_weight_def using t(1,3) by (intro sum_strict_mono_ex1) auto
qed

lemma run_weight_bound:
  "sched_run ts outcome n s \<Longrightarrow> n + sched_weight ts s \<le> 3 * length ts"
proof (induction rule: sched_run.induct)
  case run_init
  have "card (t_package ` set ts) \<le> length ts"
    using card_image_le[of "set ts" t_package] card_length[of ts] by simp
  then show ?case by (simp add: sched_weight_def sched_init_def)
next
  case (run_step n s s')
  then show ?case using step_weight[OF run_step(2)] by linarith
qed

lemma run_bounded_live:
  assumes "distinct (map t_package ts)" "acyclic (run_rel ts)" "\<forall>t\<in>set ts. \<exists>r. outcome t r"
    "sched_run ts outcome n s"
  shows "n \<le> 3 * length ts \<and> (all_joined ts s \<or> (\<exists>s'. sched_step ts outcome s s'))"
proof
  show "n \<le> 3 * length ts" using run_weight_bound[OF assms(4)] by linarith
  note inv = sched_run_inv[OF assms(4,1)]
  show "all_joined ts s \<or> (\<exists>s'. sched_step ts outcome s s')"
  proof (rule ccontr)
    assume "\<not> (all_joined ts s \<or> (\<exists>s'. sched_step ts outcome s s'))"
    then have nj: "\<not> all_joined ts s" and stuck: "\<And>s'. \<not> sched_step ts outcome s s'" by auto
    have phases: "sc_phase s (t_package t) = Waiting \<or> sc_phase s (t_package t) = Joined" if "t \<in> set ts" for t
    proof (cases "sc_phase s (t_package t)")
      case Running
      obtain r where "outcome t r" using assms(3) \<open>t \<in> set ts\<close> by blast
      then have "sched_step ts outcome s (finish_task t r s)"
        using that Running by (intro step_finish)
      then show ?thesis using stuck by blast
    next
      case (Finished r)
      then have "sched_step ts outcome s (join_task t s)" using that by (intro step_join) auto
      then show ?thesis using stuck by blast
    next
      case Aborted
      then have "sched_step ts outcome s (join_task t s)" using that by (intro step_join) auto
      then show ?thesis using stuck by blast
    qed simp_all
    have fin: "finite (run_rel ts)"
    proof -
      have "run_rel ts \<subseteq> (t_package ` set ts) \<times> (t_package ` set ts)" by (auto simp: run_rel_def)
      then show ?thesis by (rule finite_subset) simp
    qed
    have no_wait: "t \<in> set ts \<Longrightarrow> t_package t = p \<Longrightarrow> sc_phase s p \<noteq> Waiting" for p t
    proof (induction p arbitrary: t rule: wf_induct_rule[OF finite_acyclic_wf_converse[OF fin assms(2)]])
      case (1 p)
      show ?case
      proof
        assume w: "sc_phase s p = Waiting"
        have "ch_closed c" if c: "c \<in> set (dep_chans ts s t)" for c
        proof -
          obtain d where d: "(t_package t, d) \<in> run_rel ts" "c = sc_chan s d"
            using dep_chans_rel[OF "1.prems"(1) c] by blast
          then obtain u where u: "u \<in> set ts" "t_package u = d" by (auto simp: run_rel_def)
          have "sc_phase s d \<noteq> Waiting" using "1.IH"[of d u] d(1) u "1.prems"(2) by auto
          then have "sc_phase s d = Joined" using phases[OF u(1)] u(2) by simp
          then show ?thesis using sched_invD(1)[OF inv, of d] d(2) by (simp add: chan_of_phase_def)
        qed
        then have "await_deps (dep_chans ts s t) \<noteq> Blocked" using await_deps_blocked by blast
        then show False
          using stuck step_start[OF "1.prems"(1), of s outcome] step_skip[OF "1.prems"(1), of s outcome] w "1.prems"(2)
          by (cases "await_deps (dep_chans ts s t)") auto
      qed
    qed
    then show False using nj phases by (auto simp: all_joined_def)
  qed
qed

text \<open>No deadlock: with acyclic dependencies, and commands that end, the run takes at most three steps per
  task and can always take one until every task has been joined.\<close>
theorem sched_progress:
  assumes "distinct (map t_package ts)" "acyclic (run_rel ts)" "\<forall>t\<in>set ts. \<exists>r. outcome t r"
    "sched_run ts outcome n s"
  shows "n \<le> 3 * length ts \<and> (all_joined ts s \<or> (\<exists>s'. sched_step ts outcome s s'))"
  by (rule run_bounded_live[OF assms])

subsection \<open>Concrete runs\<close>

definition ex_task :: "string \<Rightarrow> string list \<Rightarrow> Task" where
  "ex_task n deps = \<lparr>t_package = n, t_script = ''build'', t_command = ''tsc'', t_cwd = n, t_sandbox = Strict,
     t_is_root = False, t_input_paths = [], t_workspace_root = ''/w'', t_declared_input_globs = [],
     t_dep_packages = deps, t_output_globs = [], t_env_hash_inputs = []\<rparr>"

definition ex_two :: "Task list" where
  "ex_two = [ex_task ''lib'' [], ex_task ''app'' [''lib'']]"

abbreviation ex_lib :: Task where "ex_lib \<equiv> ex_task ''lib'' []"
abbreviation ex_app :: Task where "ex_app \<equiv> ex_task ''app'' [''lib'']"

lemma ex_task_simps [simp]: "t_package (ex_task n ds) = n" "t_dep_packages (ex_task n ds) = ds"
  "t_is_root (ex_task n ds) = False"
  by (simp_all add: ex_task_def)

lemma ex_two_distinct: "distinct (map t_package ex_two)"
  by (simp add: ex_two_def)

lemma ex_two_in [simp]: "ex_lib \<in> set ex_two" "ex_app \<in> set ex_two"
  by (simp_all add: ex_two_def)

lemma ex_two_names: "t_package ` set ex_two = {''lib'', ''app''}"
  by (simp add: ex_two_def)

lemma ex_rel: "run_rel ex_two = {(''app'', ''lib'')}"
proof
  show "run_rel ex_two \<subseteq> {(''app'', ''lib'')}" by (auto simp: run_rel_def ex_two_def)
  show "{(''app'', ''lib'')} \<subseteq> run_rel ex_two"
    using ex_two_in(2) unfolding run_rel_def ex_two_names by (auto intro!: exI[of _ ex_app])
qed

lemma ex_two_not_joined: "\<not> all_joined ex_two sched_init"
  unfolding all_joined_def by (intro notI) (use ex_two_in(1) in \<open>fastforce simp: sched_init_def\<close>)

definition ex_sched1 :: Sched where "ex_sched1 = start_task ex_lib sched_init"
definition ex_sched2 :: "RunError option \<Rightarrow> Sched" where "ex_sched2 r = finish_task ex_lib r ex_sched1"
definition ex_sched3 :: Sched where "ex_sched3 = start_task ex_app (ex_sched2 None)"
definition ex_sched3f :: Sched where "ex_sched3f = skip_task ex_app (ex_sched2 (Some (TaskFailed ''lib'' 1)))"
definition ex_sched4f :: Sched where "ex_sched4f = join_task ex_app ex_sched3f"
definition ex_sched5f :: Sched where "ex_sched5f = join_task ex_lib ex_sched4f"

lemmas ex_sched_defs = ex_sched1_def ex_sched2_def ex_sched3_def ex_sched3f_def sched_init_def dep_chans_def ex_two_names

lemma ex_srun2: "sched_run ex_two (\<lambda>_ _. True) 2 (ex_sched2 r)"
proof -
  have "sched_run ex_two (\<lambda>_ _. True) 1 ex_sched1"
    using run_step[OF run_init step_start[of ex_lib]] by (simp add: ex_sched_defs)
  from run_step[OF this step_finish[of ex_lib _ ex_sched1 "\<lambda>_ _. True" r]] show ?thesis
    by (simp add: ex_sched_defs numeral_2_eq_2)
qed

lemma ex_srun3: "sched_run ex_two (\<lambda>_ _. True) 3 ex_sched3"
  using run_step[OF ex_srun2[of None] step_start[of ex_app]]
  by (simp add: ex_sched_defs numeral_3_eq_3 numeral_2_eq_2)

lemma ex_srun5: "sched_run ex_two (\<lambda>_ _. True) 5 ex_sched5f"
proof -
  have "sched_run ex_two (\<lambda>_ _. True) 3 ex_sched3f"
    using run_step[OF ex_srun2[of "Some (TaskFailed ''lib'' 1)"] step_skip[of ex_app]]
    by (simp add: ex_sched_defs numeral_3_eq_3 numeral_2_eq_2)
  from run_step[OF this step_join[of ex_app]] have "sched_run ex_two (\<lambda>_ _. True) 4 ex_sched4f"
    by (simp add: ex_sched_defs ex_sched4f_def eval_nat_numeral)
  from run_step[OF this step_join[of ex_lib]] show ?thesis
    by (simp add: ex_sched_defs ex_sched4f_def ex_sched5f_def eval_nat_numeral)
qed

theorem sched_dependencies_first_witness: "ch_value (sc_chan ex_sched3 ''lib'') = DDone"
  using sched_dependencies_first[OF ex_two_distinct ex_srun3, of "''app''" "''lib''"]
  by (simp add: ex_rel ex_sched_defs)

theorem sched_result_correct_witness: "run_result ex_sched5f = Inl (Skipped ''app'') \<and> \<not> all_joined ex_two sched_init"
proof
  have "all_joined ex_two ex_sched5f"
    by (simp add: all_joined_def ex_two_def ex_sched5f_def ex_sched4f_def ex_sched_defs)
  from sched_result_correct[OF ex_two_distinct ex_srun5 this]
  have "run_result ex_sched5f \<noteq> Inr ()"
    by (auto simp: ex_two_def ex_sched5f_def ex_sched4f_def ex_sched_defs)
  then show "run_result ex_sched5f = Inl (Skipped ''app'')"
    by (simp add: run_result_def ex_sched5f_def ex_sched4f_def ex_sched_defs join_task_def set_phase_def
        skip_task_def finish_task_def publish_def start_task_def)
  show "\<not> all_joined ex_two sched_init" by (rule ex_two_not_joined)
qed

theorem sched_progress_witness: "\<exists>s'. sched_step ex_two (\<lambda>_ _. True) sched_init s'"
proof -
  have "acyclic (run_rel ex_two)" by (auto simp: ex_rel acyclic_insert intro: wf_acyclic)
  from sched_progress[OF ex_two_distinct this _ run_init, of "\<lambda>_ _. True"] show ?thesis
    using ex_two_not_joined by blast
qed

section \<open>Waves\<close>

lemma next_level_above: "l \<in> set ls \<Longrightarrow> l < next_level ls"
proof -
  have "\<forall>x\<in>set (a # xs). x \<le> fold max xs a" for a :: nat and xs
  proof (induction xs arbitrary: a)
    case (Cons b xs)
    have "max b a \<le> fold max xs (max b a)" using Cons[of "max b a"] by simp
    then show ?case using Cons[of "max b a"] by auto
  qed simp
  then show "l \<in> set ls \<Longrightarrow> l < next_level ls"
    by (cases ls) (fastforce simp: next_level_def less_Suc_eq_le)+
qed

lemma put_level_length: "length (put_level l t levels) = max (length levels) (l + 1)"
  by (auto simp: put_level_def Let_def)

lemma put_level_nth:
  "i < length (put_level l t levels) \<Longrightarrow>
   set (put_level l t levels ! i) = (if i < length levels then set (levels ! i) else {}) \<union> (if i = l then {t} else {})"
  by (auto simp: put_level_def Let_def nth_list_update nth_append split: if_splits)

definition level_inv :: "(string, Package) hmap \<Rightarrow> (string, Task) hmap \<Rightarrow> string set
    \<Rightarrow> (string, nat) hmap \<times> Task list list \<Rightarrow> bool" where
  "level_inv m tm seen = (\<lambda>(lv, levels).
     (\<forall>n l. hget lv n = Some l \<longrightarrow> n \<in> seen \<and> l < length levels \<and> (\<exists>t. hget tm n = Some t \<and> t \<in> set (levels ! l))) \<and>
     (\<forall>i<length levels. \<forall>t\<in>set (levels ! i). \<exists>n. hget tm n = Some t \<and> hget lv n = Some i) \<and>
     (\<forall>n\<in>seen. hget tm n \<noteq> None \<longrightarrow> hget m n \<noteq> None \<longrightarrow> hget lv n \<noteq> None) \<and>
     (\<forall>n d l l'. (n, d) \<in> pkg_rel m \<longrightarrow> hget lv n = Some l \<longrightarrow> hget lv d = Some l' \<longrightarrow> l' < l))"

lemma level_step_inv:
  assumes inv: "level_inv m tm seen st" and n: "n \<notin> seen"
    and dep: "\<And>p. (p, n) \<in> pkg_rel m \<Longrightarrow> p \<notin> insert n seen"
  shows "level_inv m tm (insert n seen) (level_step m tm n st)"
proof -
  obtain lv levels where st: "st = (lv, levels)" by (cases st)
  show ?thesis
  proof (cases "hget tm n = None \<or> hget m n = None")
    case True
    then have "level_step m tm n st = st" by (auto simp: st split: option.splits)
    then show ?thesis using inv True by (auto simp: level_inv_def st)
  next
    case False
    then obtain t pkg where t: "hget tm n = Some t" "hget m n = Some pkg" by (meson option.exhaust)
    let ?l = "next_level (dep_levels lv tm pkg)" and ?ls = "put_level (next_level (dep_levels lv tm pkg)) t levels"
    have step: "level_step m tm n st = (hput n ?l lv, ?ls)" by (simp add: st t Let_def)
    note I = inv[unfolded level_inv_def st prod.case]
    have lvn: "hget lv n = None" using I n by (metis option.exhaust)
    have lt: "?l < length ?ls" by (simp add: put_level_length)
    have nth_l: "set (?ls ! ?l) = (if ?l < length levels then set (levels ! ?l) else {}) \<union> {t}"
      using put_level_nth[OF lt] by simp
    have below: "l' < ?l" if "(n, d) \<in> pkg_rel m" "hget lv d = Some l'" for d l'
    proof -
      have "d \<in> set (pkg_deps pkg)" using that(1) t(2) by (simp add: pkg_rel_def)
      moreover have "hget tm d \<noteq> None" using I that(2) by force
      ultimately have "l' \<in> set (dep_levels lv tm pkg)"
        using that(2) by (force simp: dep_levels_def in_set_map_filter)
      then show ?thesis by (rule next_level_above)
    qed
    show ?thesis
      unfolding step level_inv_def prod.case
    proof (intro conjI allI impI ballI)
      fix k l assume k: "hget (hput n ?l lv) k = Some l"
      show "k \<in> insert n seen" using k I by (auto split: if_splits)
      show "l < length ?ls" using k I lt by (fastforce simp: put_level_length split: if_splits)
      show "\<exists>u. hget tm k = Some u \<and> u \<in> set (?ls ! l)"
      proof (cases "k = n")
        case True
        then show ?thesis using k t nth_l by auto
      next
        case False
        then have kl: "hget lv k = Some l" using k by simp
        then have "l < length levels" using I by blast
        then have "l < length ?ls" by (simp add: put_level_length)
        then have sub: "set (levels ! l) \<subseteq> set (?ls ! l)"
          using put_level_nth \<open>l < length levels\<close> by auto
        obtain u where "hget tm k = Some u" "u \<in> set (levels ! l)" using I kl by blast
        then show ?thesis using sub by blast
      qed
    next
      fix i u assume i: "i < length ?ls" "u \<in> set (?ls ! i)"
      then consider "i < length levels" "u \<in> set (levels ! i)" | "i = ?l" "u = t"
        by (auto simp: put_level_nth split: if_splits)
      then show "\<exists>k. hget tm k = Some u \<and> hget (hput n ?l lv) k = Some i"
      proof cases
        case 1
        then obtain k where "hget tm k = Some u" "hget lv k = Some i" using I by blast
        then show ?thesis using lvn by (intro exI[of _ k]) auto
      next
        case 2
        then show ?thesis using t by (intro exI[of _ n]) simp
      qed
    next
      fix k assume "k \<in> insert n seen" "hget tm k \<noteq> None" "hget m k \<noteq> None"
      then show "hget (hput n ?l lv) k \<noteq> None" using I by auto
    next
      fix p d l l' assume p: "(p, d) \<in> pkg_rel m" "hget (hput n ?l lv) p = Some l" "hget (hput n ?l lv) d = Some l'"
      have "p \<in> insert n seen" using p(2) I by (auto split: if_splits)
      then have "d \<noteq> n" using dep p(1) by blast
      then have d: "hget lv d = Some l'" using p(3) by simp
      show "l' < l"
      proof (cases "p = n")
        case True
        then show ?thesis using below p(1,2) d by auto
      next
        case False
        then show ?thesis using I p(1,2) d by auto
      qed
    qed
  qed
qed

lemma levels_inv:
  assumes "distinct order" "\<forall>(p, d)\<in>pkg_rel m. pos_before order d p"
  shows "level_inv m tm (set order) (fold (level_step m tm) order ([], []))"
proof -
  have "level_inv m tm (set xs) (fold (level_step m tm) xs ([], []))" if "order = xs @ ys" for xs ys
    using that
  proof (induction xs arbitrary: ys rule: rev_induct)
    case Nil
    then show ?case by (simp add: level_inv_def)
  next
    case (snoc n xs)
    have notin: "n \<notin> set xs" using assms(1) snoc.prems by simp
    have "p \<notin> insert n (set xs)" if pn: "(p, n) \<in> pkg_rel m" for p
    proof
      assume "p \<in> insert n (set xs)"
      then have p: "p \<in> set (xs @ [n])" by simp
      obtain i j where ij: "i < j" "j < length order" "order ! i = n" "order ! j = p"
        using assms(2) pn by (auto simp: pos_before_def)
      have "order ! length xs = n" "length xs < length order" using snoc.prems by (simp_all add: nth_append)
      then have "i = length xs" using ij assms(1) by (metis nth_eq_iff_index_eq less_trans)
      then have "p \<in> set ys" using ij snoc.prems
        by (auto simp: nth_append in_set_conv_nth intro!: exI[of _ "j - Suc (length xs)"])
      then show False using p assms(1) snoc.prems by auto
    qed
    from level_step_inv[OF snoc.IH[of "n # ys"] notin this] snoc.prems show ?case by simp
  qed
  from this[of order "[]"] show ?thesis by simp
qed

lemma task_map_spec:
  assumes "distinct (map t_package (filter (\<lambda>t. \<not> t_is_root t) tasks))"
  shows "hget (task_map tasks) n = Some t \<longleftrightarrow> t \<in> set tasks \<and> \<not> t_is_root t \<and> t_package t = n"
proof -
  have "distinct (map t_package xs) \<Longrightarrow> hget (fold (\<lambda>t m. hput (t_package t) t m) xs []) n = Some t \<longleftrightarrow>
      t \<in> set xs \<and> t_package t = n" for xs
  proof (induction xs rule: rev_induct)
    case (snoc x xs)
    then show ?case by (auto simp: image_iff)
  qed simp
  from this[OF assms] show ?thesis by (auto simp: task_map_def)
qed

text \<open>The waves: every task is in some wave; the root tasks form a wave of their own before all others; and
  a package task comes in a strictly later wave than every task of a package it depends on.\<close>
theorem compute_task_levels_correct:
  assumes "distinct (map pkg_name pkgs)" "build_dag ts pkgs = Inr g"
    "topo_ok ts (length pkgs) (map prod.swap (g_edges g))"
    "distinct (map t_package (filter (\<lambda>t. \<not> t_is_root t) tasks))"
    "\<forall>t\<in>set tasks. \<not> t_is_root t \<longrightarrow> t_package t \<in> pkg_name ` set pkgs"
    "compute_task_levels ts g tasks = Some ws"
  shows "set (concat ws) = set tasks \<and>
    (\<forall>i<length ws. \<forall>t\<in>set (ws ! i). t_is_root t \<longrightarrow> i = 0 \<and> (\<forall>u\<in>set (ws ! 0). t_is_root u)) \<and>
    (\<forall>i<length ws. \<forall>j<length ws. \<forall>t\<in>set (ws ! i). \<forall>u\<in>set (ws ! j).
       \<not> t_is_root t \<and> \<not> t_is_root u \<and> (t_package t, t_package u) \<in> deps_rel pkgs \<longrightarrow> j < i)"
proof -
  let ?m = "g_packages g" and ?tm = "task_map tasks"
  obtain order where order: "topological_sort ts g = Inr order"
    using assms(6) by (auto simp: compute_task_levels_def split: sum.splits)
  note O = topo_order_deps[OF assms(1-3) order]
  have rel: "pkg_rel ?m = deps_rel pkgs"
    using build_dag_fields[OF assms(2)] pkg_rel_packages[OF assms(1)] by simp
  obtain lv levels where st: "fold (level_step ?m ?tm) order ([], []) = (lv, levels)" by fastforce
  have I: "level_inv ?m ?tm (set order) (lv, levels)"
    using levels_inv[of order ?m ?tm] O st by (simp add: rel)
  have I1: "l < length levels \<and> (\<exists>t. hget ?tm n = Some t \<and> t \<in> set (levels ! l))" if "hget lv n = Some l" for n l
    using I that unfolding level_inv_def by blast
  have I2: "\<exists>n. hget ?tm n = Some t \<and> hget lv n = Some i" if "i < length levels" "t \<in> set (levels ! i)" for i t
    using I that unfolding level_inv_def by blast
  have I3: "hget lv n \<noteq> None" if "n \<in> set order" "hget ?tm n \<noteq> None" "hget ?m n \<noteq> None" for n
    using I that unfolding level_inv_def by blast
  note tm = task_map_spec[OF assms(4)]
  let ?roots = "filter t_is_root tasks"
  let ?lvls = "map (sort_key t_package) levels"
  have ws: "ws = (if ?roots = [] then ?lvls else sort_key t_package ?roots # ?lvls)"
    using assms(6) order st by (simp add: compute_task_levels_def Let_def)
  have lev: "t \<in> set tasks \<and> \<not> t_is_root t \<and> hget lv (t_package t) = Some i"
    if "i < length levels" "t \<in> set (levels ! i)" for i t
    using I2[OF that] tm by auto
  have cover: "\<exists>i<length levels. t \<in> set (levels ! i)" if t: "t \<in> set tasks" "\<not> t_is_root t" for t
  proof -
    have tmt: "hget ?tm (t_package t) = Some t" using t tm by simp
    obtain p where p: "p \<in> set pkgs" "pkg_name p = t_package t" using assms(5) t by force
    then have m: "hget ?m (t_package t) \<noteq> None"
      using build_dag_fields[OF assms(2)] fold_packages[OF assms(1), of "t_package t" p] by simp
    have "t_package t \<in> set order" using O p by force
    then have "hget lv (t_package t) \<noteq> None" using I3 tmt m by simp
    then obtain l where l: "hget lv (t_package t) = Some l" by blast
    then obtain u where "l < length levels" "hget ?tm (t_package t) = Some u" "u \<in> set (levels ! l)"
      using I1 by blast
    then show ?thesis using tmt by auto
  qed
  have later: "j < i" if "i < length levels" "j < length levels" "t \<in> set (levels ! i)" "u \<in> set (levels ! j)"
      "(t_package t, t_package u) \<in> deps_rel pkgs" for i j t u
    using I lev[OF that(1,3)] lev[OF that(2,4)] that(5) unfolding rel[symmetric] level_inv_def by blast
  have lvls_nth: "set (?lvls ! i) = set (levels ! i)" if "i < length levels" for i using that by simp
  have all: "(\<Union>l\<in>set levels. set l) = {t \<in> set tasks. \<not> t_is_root t}"
    using lev cover by (fastforce simp: in_set_conv_nth)
  show ?thesis
  proof (cases "?roots = []")
    case True
    then have nr: "\<not> t_is_root t" if "t \<in> set tasks" for t using that by (auto simp: filter_empty_conv)
    have "ws = ?lvls" using True ws by simp
    then show ?thesis using all nr lev later by auto
  next
    case False
    then have w: "ws = sort_key t_package ?roots # ?lvls" using ws by simp
    have r0: "set (ws ! 0) = {t \<in> set tasks. t_is_root t}" by (auto simp: w)
    have rs: "set (ws ! Suc i) = set (levels ! i)" if "i < length levels" for i using that by (simp add: w)
    have len: "length ws = Suc (length levels)" by (simp add: w)
    have "set (concat ws) = set tasks" using all by (auto simp: w)
    moreover have "i = 0 \<and> (\<forall>u\<in>set (ws ! 0). t_is_root u)"
      if "i < length ws" "t \<in> set (ws ! i)" "t_is_root t" for i t
      using that r0 rs lev len by (cases i) auto
    moreover have "j < i" if "i < length ws" "j < length ws" "t \<in> set (ws ! i)" "u \<in> set (ws ! j)"
      "\<not> t_is_root t" "\<not> t_is_root u" "(t_package t, t_package u) \<in> deps_rel pkgs" for i j t u
    proof -
      from that(3,5) r0 obtain i' where i: "i = Suc i'" by (cases i) auto
      from that(4,6) r0 obtain j' where j: "j = Suc j'" by (cases j) auto
      show ?thesis using later[of i' j' t u] that rs len i j by simp
    qed
    ultimately show ?thesis by blast
  qed
qed

theorem compute_task_levels_correct_witness:
  "compute_task_levels ex_topo ex_dag ex_two = Some [[ex_lib], [ex_app]] \<and> set (concat [[ex_lib], [ex_app]]) = set ex_two"
proof
  have m: "g_packages ex_dag = [(''app'', hd ex_resolved), (''lib'', last ex_resolved)]" by (simp add: ex_dag_def)
  have tm: "task_map ex_two = [(''lib'', ex_lib), (''app'', ex_app)]" by (simp add: task_map_def ex_two_def)
  have deps: "pkg_deps (hd ex_resolved) = [''lib'']" "pkg_deps (last ex_resolved) = []"
    by (simp_all add: ex_resolved_def)
  have roots: "filter t_is_root ex_two = []" by (simp add: ex_two_def)
  show c: "compute_task_levels ex_topo ex_dag ex_two = Some [[ex_lib], [ex_app]]"
    by (simp add: compute_task_levels_def ex_topo_dag m tm dep_levels_def deps next_level_def put_level_def
        roots)
  have "set (concat [[ex_lib], [ex_app]]) = set ex_two \<and> True"
    using compute_task_levels_correct[OF ex_distinct ex_build ex_topo_ok _ _ c] ex_two_names
    by (simp add: ex_two_def ex_resolved_def)
  then show "set (concat [[ex_lib], [ex_app]]) = set ex_two" by blast
qed

end
