(* ===== verification/Build_Run.thy ===== *)
theory Build_Run
  imports Scheduler_Props
begin

text \<open>
  A whole run of the scheduler (src/crates/scheduler/src/runner.rs, \<^verbatim>\<open>run_tasks\<close> and \<^verbatim>\<open>run_tasks_two_phase\<close>): the root tasks
  as a barrier, then the package tasks in the continuous execution of Scheduler, and the loops that collect what
  the tasks return; and the process of one task with its two pipes and the sampling of its memory
  (\<^verbatim>\<open>spawn_capture_tee_tracked\<close> and src/crates/scheduler/src/rss_monitor.rs).
\<close>

section \<open>Collecting results\<close>

text \<open>What joining a task gives: its result, or that it was cancelled or panicked.\<close>

datatype JoinResult = JoinOk | JoinErr RunError | JoinCancelled

fun first_error :: "JoinResult list \<Rightarrow> RunError option \<Rightarrow> RunError option" where
  "first_error [] err = err"
| "first_error (JoinOk # js) err = first_error js err"
| "first_error (JoinErr e # js) err = first_error js (if err = None then Some e else err)"
| "first_error (JoinCancelled # js) err = first_error js (if err = None then Some Killed else err)"

fun joined_errors :: "(RunError \<Rightarrow> string) \<Rightarrow> JoinResult list \<Rightarrow> bool \<Rightarrow> string list \<Rightarrow> string list" where
  "joined_errors msg [] did_abort errors = errors"
| "joined_errors msg (JoinOk # js) did_abort errors = joined_errors msg js did_abort errors"
| "joined_errors msg (JoinErr e # js) did_abort errors =
     joined_errors msg js True (if did_abort then errors else errors @ [msg e])"
| "joined_errors msg (JoinCancelled # js) did_abort errors =
     joined_errors msg js True (if did_abort then errors else errors @ [msg Killed])"

text \<open>The error of a run; \<^verbatim>\<open>show_nat\<close> prints a number.\<close>

definition collect_errors :: "(nat \<Rightarrow> string) \<Rightarrow> string list \<Rightarrow> string option" where
  "collect_errors show_nat errors =
     (if errors = [] then None
      else if length errors = 1 then Some (errors ! 0)
      else Some (show_nat (length errors) @ '' tasks failed:'' @ [newline] @ join_with [newline] (map (\<lambda>e. ''  - '' @ e) errors)))"

lemma first_error_Some [simp]: "first_error js (Some e) = Some e"
proof (induction js)
  case (Cons j js)
  then show ?case by (cases j) simp_all
qed simp

lemma joined_errors_aborted [simp]: "joined_errors msg js True errors = errors"
proof (induction js)
  case (Cons j js)
  then show ?case by (cases j) simp_all
qed simp

lemma joined_errors_first:
  "joined_errors msg js False [] = (case first_error js None of None \<Rightarrow> [] | Some e \<Rightarrow> [msg e])"
proof (induction js)
  case (Cons j js)
  then show ?case by (cases j) simp_all
qed simp

text \<open>Both runners report the same: the error of the first task joined that did not succeed.  The message for several
  failed tasks is never built.\<close>

theorem runners_report_alike:
  "collect_errors show_nat (joined_errors msg js False []) = map_option msg (first_error js None) \<and>
   length (joined_errors msg js False []) \<le> 1"
  by (simp add: joined_errors_first collect_errors_def split: option.split)

section \<open>The stages of a run\<close>

datatype Stage = RootStage Sched | PackageStage Sched | Ended "RunError + unit"

text \<open>Root tasks do not wait for anything.\<close>

definition no_deps :: "Task \<Rightarrow> Task" where
  "no_deps t = t\<lparr>t_dep_packages := []\<rparr>"

definition root_tasks :: "Task list \<Rightarrow> Task list" where
  "root_tasks tasks = map no_deps (sort_key t_package (filter t_is_root tasks))"

definition package_tasks :: "Task list \<Rightarrow> Task list" where
  "package_tasks tasks = filter (\<lambda>t. \<not> t_is_root t) tasks"

definition packages_stage :: "Task list \<Rightarrow> Stage" where
  "packages_stage tasks = (if package_tasks tasks = [] then Ended (Inr ()) else PackageStage sched_init)"

definition build_start :: "Task list \<Rightarrow> Stage" where
  "build_start tasks = (if root_tasks tasks = [] then packages_stage tasks else RootStage sched_init)"

definition roots_end :: "Task list \<Rightarrow> Sched \<Rightarrow> Stage" where
  "roots_end tasks s = (case run_result s of Inl e \<Rightarrow> Ended (Inl e) | Inr _ \<Rightarrow> packages_stage tasks)"

inductive build_step :: "Task list \<Rightarrow> (Task \<Rightarrow> RunError option \<Rightarrow> bool) \<Rightarrow> Stage \<Rightarrow> Stage \<Rightarrow> bool" for tasks outcome where
  root_moves: "sched_step (root_tasks tasks) outcome s s' \<Longrightarrow> build_step tasks outcome (RootStage s) (RootStage s')"
| root_ends: "all_joined (root_tasks tasks) s \<Longrightarrow> build_step tasks outcome (RootStage s) (roots_end tasks s)"
| package_moves: "sched_step (package_tasks tasks) outcome s s' \<Longrightarrow> build_step tasks outcome (PackageStage s) (PackageStage s')"
| package_ends: "all_joined (package_tasks tasks) s \<Longrightarrow> build_step tasks outcome (PackageStage s) (Ended (run_result s))"

inductive_cases root_stageE: "build_step tasks outcome (RootStage s) st"
inductive_cases package_stageE: "build_step tasks outcome (PackageStage s) st"
inductive_cases endedE: "build_step tasks outcome (Ended r) st"

inductive build_run :: "Task list \<Rightarrow> (Task \<Rightarrow> RunError option \<Rightarrow> bool) \<Rightarrow> nat \<Rightarrow> Stage \<Rightarrow> bool" for tasks outcome where
  build_begins: "build_run tasks outcome 0 (build_start tasks)"
| build_goes_on: "build_run tasks outcome n st \<Longrightarrow> build_step tasks outcome st st' \<Longrightarrow> build_run tasks outcome (Suc n) st'"

text \<open>A scheduler whose tasks have all been joined after m steps.\<close>

definition completed_run :: "Task list \<Rightarrow> (Task \<Rightarrow> RunError option \<Rightarrow> bool) \<Rightarrow> nat \<Rightarrow> RunError + unit \<Rightarrow> bool" where
  "completed_run ts outcome m res = (\<exists>s. sched_run ts outcome m s \<and> all_joined ts s \<and> run_result s = res)"

definition roots_passed :: "Task list \<Rightarrow> (Task \<Rightarrow> RunError option \<Rightarrow> bool) \<Rightarrow> nat \<Rightarrow> bool" where
  "roots_passed tasks outcome k =
     (root_tasks tasks = [] \<and> k = 0 \<or> (\<exists>m. k = Suc m \<and> completed_run (root_tasks tasks) outcome m (Inr ())))"

definition stage_inv :: "Task list \<Rightarrow> (Task \<Rightarrow> RunError option \<Rightarrow> bool) \<Rightarrow> nat \<Rightarrow> Stage \<Rightarrow> bool" where
  "stage_inv tasks outcome n st = (case st of
     RootStage s \<Rightarrow> sched_run (root_tasks tasks) outcome n s
   | PackageStage s \<Rightarrow> (\<exists>k m. n = k + m \<and> roots_passed tasks outcome k \<and> sched_run (package_tasks tasks) outcome m s)
   | Ended (Inl e) \<Rightarrow> (\<exists>m. n = Suc m \<and> completed_run (root_tasks tasks) outcome m (Inl e)) \<or>
       (\<exists>k m. n = k + Suc m \<and> roots_passed tasks outcome k \<and> completed_run (package_tasks tasks) outcome m (Inl e))
   | Ended (Inr _) \<Rightarrow> (\<exists>k. roots_passed tasks outcome k \<and>
       (package_tasks tasks = [] \<and> n = k \<or> (\<exists>m. n = k + Suc m \<and> completed_run (package_tasks tasks) outcome m (Inr ())))))"

lemma packages_stage_inv: "roots_passed tasks outcome k \<Longrightarrow> stage_inv tasks outcome k (packages_stage tasks)"
proof (cases "package_tasks tasks = []")
  case False
  assume "roots_passed tasks outcome k"
  then have "\<exists>k' m. k = k' + m \<and> roots_passed tasks outcome k' \<and> sched_run (package_tasks tasks) outcome m sched_init"
    using run_init[of "package_tasks tasks" outcome] by (intro exI[of _ k] exI[of _ 0]) simp
  with False show ?thesis by (simp add: packages_stage_def stage_inv_def)
qed (auto simp: packages_stage_def stage_inv_def)

lemma build_run_inv: "build_run tasks outcome n st \<Longrightarrow> stage_inv tasks outcome n st"
proof (induction rule: build_run.induct)
  case build_begins
  have "roots_passed tasks outcome 0" if "root_tasks tasks = []" using that by (simp add: roots_passed_def)
  then show ?case
    using packages_stage_inv[of tasks outcome 0] run_init[of "root_tasks tasks" outcome]
    by (auto simp: build_start_def stage_inv_def)
next
  case (build_goes_on n st st')
  show ?case
  proof (cases st)
    case (RootStage s)
    then have s: "sched_run (root_tasks tasks) outcome n s" using build_goes_on by (simp add: stage_inv_def)
    from build_goes_on(2)[unfolded RootStage] show ?thesis
    proof (rule root_stageE)
      fix s' assume "st' = RootStage s'" "sched_step (root_tasks tasks) outcome s s'"
      then show ?thesis using run_step[OF s] by (simp add: stage_inv_def)
    next
      assume e: "st' = roots_end tasks s" "all_joined (root_tasks tasks) s"
      then have "completed_run (root_tasks tasks) outcome n (run_result s)" using s by (auto simp: completed_run_def)
      then show ?thesis
        using e packages_stage_inv[of tasks outcome "Suc n"]
        by (cases "run_result s") (auto simp: roots_end_def stage_inv_def roots_passed_def)
    qed
  next
    case (PackageStage s)
    then obtain k m where s: "n = k + m" "roots_passed tasks outcome k" "sched_run (package_tasks tasks) outcome m s"
      using build_goes_on by (auto simp: stage_inv_def)
    from build_goes_on(2)[unfolded PackageStage] show ?thesis
    proof (rule package_stageE)
      fix s' assume e: "st' = PackageStage s'" "sched_step (package_tasks tasks) outcome s s'"
      then have "sched_run (package_tasks tasks) outcome (Suc m) s'" using run_step[OF s(3)] by simp
      then have "\<exists>k m. Suc n = k + m \<and> roots_passed tasks outcome k \<and> sched_run (package_tasks tasks) outcome m s'"
        using s(1,2) by (intro exI[of _ k] exI[of _ "Suc m"]) simp
      then show ?thesis using e by (simp add: stage_inv_def)
    next
      assume e: "st' = Ended (run_result s)" "all_joined (package_tasks tasks) s"
      then have c: "completed_run (package_tasks tasks) outcome m (run_result s)" using s(3) by (auto simp: completed_run_def)
      then show ?thesis
        using e s(1,2) by (cases "run_result s") (auto simp: stage_inv_def)
    qed
  qed (use build_goes_on(2) in \<open>auto elim: endedE\<close>)
qed

text \<open>A published success comes from an outcome of the task.\<close>

lemma done_outcome:
  "sched_run ts outcome n s \<Longrightarrow> ch_value (sc_chan s p) = DDone \<Longrightarrow> \<exists>t \<in> set ts. t_package t = p \<and> outcome t None"
proof (induction arbitrary: p rule: sched_run.induct)
  case (run_step n s s')
  from run_step(2) show ?case
  proof cases
    case (step_finish t r)
    then show ?thesis using run_step.IH[of p] run_step.prems
      by (cases "p = t_package t") (auto split: option.splits)
  next
    case (step_join t)
    then show ?thesis using run_step.IH[of p] run_step.prems 
      by (auto simp: join_task_def set_phase_def split: Phase.splits option.splits)
  next
    case (step_cancel t)
    then show ?thesis using run_step.IH[of p] run_step.prems by (cases "p = t_package t") auto
  next
    case (step_skip t)
    then show ?thesis using run_step.IH[of p] run_step.prems by (cases "p = t_package t") auto
  next
    case (step_start t)
    then show ?thesis using run_step.IH[of p] run_step.prems by auto
  qed
qed (simp add: sched_init_def)

lemma completed_facts:
  assumes "completed_run ts outcome m res" "distinct (map t_package ts)"
  shows "m \<le> 3 * length ts" "res = Inr () \<Longrightarrow> t \<in> set ts \<Longrightarrow> outcome t None"
    "res = Inl e \<Longrightarrow> \<exists>t \<in> set ts. \<exists>e. outcome t (Some e)"
proof -
  obtain s where s: "sched_run ts outcome m s" "all_joined ts s" "run_result s = res"
    using assms(1) by (auto simp: completed_run_def)
  show "m \<le> 3 * length ts" using run_weight_bound[OF s(1)] by linarith
  note facts = run_result_facts[OF assms(2) s(1,2)]
  show "outcome t None" if "res = Inr ()" "t \<in> set ts"
  proof -
    have "ch_value (sc_chan s (t_package t)) = DDone" using facts that s(3) by blast
    then obtain u where "u \<in> set ts" "t_package u = t_package t" "outcome u None" using done_outcome[OF s(1)] by blast
    then show ?thesis using that(2) assms(2) by (auto simp: distinct_map dest: inj_onD)
  qed
  show "\<exists>t \<in> set ts. \<exists>e. outcome t (Some e)" if "res = Inl e" using facts that s(3) by auto
qed

lemma roots_acyclic: "acyclic (run_rel (root_tasks tasks))"
proof -
  have "run_rel (root_tasks tasks) = {}" by (auto simp: run_rel_def root_tasks_def no_deps_def)
  then show ?thesis by (simp add: wf_acyclic)
qed

lemma roots_passed_facts:
  assumes "roots_passed tasks outcome k" "distinct (map t_package (root_tasks tasks))"
  shows "k \<le> 3 * length (root_tasks tasks) + 1 \<and> (\<forall>t \<in> set (root_tasks tasks). outcome t None)"
  using assms(1) completed_facts[OF _ assms(2)] by (fastforce simp: roots_passed_def)

lemma ended_facts:
  assumes "stage_inv tasks outcome n (Ended r)" "distinct (map t_package (root_tasks tasks))" "distinct (map t_package (package_tasks tasks))"
  shows "n \<le> 3 * (length (root_tasks tasks) + length (package_tasks tasks)) + 2 \<and>
    (case r of
       Inr _ \<Rightarrow> (\<forall>t \<in> set (root_tasks tasks) \<union> set (package_tasks tasks). outcome t None)
     | Inl _ \<Rightarrow> (\<exists>t \<in> set (root_tasks tasks) \<union> set (package_tasks tasks). \<exists>e. outcome t (Some e)))"
proof (cases r)
  case (Inl e)
  then consider m where "n = Suc m" "completed_run (root_tasks tasks) outcome m (Inl e)"
    | k m where "n = k + Suc m" "roots_passed tasks outcome k" "completed_run (package_tasks tasks) outcome m (Inl e)"
    using assms(1) by (auto simp: stage_inv_def)
  then show ?thesis
  proof cases
    case 1
    then show ?thesis using completed_facts(1,3)[OF 1(2) assms(2)] Inl by auto
  next
    case 2
    then show ?thesis using completed_facts(1,3)[OF 2(3) assms(3)] roots_passed_facts[OF 2(2) assms(2)] Inl by auto
  qed
next
  case (Inr u)
  then obtain k where k: "roots_passed tasks outcome k"
    "package_tasks tasks = [] \<and> n = k \<or> (\<exists>m. n = k + Suc m \<and> completed_run (package_tasks tasks) outcome m (Inr ()))"
    using assms(1) by (auto simp: stage_inv_def)
  from k(2) show ?thesis
  proof (elim disjE exE conjE)
    assume "package_tasks tasks = []" "n = k"
    then show ?thesis using roots_passed_facts[OF k(1) assms(2)] Inr by auto
  next
    fix m assume m: "n = k + Suc m" "completed_run (package_tasks tasks) outcome m (Inr ())"
    then show ?thesis using completed_facts(1,2)[OF m(2) assms(3)] roots_passed_facts[OF k(1) assms(2)] Inr by auto
  qed
qed

text \<open>C35. A whole run, whatever the interleaving: it takes at most three steps per task and two, can always go on until it has
  ended, starts the package tasks only after every root task has succeeded, ends well only when every task has
  succeeded, and with an error only when the command of some task failed.\<close>

theorem build_run_correct:
  assumes "distinct (map t_package (root_tasks tasks))" "distinct (map t_package (package_tasks tasks))"
    and "acyclic (run_rel (package_tasks tasks))"
    and "\<forall>t \<in> set (root_tasks tasks) \<union> set (package_tasks tasks). \<exists>r. outcome t r"
    and "build_run tasks outcome n st"
  shows "n \<le> 3 * length tasks + 2 \<and>
    (case st of
       Ended (Inr _) \<Rightarrow> (\<forall>t \<in> set (root_tasks tasks) \<union> set (package_tasks tasks). outcome t None)
     | Ended (Inl _) \<Rightarrow> (\<exists>t \<in> set (root_tasks tasks) \<union> set (package_tasks tasks). \<exists>e. outcome t (Some e))
     | PackageStage _ \<Rightarrow> (\<forall>t \<in> set (root_tasks tasks). outcome t None) \<and> (\<exists>st'. build_step tasks outcome st st')
     | RootStage _ \<Rightarrow> (\<exists>st'. build_step tasks outcome st st'))"
proof -
  have len: "length (root_tasks tasks) + length (package_tasks tasks) = length tasks"
    using sum_length_filter_compl[of t_is_root tasks] by (simp add: root_tasks_def package_tasks_def)
  have root_live: "\<exists>st'. build_step tasks outcome (RootStage s) st'" "m \<le> 3 * length (root_tasks tasks)"
    if "sched_run (root_tasks tasks) outcome m s" for m s
    using run_bounded_live[OF assms(1) roots_acyclic _ that] assms(4) by (auto intro: root_moves root_ends)
  have package_live: "\<exists>st'. build_step tasks outcome (PackageStage s) st'" "m \<le> 3 * length (package_tasks tasks)"
    if "sched_run (package_tasks tasks) outcome m s" for m s
    using run_bounded_live[OF assms(2,3) _ that] assms(4) by (auto intro: package_moves package_ends)
  note inv = build_run_inv[OF assms(5)] and passed = roots_passed_facts[OF _ assms(1)]
  show ?thesis
  proof (cases st)
    case (RootStage s)
    then show ?thesis using inv root_live len by (fastforce simp: stage_inv_def)
  next
    case (PackageStage s)
    then obtain k m where "n = k + m" "roots_passed tasks outcome k" "sched_run (package_tasks tasks) outcome m s"
      using inv by (auto simp: stage_inv_def)
    then show ?thesis using PackageStage passed package_live len by fastforce
  next
    case (Ended r)
    then show ?thesis using ended_facts[OF inv[unfolded Ended] assms(1,2)] len by (cases r) simp_all
  qed
qed

text \<open>An install that fails: no package task is started.\<close>

definition ex_install :: Task where
  "ex_install = (ex_task ''install'' [])\<lparr>t_is_root := True\<rparr>"

definition ex_build :: "Task list" where
  "ex_build = ex_install # ex_two"

definition ex_outcome :: "Task \<Rightarrow> RunError option \<Rightarrow> bool" where
  "ex_outcome t r = (r = (if t_package t = ''install'' then Some (TaskFailed ''install'' 1) else None))"

lemma ex_build_parts: "root_tasks ex_build = [no_deps ex_install]" "package_tasks ex_build = ex_two"
  by (simp_all add: root_tasks_def package_tasks_def ex_build_def ex_install_def ex_two_def)

lemma ex_install_name [simp]: "t_package (no_deps ex_install) = ''install''" "t_dep_packages (no_deps ex_install) = []"
  by (simp_all add: no_deps_def ex_install_def)

lemma ex_build_fails: "build_run ex_build ex_outcome 4 (Ended (Inl (TaskFailed ''install'' 1)))"
proof -
  let ?t = "no_deps ex_install"
  let ?s1 = "start_task ?t sched_init"
  let ?s2 = "finish_task ?t (Some (TaskFailed ''install'' 1)) ?s1"
  let ?s3 = "join_task ?t ?s2"
  have in_roots: "?t \<in> set (root_tasks ex_build)" by (simp add: ex_build_parts)
  have 0: "build_run ex_build ex_outcome 0 (RootStage sched_init)"
    using build_begins[of ex_build ex_outcome] by (simp add: build_start_def ex_build_parts)
  have "sched_step (root_tasks ex_build) ex_outcome sched_init ?s1"
    by (rule step_start[OF in_roots]) (simp_all add: sched_init_def dep_chans_def)
  from build_goes_on[OF 0 root_moves[OF this]] have 1: "build_run ex_build ex_outcome 1 (RootStage ?s1)" by simp
  have "sched_step (root_tasks ex_build) ex_outcome ?s1 ?s2"
    by (rule step_finish[OF in_roots]) (simp_all add: ex_outcome_def)
  from build_goes_on[OF 1 root_moves[OF this]] have 2: "build_run ex_build ex_outcome 2 (RootStage ?s2)" by (simp add: numeral_2_eq_2)
  have "sched_step (root_tasks ex_build) ex_outcome ?s2 ?s3"
    by (rule step_join[OF in_roots]) simp
  from build_goes_on[OF 2 root_moves[OF this]] have 3: "build_run ex_build ex_outcome 3 (RootStage ?s3)" by (simp add: numeral_3_eq_3 numeral_2_eq_2)
  have "all_joined (root_tasks ex_build) ?s3" by (simp add: all_joined_def ex_build_parts join_task_def set_phase_def)
  moreover have "run_result ?s3 = Inl (TaskFailed ''install'' 1)"
    by (simp add: run_result_def join_task_def) (simp add: sched_init_def)
  ultimately show ?thesis
    using build_goes_on[OF 3 root_ends] by (simp add: roots_end_def eval_nat_numeral)
qed

lemma build_run_correct_witness:
  "(4::nat) \<le> 3 * length ex_build + 2 \<and>
   (\<exists>t. t \<in> set (root_tasks ex_build) \<union> set (package_tasks ex_build) \<and> (\<exists>e. ex_outcome t (Some e)))"
proof -
  have "acyclic (run_rel (package_tasks ex_build))"
    by (auto simp: ex_build_parts ex_rel acyclic_insert intro: wf_acyclic)
  moreover have "distinct (map t_package (root_tasks ex_build))" "distinct (map t_package (package_tasks ex_build))"
    by (simp_all add: ex_build_parts ex_two_distinct)
  moreover have "\<exists>r. ex_outcome t r" for t by (simp add: ex_outcome_def)
  ultimately show ?thesis
    using build_run_correct[OF _ _ _ _ ex_build_fails] by (simp only: Stage.case sum.case) blast
qed

section \<open>The process of a task\<close>

text \<open>The reads of a pipe: the bytes of each, none at the end of the file, None for an error; a list that stops is read to
  its end.  Both pipes are read to their end or error before the results are looked at.\<close>

fun drain_pipe :: "string option list \<Rightarrow> string \<Rightarrow> string option" where
  "drain_pipe [] acc = Some acc"
| "drain_pipe (None # reads) acc = None"
| "drain_pipe (Some b # reads) acc = (if b = [] then Some acc else drain_pipe reads (acc @ b))"

record Child =
  cd_spawns :: bool
  cd_stdout :: "string option list"
  cd_stderr :: "string option list"
  cd_wait :: "int option option"

text \<open>\<^verbatim>\<open>lossy\<close> is the conversion of bytes to text.\<close>

definition spawn_capture_tee :: "(string \<Rightarrow> string) \<Rightarrow> Child \<Rightarrow> (int \<times> string \<times> string) option" where
  "spawn_capture_tee lossy C =
     (if \<not> cd_spawns C then None
      else (case (drain_pipe (cd_stdout C) [], drain_pipe (cd_stderr C) []) of
          (Some out, Some err) \<Rightarrow> (case cd_wait C of
              None \<Rightarrow> None
            | Some status \<Rightarrow> Some (case status of Some c \<Rightarrow> c | None \<Rightarrow> -1, lossy out, lossy err))
        | _ \<Rightarrow> None))"

text \<open>The polls of the monitor: whether it is told to stop, and the memory of the process if it is found.  None: it
  still polls.\<close>

fun track_peak_rss :: "(bool \<times> 64 word option) list \<Rightarrow> 64 word \<Rightarrow> 64 word option" where
  "track_peak_rss [] peak = None"
| "track_peak_rss ((stop, sample) # polls) peak =
     (if stop then Some peak else (case sample of None \<Rightarrow> Some peak | Some m \<Rightarrow> track_peak_rss polls (max peak m)))"

text \<open>The monitor is told to stop at its n-th poll, which happens only after the process has been waited for.\<close>

definition spawn_capture_tee_tracked :: "(string \<Rightarrow> string) \<Rightarrow> (nat \<Rightarrow> 64 word option) \<Rightarrow> nat \<Rightarrow> Child \<Rightarrow> (int \<times> string \<times> string \<times> 64 word) option" where
  "spawn_capture_tee_tracked lossy sample n C = map_option (\<lambda>(code, out, err).
     (code, out, err, case track_peak_rss (map (\<lambda>i. (False, sample i)) [0..<n] @ [(True, None)]) 0 of Some m \<Rightarrow> m | None \<Rightarrow> 0))
     (spawn_capture_tee lossy C)"

lemma drain_pipe_eof:
  "[] \<notin> set bs \<Longrightarrow> drain_pipe (map Some bs @ Some [] # reads) acc = Some (acc @ concat bs)"
  by (induction bs arbitrary: acc) auto

lemma track_peak_rss_samples:
  "track_peak_rss (map (\<lambda>m. (False, m)) ms @ [(True, None)]) peak = Some (fold (\<lambda>m p. max p m) (map the (takeWhile (\<lambda>m. m \<noteq> None) ms)) peak)"
  by (induction ms arbitrary: peak) (auto split: option.split)

text \<open>However the pipes split the output, it is converted as a whole; the peak is the greatest memory seen up to the
  end of the process.\<close>

lemma tracked_run_exact:
  assumes "cd_spawns C" "cd_wait C = Some status" "[] \<notin> set outs" "[] \<notin> set errs"
    and "cd_stdout C = map Some outs @ Some [] # rest1" "cd_stderr C = map Some errs @ Some [] # rest2"
  shows "spawn_capture_tee_tracked lossy sample n C =
    Some (case status of Some c \<Rightarrow> c | None \<Rightarrow> -1, lossy (concat outs), lossy (concat errs),
      fold (\<lambda>m p. max p m) (map the (takeWhile (\<lambda>m. m \<noteq> None) (map sample [0..<n]))) 0)"
proof -
  have "map (\<lambda>i. (False, sample i)) [0..<n] = map (\<lambda>m. (False, m)) (map sample [0..<n])" by simp
  then have "track_peak_rss (map (\<lambda>i. (False, sample i)) [0..<n] @ [(True, None)]) 0 =
      Some (fold (\<lambda>m p. max p m) (map the (takeWhile (\<lambda>m. m \<noteq> None) (map sample [0..<n]))) 0)"
    by (simp only: track_peak_rss_samples)
  then show ?thesis
    using assms by (simp add: spawn_capture_tee_tracked_def spawn_capture_tee_def drain_pipe_eof)
qed

text \<open>After an error on a pipe the monitor is not told to stop: it polls as long as the process is there.\<close>

lemma monitor_runs_on: "track_peak_rss (map (\<lambda>i. (False, Some (m i))) is) peak = None"
  by (induction "is" arbitrary: peak) simp_all

end
