(* ===== verification/Package_Refs.thy ===== *)
theory Package_Refs
  imports Artifact_Cache
begin

text \<open>
  The package references of src/crates/plugin-typescript/src/pathset_extractor.rs: the regular expression for the
  paths of the virtual store of pnpm, which Artifact_Cache leaves open, and the flat layouts whose versions are
  looked up in the text of a lockfile.  A result None stands for a panic.
\<close>

section \<open>The regular expression\<close>

text \<open>An expression gives the matches at the start of a text with what remains, the preferred one first: repetitions
  are greedy, an optional part is tried before it is left out.\<close>

type_synonym rx = "string \<Rightarrow> (string \<times> string) list"

definition rx_lit :: "string \<Rightarrow> rx" where
  "rx_lit p s = (case strip_pre p s of Some r \<Rightarrow> [(p, r)] | None \<Rightarrow> [])"

definition rx_plus :: "(char \<Rightarrow> bool) \<Rightarrow> rx" where
  "rx_plus P s = map (\<lambda>k. (take k s, drop k s)) (rev [1..<Suc (length (takeWhile P s))])"

definition rx_char :: "(char \<Rightarrow> bool) \<Rightarrow> rx" where
  "rx_char P s = (case s of c # r \<Rightarrow> if P c then [([c], r)] else [] | [] \<Rightarrow> [])"

definition rx_opt :: "rx \<Rightarrow> rx" where
  "rx_opt r s = r s @ [([], s)]"

definition rx_seq :: "rx \<Rightarrow> rx \<Rightarrow> rx" where
  "rx_seq r q s = concat (map (\<lambda>(a, s1). map (\<lambda>(b, s2). (a @ b, s2)) (q s1)) (r s))"

definition rx_encoded :: rx where
  "rx_encoded = rx_seq (rx_opt (rx_seq (rx_lit ''@'') (rx_seq (rx_plus (\<lambda>c. c \<notin> set ''/+'')) (rx_lit ''+''))))
     (rx_plus (\<lambda>c. c \<notin> set ''@/''))"

definition rx_version :: rx where
  "rx_version = rx_plus (\<lambda>c. c \<notin> set ''/_+'')"

definition rx_peer :: rx where
  "rx_peer = rx_opt (rx_seq (rx_char (\<lambda>c. c \<in> set ''_+'')) (rx_plus (\<lambda>c. c \<noteq> slash)))"

definition rx_dir_name :: rx where
  "rx_dir_name = rx_seq (rx_opt (rx_seq (rx_lit ''@'') (rx_seq (rx_plus (\<lambda>c. c \<noteq> slash)) (rx_lit ''/''))))
     (rx_plus (\<lambda>c. c \<noteq> slash))"

definition pnpm_at :: "string \<Rightarrow> (string \<times> string \<times> string) list" where
  "pnpm_at s = [(encoded, version, dir_name). (_, s1) \<leftarrow> rx_lit ''.pnpm/'' s, (encoded, s2) \<leftarrow> rx_encoded s1,
     (_, s3) \<leftarrow> rx_lit ''@'' s2, (version, s4) \<leftarrow> rx_version s3, (_, s5) \<leftarrow> rx_peer s4,
     (_, s6) \<leftarrow> rx_lit ''/node_modules/'' s5, (dir_name, s7) \<leftarrow> rx_dir_name s6, (_, s8) \<leftarrow> rx_lit ''/'' s7]"

text \<open>The leftmost match.\<close>

fun pnpm_search :: "string \<Rightarrow> (string \<times> string \<times> string) option" where
  "pnpm_search s = (case pnpm_at s of
     x # _ \<Rightarrow> Some x
   | [] \<Rightarrow> (case s of [] \<Rightarrow> None | _ # r \<Rightarrow> pnpm_search r))"

declare pnpm_search.simps [simp del]

section \<open>Versions in lockfiles\<close>

definition char_boundary :: "string \<Rightarrow> nat \<Rightarrow> bool" where
  "char_boundary t n = (n \<ge> length t \<or> of_char (t ! n) < (128 :: nat) \<or> 192 \<le> (of_char (t ! n) :: nat))"

text \<open>What stands between the first two quotes.\<close>

definition quoted_in :: "string \<Rightarrow> string option" where
  "quoted_in t = Option.bind (split_at [CHR 34] t) (\<lambda>(_, r). map_option fst (split_at [CHR 34] r))"

definition lookup_npm_lock_version :: "string \<Rightarrow> string \<Rightarrow> string option option" where
  "lookup_npm_lock_version lock_text name =
     (let key = CHR 34 # ''node_modules/'' @ name @ [CHR 34] in
      case split_at key lock_text of
        None \<Rightarrow> Some None
      | Some (_, r) \<Rightarrow>
          (let tail = key @ r; window_end = min (length tail) 4096 in
           if \<not> char_boundary tail window_end then None
           else Some (Option.bind (split_at (CHR 34 # ''version'' @ [CHR 34]) (take window_end tail)) (\<lambda>(_, after).
             Option.bind (split_at '':'' after) (\<lambda>(_, after_colon). quoted_in after_colon)))))"

definition lookup_yarn_classic_version :: "string \<Rightarrow> string \<Rightarrow> string option" where
  "lookup_yarn_classic_version lock_text name =
     (let heads = List.map_filter (\<lambda>n. map_option (\<lambda>(before, r). (length before, n @ r)) (split_at n lock_text))
            [newline # name @ ''@'', newline # CHR 34 # name @ ''@''] in
      case heads of
        [] \<Rightarrow> None
      | h # hs \<Rightarrow> (let after = snd (fold (\<lambda>a b. if fst a < fst b then a else b) hs h) in
          Option.bind (split_at ''version '' after) (\<lambda>(_, r). quoted_in r)))"

definition flat_name :: "string \<Rightarrow> string \<Rightarrow> string option" where
  "flat_name nm_prefix p = Option.bind (path_strip_prefix p nm_prefix) (\<lambda>rel.
     if starts_with ''.pnpm/'' rel \<or> starts_with ''.bin/'' rel \<or> starts_with ''.cache/'' rel then None
     else (case path_components rel of
         [] \<Rightarrow> None
       | c # cs \<Rightarrow> if starts_with ''@'' c then (case cs of [] \<Rightarrow> None | c2 # _ \<Rightarrow> Some (c @ ''/'' @ c2)) else Some c))"

fun flat_refs :: "(string \<Rightarrow> string option option) \<Rightarrow> string \<Rightarrow> string list \<Rightarrow> PathsetPackageRef list option" where
  "flat_refs lookup nm [] = Some []"
| "flat_refs lookup nm (name # pkgs) = (case lookup name of
     None \<Rightarrow> None
   | Some None \<Rightarrow> flat_refs lookup nm pkgs
   | Some (Some v) \<Rightarrow> map_option (Cons \<lparr>pr_name = name, pr_version = v, pr_root = path_join nm name\<rparr>) (flat_refs lookup nm pkgs))"

definition extract_flat_packages :: "LocalStore \<Rightarrow> string list \<Rightarrow> string \<Rightarrow> string \<Rightarrow> PathsetPackageRef list option" where
  "extract_flat_packages s reads root lockfile =
     (let nm = path_join root ''node_modules''; pkgs = sort (remdups (List.map_filter (flat_name nm) reads)) in
      if pkgs = [] then Some []
      else (let lock_text = (case read_local s lockfile of Some t \<Rightarrow> t | None \<Rightarrow> []);
                is_yarn = (case path_file_name lockfile of Some n \<Rightarrow> strip_suf ''yarn.lock'' n \<noteq> None | None \<Rightarrow> False) in
            flat_refs (\<lambda>name. if is_yarn then Some (lookup_yarn_classic_version lock_text name) else lookup_npm_lock_version lock_text name)
              nm pkgs))"

section \<open>Paths of the virtual store\<close>

definition rx_first :: "rx \<Rightarrow> string \<Rightarrow> string \<Rightarrow> string \<Rightarrow> bool" where
  "rx_first r s a s1 = (\<exists>xs. r s = (a, s1) # xs)"

lemma rx_plusI:
  assumes "a \<noteq> []" "list_all P a" "\<not> P c"
  shows "rx_first (rx_plus P) (a @ c # s) a (c # s)"
proof -
  have w: "takeWhile P (a @ c # s) = a" using assms(2,3) by (simp add: takeWhile_append list_all_iff)
  obtain n where n: "length a = Suc n" using assms(1) by (cases a) auto
  have "rev [1..<Suc (length a)] = length a # rev [1..<length a]" by (simp add: n)
  then show ?thesis unfolding rx_plus_def rx_first_def w by simp
qed

lemma rx_seqI:
  assumes "rx_first r s a s1" "rx_first q s1 b s2"
  shows "rx_first (rx_seq r q) s (a @ b) s2"
  using assms by (auto simp: rx_seq_def rx_first_def)

lemma rx_optI: "rx_first r s a s1 \<Longrightarrow> rx_first (rx_opt r) s a s1"
  by (auto simp: rx_opt_def rx_first_def)

lemma rx_opt_skip: "r s = [] \<Longrightarrow> rx_first (rx_opt r) s [] s"
  by (simp add: rx_opt_def rx_first_def)

lemma rx_litI: "rx_first (rx_lit p) (p @ s) p s"
proof -
  have "strip_pre p (p @ s) = Some s" by simp
  then show ?thesis by (simp add: rx_lit_def rx_first_def del: strip_pre_Some_iff)
qed

lemma rx_seq_none: "r s = [] \<Longrightarrow> rx_seq r q s = []"
  by (simp add: rx_seq_def)

definition plain_in :: "string \<Rightarrow> string \<Rightarrow> bool" where
  "plain_in bad n = (n \<noteq> [] \<and> list_all (\<lambda>c. c \<notin> set bad) n)"

definition scoped_by :: "string \<Rightarrow> string \<Rightarrow> string \<Rightarrow> string \<Rightarrow> bool" where
  "scoped_by bad sep bad_name n = (\<exists>scope name. n = ''@'' @ scope @ sep @ name \<and> plain_in bad scope \<and> plain_in bad_name name)"

definition encoded_ok :: "string \<Rightarrow> bool" where
  "encoded_ok n = (plain_in ''@/'' n \<or> scoped_by ''/+'' ''+'' ''@/'' n)"

definition dir_ok :: "string \<Rightarrow> bool" where
  "dir_ok n = (plain_in ''/'' n \<and> hd n \<noteq> CHR ''@'' \<or> scoped_by ''/'' ''/'' ''/'' n)"

definition peer_ok :: "string \<Rightarrow> bool" where
  "peer_ok p = (p = [] \<or> hd p \<in> set ''_+'' \<and> plain_in ''/'' (tl p))"

text \<open>An optional scope, then a name.\<close>

lemma rx_scoped_first:
  assumes "c = CHR ''@'' \<or> c = slash" "\<forall>n. plain_in bad n \<longrightarrow> list_all P n" "\<forall>n. plain_in bad_name n \<longrightarrow> list_all Q n"
    and "\<not> P (hd sep)" "sep \<noteq> []" "\<not> Q c" "plain_in bad_name n \<and> hd n \<noteq> CHR ''@'' \<or> scoped_by bad sep bad_name n"
  shows "rx_first (rx_seq (rx_opt (rx_seq (rx_lit ''@'') (rx_seq (rx_plus P) (rx_lit sep)))) (rx_plus Q)) (n @ c # s) n (c # s)"
  using assms(7)
proof
  assume n: "plain_in bad_name n \<and> hd n \<noteq> CHR ''@''"
  then obtain d m where d: "n = d # m" "d \<noteq> CHR ''@''" by (cases n) (auto simp: plain_in_def)
  then have "rx_lit ''@'' (n @ c # s) = []" by (simp add: rx_lit_def)
  then have "rx_first (rx_opt (rx_seq (rx_lit ''@'') (rx_seq (rx_plus P) (rx_lit sep)))) (n @ c # s) [] (n @ c # s)"
    by (intro rx_opt_skip rx_seq_none)
  from rx_seqI[OF this rx_plusI[of n Q c s]] show ?thesis using n assms(3,6) by (auto simp: plain_in_def)
next
  assume "scoped_by bad sep bad_name n"
  then obtain scope m where n: "n = ''@'' @ scope @ sep @ m" "plain_in bad scope" "plain_in bad_name m"
    by (auto simp: scoped_by_def)
  obtain x r where sep: "sep = x # r" using assms(5) by (cases sep) auto
  have "rx_first (rx_plus P) (scope @ sep @ m @ c # s) scope (sep @ m @ c # s)"
    using rx_plusI[of scope P x "r @ m @ c # s"] n(2) assms(2,4) by (auto simp: plain_in_def sep)
  from rx_optI[OF rx_seqI[OF rx_litI[of "''@''"] rx_seqI[OF this rx_litI]]]
  have scope: "rx_first (rx_opt (rx_seq (rx_lit ''@'') (rx_seq (rx_plus P) (rx_lit sep)))) (n @ c # s) (''@'' @ scope @ sep) (m @ c # s)"
    by (simp add: n(1))
  from rx_seqI[OF this rx_plusI[of m Q c s]] show ?thesis using n assms(3,6) by (auto simp: plain_in_def)
qed

lemma rx_encoded_first: "encoded_ok n \<Longrightarrow> rx_first rx_encoded (n @ CHR ''@'' # s) n (CHR ''@'' # s)"
  unfolding rx_encoded_def by (rule rx_scoped_first) (auto simp: plain_in_def encoded_ok_def neq_Nil_conv)

lemma rx_dir_name_first: "dir_ok n \<Longrightarrow> rx_first rx_dir_name (n @ slash # s) n (slash # s)"
  unfolding rx_dir_name_def by (rule rx_scoped_first) (auto simp: plain_in_def dir_ok_def)

lemma rx_peer_first:
  assumes "peer_ok p"
  shows "rx_first rx_peer (p @ slash # s) p (slash # s)"
proof (cases p)
  case Nil
  have "rx_seq (rx_char (\<lambda>c. c \<in> set ''_+'')) (rx_plus (\<lambda>c. c \<noteq> slash)) (slash # s) = []"
    by (simp add: rx_seq_def rx_char_def)
  then show ?thesis unfolding rx_peer_def Nil append_Nil by (rule rx_opt_skip)
next
  case (Cons c q)
  then have "rx_first (rx_char (\<lambda>c. c \<in> set ''_+'')) (c # q @ slash # s) [c] (q @ slash # s)" "plain_in ''/'' q"
    using assms by (auto simp: rx_char_def peer_ok_def rx_first_def)
  from rx_optI[OF rx_seqI[OF this(1) rx_plusI[of q "\<lambda>c. c \<noteq> slash" slash s]]] this(2)
  show ?thesis by (simp add: rx_peer_def Cons plain_in_def)
qed

definition store_path :: "string \<Rightarrow> string \<Rightarrow> string \<Rightarrow> string \<Rightarrow> string \<Rightarrow> string" where
  "store_path encoded version peer dir_name rest =
     encoded @ CHR ''@'' # version @ peer @ ''/node_modules/'' @ dir_name @ slash # rest"

lemma pnpm_at_first:
  assumes "encoded_ok encoded" "plain_in ''/_+'' version" "peer_ok peer" "dir_ok dir_name"
  shows "\<exists>xs. pnpm_at (''.pnpm/'' @ store_path encoded version peer dir_name rest) = (encoded, version, dir_name) # xs"
proof -
  let ?s7 = "slash # rest"
  let ?s6 = "dir_name @ ?s7"
  let ?s5 = "''/node_modules/'' @ ?s6"
  let ?s4 = "peer @ ?s5"
  let ?s3 = "version @ ?s4"
  let ?s2 = "CHR ''@'' # ?s3"
  obtain c r where c: "?s4 = c # r" "c \<in> set ''/_+''"
    using assms(3) by (cases peer) (auto simp: peer_ok_def)
  obtain xs1 where 1: "rx_lit ''.pnpm/'' (''.pnpm/'' @ encoded @ ?s2) = (''.pnpm/'', encoded @ ?s2) # xs1"
    using rx_litI by (auto simp only: rx_first_def)
  obtain xs2 where 2: "rx_encoded (encoded @ ?s2) = (encoded, ?s2) # xs2" using rx_encoded_first[OF assms(1)] by (auto simp only: rx_first_def)
  obtain xs3 where 3: "rx_lit ''@'' ?s2 = (''@'', ?s3) # xs3" using rx_litI[of "''@''" ?s3] by (auto simp: rx_first_def)
  have "rx_first rx_version (version @ c # r) version (c # r)"
    using rx_plusI[of version "\<lambda>c. c \<notin> set ''/_+''" c r] assms(2) c(2) by (auto simp: rx_version_def plain_in_def)
  then obtain xs4 where 4: "rx_version ?s3 = (version, ?s4) # xs4" unfolding c(1)[symmetric] rx_first_def by blast
  obtain xs5 where 5: "rx_peer ?s4 = (peer, ?s5) # xs5" using rx_peer_first[OF assms(3), of "''node_modules/'' @ ?s6"] by (auto simp: rx_first_def)
  obtain xs6 where 6: "rx_lit ''/node_modules/'' ?s5 = (''/node_modules/'', ?s6) # xs6" using rx_litI by (auto simp only: rx_first_def)
  obtain xs7 where 7: "rx_dir_name ?s6 = (dir_name, ?s7) # xs7" using rx_dir_name_first[OF assms(4)] by (auto simp only: rx_first_def)
  obtain xs8 where 8: "rx_lit ''/'' ?s7 = (''/'', rest) # xs8" using rx_litI[of "''/''" rest] by (auto simp: rx_first_def)
  have "\<exists>xs. pnpm_at (''.pnpm/'' @ encoded @ ?s2) = (encoded, version, dir_name) # xs"
    unfolding pnpm_at_def by (simp only: list.map concat.simps prod.case 1 2 3 4 5 6 7 8) simp
  then show ?thesis by (simp add: store_path_def)
qed

lemma pnpm_search_leftmost:
  assumes "split_at ''.pnpm/'' p = Some (before, body)" "pnpm_at (''.pnpm/'' @ body) = x # xs"
  shows "pnpm_search p = Some x"
  using assms(1)
proof (induction p arbitrary: before)
  case (Cons c cs)
  show ?case
  proof (cases "strip_pre ''.pnpm/'' (c # cs)")
    case None
    then have "pnpm_at (c # cs) = []" by (simp add: pnpm_at_def rx_lit_def del: strip_pre.simps)
    moreover obtain b where "split_at ''.pnpm/'' cs = Some (b, body)" using Cons.prems None by (auto simp del: strip_pre.simps)
    ultimately show ?thesis using Cons.IH by (subst pnpm_search.simps) simp
  next
    case (Some r)
    then have "r = body" using Cons.prems by (simp del: strip_pre.simps strip_pre_Some_iff)
    moreover have "c # cs = ''.pnpm/'' @ r" using Some by (simp only: strip_pre_Some_iff)
    ultimately have "pnpm_at (c # cs) = x # xs" using assms(2) by simp
    then show ?thesis by (subst pnpm_search.simps) simp
  qed
qed simp

lemma encoded_ok_head: "encoded_ok n \<Longrightarrow> n \<noteq> [] \<and> hd n \<noteq> slash"
  by (cases n) (auto simp: encoded_ok_def plain_in_def scoped_by_def)

lemma dir_ok_head: "dir_ok n \<Longrightarrow> n \<noteq> [] \<and> hd n \<noteq> slash"
  by (cases n) (auto simp: dir_ok_def plain_in_def scoped_by_def)

lemma store_root:
  assumes "encoded_ok encoded" "plain_in ''/_+'' version" "dir_ok dir_name" "root \<noteq> []" "last root \<noteq> slash"
  shows "foldl path_join root [''node_modules'', ''.pnpm'', encoded @ ''@'' @ version, ''node_modules'', dir_name]
    = root @ ''/node_modules/.pnpm/'' @ encoded @ ''@'' @ version @ ''/node_modules/'' @ dir_name"
proof -
  have v: "version \<noteq> []" "last version \<noteq> slash" using assms(2) by (auto simp: plain_in_def list_all_iff)
  then have "last (encoded @ ''@'' @ version) \<noteq> slash" by simp
  then show ?thesis
    using encoded_ok_head[OF assms(1)] dir_ok_head[OF assms(3)] assms(4,5) v
    by (simp add: path_join_def is_absolute_def)
qed

text \<open>C34. A read below the virtual store of pnpm gives a reference to the directory it goes through: its name and the
  version of the store directory, also when the name is that of a dependency linked there.  The root of the reference
  leaves the peer suffix out, so it is the directory that was read exactly when there is no such suffix.\<close>

theorem pnpm_reference:
  assumes "split_at ''.pnpm/'' p = Some (root @ ''/node_modules/'', store_path encoded version peer dir_name rest)"
    and "encoded_ok encoded" "plain_in ''/_+'' version" "peer_ok peer" "dir_ok dir_name"
    and "root \<noteq> []" "last root \<noteq> slash" "CHR 92 \<notin> set p" "fs_pnpm F = pnpm_search"
    and "r = \<lparr>pr_name = dir_name, pr_version = version,
      pr_root = root @ ''/node_modules/.pnpm/'' @ encoded @ ''@'' @ version @ ''/node_modules/'' @ dir_name\<rparr>"
  shows "extract_pnpm_packages F [p] root = [r] \<and> (prefix (pr_root r @ ''/'') p \<longleftrightarrow> peer = [])"
proof
  have "pnpm_search p = Some (encoded, version, dir_name)"
    using pnpm_at_first[OF assms(2-5)] pnpm_search_leftmost[OF assms(1)] by blast
  moreover have "replace_char (CHR 92) ''/'' p = p"
    using assms(8) by (induction p) (auto simp: replace_char_def)
  ultimately show "extract_pnpm_packages F [p] root = [r]"
    using store_root[OF assms(2,3,5,6,7)] assms(9,10) by (simp add: extract_pnpm_packages_def)
  have p: "p = root @ ''/node_modules/.pnpm/'' @ store_path encoded version peer dir_name rest"
    using split_at_Some[OF assms(1)] by simp
  show "prefix (pr_root r @ ''/'') p \<longleftrightarrow> peer = []"
    using assms(4) by (cases peer) (auto simp: p assms(10) store_path_def peer_ok_def)
qed

definition ex_pnpm_fs :: Fs where
  "ex_pnpm_fs = \<lparr>fs_list = (\<lambda>s p. None), fs_tree = (\<lambda>s p. []), fs_is_dir = (\<lambda>s p. False), fs_canon = (\<lambda>s p. Some p),
     fs_json = (\<lambda>t. None), fs_pnpm = pnpm_search, fs_entry = \<lparr>enc = (\<lambda>a. None), dec = (\<lambda>t. None)\<rparr>, fs_diff = (\<lambda>p q. None)\<rparr>"

lemma pnpm_reference_witness:
  "extract_pnpm_packages ex_pnpm_fs [''/w/node_modules/.pnpm/@babel+core@7.0.0_ts@5.0.0/node_modules/@babel/core/a.js''] ''/w''
     = [\<lparr>pr_name = ''@babel/core'', pr_version = ''7.0.0'', pr_root = ''/w/node_modules/.pnpm/@babel+core@7.0.0/node_modules/@babel/core''\<rparr>] \<and>
   \<not> prefix ''/w/node_modules/.pnpm/@babel+core@7.0.0/node_modules/@babel/core/''
      ''/w/node_modules/.pnpm/@babel+core@7.0.0_ts@5.0.0/node_modules/@babel/core/a.js''"
proof -
  have "scoped_by ''/+'' ''+'' ''@/'' ''@babel+core''" unfolding scoped_by_def plain_in_def
    by (rule exI[of _ "''babel''"], rule exI[of _ "''core''"]) simp
  then have e: "encoded_ok ''@babel+core''" by (simp add: encoded_ok_def)
  have "scoped_by ''/'' ''/'' ''/'' ''@babel/core''" unfolding scoped_by_def plain_in_def
    by (rule exI[of _ "''babel''"], rule exI[of _ "''core''"]) simp
  then have d: "dir_ok ''@babel/core''" by (simp add: dir_ok_def)
  have "plain_in ''/_+'' ''7.0.0''" "peer_ok ''_ts@5.0.0''" by (simp_all add: plain_in_def peer_ok_def)
  with e d show ?thesis
    using pnpm_reference[where p = "''/w/node_modules/.pnpm/@babel+core@7.0.0_ts@5.0.0/node_modules/@babel/core/a.js''"
      and root = "''/w''" and encoded = "''@babel+core''" and version = "''7.0.0''" and peer = "''_ts@5.0.0''"
      and dir_name = "''@babel/core''" and rest = "''a.js''" and F = ex_pnpm_fs]
    by (simp add: store_path_def ex_pnpm_fs_def)
qed

text \<open>A package and version is listed once, for its first read.\<close>

lemma extract_pnpm_distinct:
  "distinct (map (\<lambda>r. (pr_name r, pr_version r)) (extract_pnpm_packages F reads root))"
proof -
  let ?key = "\<lambda>r. (pr_name r, pr_version r)"
  have "distinct (map ?key (extract_pnpm_from F root seen reads)) \<and>
    ?key ` set (extract_pnpm_from F root seen reads) \<inter> set seen = {}" for seen
  proof (induction reads arbitrary: seen)
    case (Cons p ps)
    show ?case
    proof (cases "fs_pnpm F (replace_char (CHR 92) ''/'' p)")
      case (Some m)
      obtain encoded version dir_name where m: "m = (encoded, version, dir_name)" by (cases m)
      show ?thesis using Cons[of seen] Cons[of "(dir_name, version) # seen"] by (simp add: Some m image_iff) blast
    qed (simp add: Cons)
  qed simp
  then show ?thesis by (simp add: extract_pnpm_packages_def)
qed

section \<open>Flat layouts\<close>

text \<open>Every reference is to a package below node_modules of which something was read, with the version that the lockfile
  gives for its name.\<close>

lemma flat_refs_found:
  "flat_refs lookup nm pkgs = Some refs \<Longrightarrow>
   map pr_name refs = filter (\<lambda>n. lookup n \<noteq> Some None) pkgs \<and>
   list_all (\<lambda>r. lookup (pr_name r) = Some (Some (pr_version r)) \<and> pr_root r = path_join nm (pr_name r)) refs"
proof (induction pkgs arbitrary: refs)
  case (Cons n ns)
  then show ?case by (cases "lookup n") (auto split: option.splits)
qed simp

text \<open>An npm entry without a version, as that of a linked package, gets the version of the next entry.\<close>

lemma npm_version_leaks:
  "lookup_npm_lock_version (quoted ''node_modules/a'' @ '': { '' @ quoted ''link'' @ '': true }, '' @ quoted ''node_modules/b'' @
     '': { '' @ quoted ''version'' @ '': '' @ quoted ''2.0.0'' @ '' }'') ''a'' = Some (Some ''2.0.0'')"
  by code_simp

end
