(* ===== verification/Archives.thy ===== *)
theory Archives
  imports Files
begin

text \<open>
  Unpacking the archives of package managers (src/crates/plugin-typescript/src/lockfile.rs): npm tarballs into
  node_modules and the zip files of yarn berry into the workspace.  The formats are those of the libraries that
  read them: an archive is the list of its entries, None where reading one fails.  Creating directories and the
  unpacking of one tar entry are parameters.
\<close>

record TarEntry =
  te_path :: string
  te_is_dir :: bool
  te_content :: string

definition with_parent :: "(string \<Rightarrow> bool) \<Rightarrow> string \<Rightarrow> bool" where
  "with_parent mkdir p = (case path_parent p of Some d \<Rightarrow> mkdir d | None \<Rightarrow> True)"

definition tar_rel :: "string \<Rightarrow> string" where
  "tar_rel p = (case path_strip_prefix p ''package'' of Some r \<Rightarrow> r | None \<Rightarrow> p)"

fun extract_tar_entries :: "(string \<Rightarrow> bool) \<Rightarrow> (TarEntry \<Rightarrow> string \<Rightarrow> files \<Rightarrow> files option) \<Rightarrow> string \<Rightarrow> TarEntry option list \<Rightarrow> files \<Rightarrow> bool \<times> files" where
  "extract_tar_entries mkdir unpack dest_dir [] fs = (True, fs)"
| "extract_tar_entries mkdir unpack dest_dir (None # entries) fs = (False, fs)"
| "extract_tar_entries mkdir unpack dest_dir (Some e # entries) fs =
     (let rel = tar_rel (te_path e); dest = path_join dest_dir rel in
      if rel = [] then extract_tar_entries mkdir unpack dest_dir entries fs
      else if te_is_dir e then (if mkdir dest then extract_tar_entries mkdir unpack dest_dir entries fs else (False, fs))
      else if \<not> with_parent mkdir dest then (False, fs)
      else (case unpack e dest fs of
          None \<Rightarrow> (False, fs)
        | Some fs' \<Rightarrow> extract_tar_entries mkdir unpack dest_dir entries fs'))"

definition extract_yarn_classic_tgz_to_workspace :: "(string \<Rightarrow> bool) \<Rightarrow> (TarEntry \<Rightarrow> string \<Rightarrow> files \<Rightarrow> files option) \<Rightarrow>
    TarEntry option list \<Rightarrow> string \<Rightarrow> string \<Rightarrow> files \<Rightarrow> bool \<times> files" where
  "extract_yarn_classic_tgz_to_workspace mkdir unpack entries pkg_name workspace_root fs =
     extract_tar_entries mkdir unpack (path_join (path_join workspace_root ''node_modules'') pkg_name) entries fs"

text \<open>An entry of a zip file: its name and its content, None where that cannot be read; the file is created first.\<close>

fun extract_zip_entries :: "(string \<Rightarrow> bool) \<Rightarrow> (string \<Rightarrow> bool) \<Rightarrow> string \<Rightarrow> (string \<times> string option) option list \<Rightarrow> files \<Rightarrow> bool \<times> files" where
  "extract_zip_entries mkdir writable target_dir [] fs = (True, fs)"
| "extract_zip_entries mkdir writable target_dir (None # entries) fs = (False, fs)"
| "extract_zip_entries mkdir writable target_dir (Some (name, content) # entries) fs =
     (let outpath = path_join target_dir name in
      if name \<noteq> [] \<and> last name = slash then
        (if mkdir outpath then extract_zip_entries mkdir writable target_dir entries fs else (False, fs))
      else if \<not> with_parent mkdir outpath then (False, fs)
      else (case write_file writable fs outpath [] of
          None \<Rightarrow> (False, fs)
        | Some created \<Rightarrow> (case content of
              None \<Rightarrow> (False, created)
            | Some b \<Rightarrow> extract_zip_entries mkdir writable target_dir entries (created(outpath \<mapsto> Readable b)))))"

definition extract_yarn_zip_to_workspace :: "(string \<Rightarrow> bool) \<Rightarrow> (string \<Rightarrow> bool) \<Rightarrow> (string \<times> string option) option list \<Rightarrow> string \<Rightarrow> files \<Rightarrow> bool \<times> files" where
  "extract_yarn_zip_to_workspace mkdir writable entries target_dir fs = extract_zip_entries mkdir writable target_dir entries fs"

section \<open>Where the files go\<close>

text \<open>A name that stays below the directory it is joined to.\<close>

definition stays_below :: "string \<Rightarrow> bool" where
  "stays_below name = (\<not> is_absolute name \<and> ''..'' \<notin> set (split_on slash name))"

definition below :: "string \<Rightarrow> string \<Rightarrow> bool" where
  "below dir p = (\<exists>rest. p = path_join dir rest \<and> stays_below rest)"

lemma zip_writes:
  assumes "extract_zip_entries mkdir writable target entries fs = (ok, fs')" "fs' p \<noteq> fs p"
  shows "\<exists>name content. Some (name, content) \<in> set entries \<and> p = path_join target name"
  using assms
proof (induction entries arbitrary: fs ok)
  case (Cons entry entries)
  show ?case
  proof (cases entry)
    case None
    then show ?thesis using Cons.prems by simp
  next
    case (Some e)
    obtain name content where e: "e = (name, content)" by (cases e)
    let ?out = "path_join target name"
    show ?thesis
    proof (cases "p = ?out")
      case True
      then show ?thesis unfolding Some e by auto
    next
      case False
      then obtain fs1 ok1 where "extract_zip_entries mkdir writable target entries fs1 = (ok1, fs')" "fs' p \<noteq> fs1 p"
        using Cons.prems unfolding Some e
        by (auto simp: Let_def write_file_def split: if_splits option.splits)
      from Cons.IH[OF this] show ?thesis by auto
    qed
  qed
qed simp

text \<open>Unpacking an entry changes no file but its own.\<close>

definition unpacks_one :: "(TarEntry \<Rightarrow> string \<Rightarrow> files \<Rightarrow> files option) \<Rightarrow> bool" where
  "unpacks_one unpack = (\<forall>e d fs fs' q. unpack e d fs = Some fs' \<longrightarrow> q \<noteq> d \<longrightarrow> fs' q = fs q)"

lemma tar_writes:
  assumes "extract_tar_entries mkdir unpack dest entries fs = (ok, fs')" "fs' p \<noteq> fs p"
    and "unpacks_one unpack"
  shows "\<exists>e. Some e \<in> set entries \<and> p = path_join dest (tar_rel (te_path e))"
  using assms(1,2)
proof (induction entries arbitrary: fs ok)
  case (Cons entry entries)
  show ?case
  proof (cases entry)
    case None
    then show ?thesis using Cons.prems by simp
  next
    case (Some e)
    show ?thesis
    proof (cases "p = path_join dest (tar_rel (te_path e))")
      case True
      then show ?thesis unfolding Some by auto
    next
      case False
      then have same: "unpack e (path_join dest (tar_rel (te_path e))) fs = Some fs1 \<Longrightarrow> fs1 p = fs p" for fs1
        using assms(3) by (auto simp: unpacks_one_def)
      obtain fs1 ok1 where "extract_tar_entries mkdir unpack dest entries fs1 = (ok1, fs')" "fs' p \<noteq> fs1 p"
        using Cons.prems same unfolding Some by (auto simp: Let_def split: if_splits option.splits)
      from Cons.IH[OF this] show ?thesis by auto
    qed
  qed
qed simp


definition ex_unpack :: "TarEntry \<Rightarrow> string \<Rightarrow> files \<Rightarrow> files option" where
  "ex_unpack e d fs = Some (fs(d \<mapsto> Readable (te_content e)))"


end
