(* ===== verification/Daemon.thy ===== *)
theory Daemon
  imports Task_List Scheduler Files
begin

text \<open>
  The build daemon: its state (src/crates/daemon/src/state.rs), the reconciler that turns commands into builds
  (reconciler.rs), the replies to clients (daemon.rs, http.rs) and the discovery file by which clients find it
  (discovery.rs, transport.rs).  A build runs in a task of its own; its end is a step of its own.  What discovery,
  graph and planning do in a build is the model of those components; the run of the tasks is a parameter.
\<close>

section \<open>State\<close>

datatype BuildState = Idle | Converging | Ready | Blocked

datatype TaskStatus = StWaiting | StRunning | StOk nat | StFailed int

record TaskRecord =
  tr_package :: string
  tr_script :: string
  tr_status :: TaskStatus

record DesiredState =
  de_workspace :: string
  de_script :: string
  de_targets :: "string list option"

datatype ReconcilerCmd = SetDesiredState DesiredState | OnFilesChanged | RetryTask string string

text \<open>Beside the shared state: the commands sent and not yet received, the desired states of the builds that run, and
  the number of change notifications.\<close>

record Reconciler =
  dm_state :: BuildState
  dm_desired :: "DesiredState option"
  dm_tasks :: "TaskRecord list"
  dm_queue :: "ReconcilerCmd list"
  dm_builds :: "DesiredState list"
  dm_changes :: nat

definition spawned :: Reconciler where
  "spawned = \<lparr>dm_state = Idle, dm_desired = None, dm_tasks = [], dm_queue = [], dm_builds = [], dm_changes = 0\<rparr>"

section \<open>A build\<close>

datatype build_error = BuildWs ws_error | BuildDag dag_error | BuildConfig config_error | BuildTask task_error | BuildRun RunError

record BuildWorld =
  bw_outside :: Outside
  bw_run :: "WorkspaceDag \<Rightarrow> Task list \<Rightarrow> RunError option"
  bw_elapsed :: "string \<Rightarrow> nat"

definition retain_targets :: "string list option \<Rightarrow> Task list \<Rightarrow> Task list" where
  "retain_targets targets ts = (case targets of None \<Rightarrow> ts | Some names \<Rightarrow> filter (\<lambda>t. t_package t \<in> set names) ts)"

text \<open>Every record says that its task is done, whatever the run returned; when it returned an error they are dropped.\<close>

definition build_records :: "BuildWorld \<Rightarrow> Task list \<Rightarrow> TaskRecord list" where
  "build_records bw ts = map (\<lambda>t. \<lparr>tr_package = t_package t, tr_script = t_script t,
     tr_status = StOk (bw_elapsed bw (t_package t @ ''#'' @ t_script t))\<rparr>) ts"

definition run_build :: "BuildWorld \<Rightarrow> DesiredState \<Rightarrow> build_error + TaskRecord list" where
  "run_build bw d =
     (let ob = bw_outside bw; w = o_world ob; root = de_workspace d in
      case discover_packages w root of Inl e \<Rightarrow> Inl (BuildWs e) | Inr raw \<Rightarrow>
      (case build_package_graph w raw of Inl e \<Rightarrow> Inl (BuildWs e) | Inr resolved \<Rightarrow>
      (case build_dag (o_toposort ob) resolved of Inl e \<Rightarrow> Inl (BuildDag e) | Inr g \<Rightarrow>
      (case load_config w (o_parse_config ob) root of Inl e \<Rightarrow> Inl (BuildConfig e) | Inr cfgo \<Rightarrow>
      (let cfg = (case cfgo of Some c \<Rightarrow> c | None \<Rightarrow> rage_config_default) in
      case build_task_list_with_config (o_toposort ob) (o_globset ob) w g (de_script d) root [] cfg of
        Inl e \<Rightarrow> Inl (BuildTask e)
      | Inr tasks \<Rightarrow> (let ts = retain_targets (de_targets d) tasks in
          case bw_run bw g ts of Some e \<Rightarrow> Inl (BuildRun e) | None \<Rightarrow> Inr (build_records bw ts)))))))"

section \<open>The reconciler\<close>

definition start_build :: "DesiredState \<Rightarrow> Reconciler \<Rightarrow> Reconciler" where
  "start_build d R = R\<lparr>dm_state := Converging, dm_tasks := [], dm_changes := dm_changes R + 1, dm_builds := dm_builds R @ [d]\<rparr>"

definition handle_cmd :: "ReconcilerCmd \<Rightarrow> Reconciler \<Rightarrow> Reconciler" where
  "handle_cmd c R =
     (case c of
        SetDesiredState d \<Rightarrow> start_build d (R\<lparr>dm_desired := Some d\<rparr>)
      | OnFilesChanged \<Rightarrow> (case dm_desired R of Some d \<Rightarrow> start_build d R | None \<Rightarrow> R)
      | RetryTask package script \<Rightarrow>
          R\<lparr>dm_tasks := filter (\<lambda>t. \<not> (tr_package t = package \<and> tr_script t = script)) (dm_tasks R), dm_changes := dm_changes R + 1\<rparr>)"

definition status_failed :: "TaskRecord \<Rightarrow> bool" where
  "status_failed t = (case tr_status t of StFailed _ \<Rightarrow> True | _ \<Rightarrow> False)"

definition finish_build :: "build_error + TaskRecord list \<Rightarrow> Reconciler \<Rightarrow> Reconciler" where
  "finish_build r R =
     (case r of
        Inr records \<Rightarrow> R\<lparr>dm_tasks := records, dm_state := (if list_ex status_failed records then Blocked else Ready),
          dm_changes := dm_changes R + 1\<rparr>
      | Inl _ \<Rightarrow> R\<lparr>dm_state := Blocked, dm_changes := dm_changes R + 1\<rparr>)"

text \<open>A command is sent, the first command is handled, or a running build ends; \<^verbatim>\<open>outcome d r\<close> says that a build
  for \<^verbatim>\<open>d\<close> may end with \<^verbatim>\<open>r\<close>.\<close>

datatype DaemonEvent = Sent ReconcilerCmd | Handled ReconcilerCmd | Finished DesiredState "build_error + TaskRecord list"

inductive daemon_step :: "(DesiredState \<Rightarrow> build_error + TaskRecord list \<Rightarrow> bool) \<Rightarrow> Reconciler \<Rightarrow> DaemonEvent \<Rightarrow> Reconciler \<Rightarrow> bool"
  for outcome where
  send: "daemon_step outcome R (Sent c) (R\<lparr>dm_queue := dm_queue R @ [c]\<rparr>)"
| handle: "dm_queue R = c # q \<Longrightarrow> daemon_step outcome R (Handled c) (handle_cmd c (R\<lparr>dm_queue := q\<rparr>))"
| finish: "dm_builds R = before @ d # after \<Longrightarrow> outcome d r \<Longrightarrow>
    daemon_step outcome R (Finished d r) (finish_build r (R\<lparr>dm_builds := before @ after\<rparr>))"

inductive daemon_run :: "(DesiredState \<Rightarrow> build_error + TaskRecord list \<Rightarrow> bool) \<Rightarrow> DaemonEvent list \<Rightarrow> Reconciler \<Rightarrow> bool"
  for outcome where
  start: "daemon_run outcome [] spawned"
| step: "daemon_run outcome evs R \<Longrightarrow> daemon_step outcome R ev R' \<Longrightarrow> daemon_run outcome (evs @ [ev]) R'"

inductive_cases daemon_stepE: "daemon_step outcome R ev R'"

lemmas reconciler_defs = handle_cmd_def start_build_def finish_build_def

section \<open>Replies\<close>

record StateSnapshot =
  sn_state :: BuildState
  sn_tasks :: "TaskRecord list"

definition snapshot :: "Reconciler \<Rightarrow> StateSnapshot" where
  "snapshot R = \<lparr>sn_state = dm_state R, sn_tasks = dm_tasks R\<rparr>"

datatype DaemonMessage = MsgSetDesiredState DesiredState | MsgGetState | MsgRetryTask string string | MsgShutdown

text \<open>A message only sends a command and reads the state under its lock; \<^verbatim>\<open>between\<close> is what the reconciler does
  between the two.  None: the process exits.\<close>

definition handle_message :: "DaemonMessage \<Rightarrow> (Reconciler \<Rightarrow> Reconciler) \<Rightarrow> Reconciler \<Rightarrow> (StateSnapshot \<times> Reconciler) option" where
  "handle_message msg between R =
     (let send = (\<lambda>c. R\<lparr>dm_queue := dm_queue R @ [c]\<rparr>);
          reply = (\<lambda>R'. Some (snapshot (between R'), between R')) in
      case msg of
        MsgSetDesiredState d \<Rightarrow> reply (send (SetDesiredState d))
      | MsgRetryTask p s \<Rightarrow> reply (send (RetryTask p s))
      | MsgShutdown \<Rightarrow> None
      | MsgGetState \<Rightarrow> reply R)"

section \<open>What the state says\<close>

definition daemon_inv :: "(DesiredState \<Rightarrow> build_error + TaskRecord list \<Rightarrow> bool) \<Rightarrow> Reconciler \<Rightarrow> bool" where
  "daemon_inv outcome R \<longleftrightarrow>
     (dm_state R = Idle \<longleftrightarrow> dm_desired R = None) \<and>
     (dm_desired R = None \<longrightarrow> dm_builds R = [] \<and> dm_tasks R = []) \<and>
     (dm_state R = Converging \<longrightarrow> dm_builds R \<noteq> [] \<and> dm_tasks R = []) \<and>
     (dm_state R = Ready \<longrightarrow> \<not> list_ex status_failed (dm_tasks R))"

lemma list_ex_filter: "\<not> list_ex P xs \<Longrightarrow> \<not> list_ex P (filter Q xs)"
  by (auto simp: list_ex_iff)

lemma daemon_step_inv: "daemon_step outcome R ev R' \<Longrightarrow> daemon_inv outcome R \<Longrightarrow> daemon_inv outcome R'"
  by (erule daemon_stepE)
    (auto simp: daemon_inv_def reconciler_defs list_ex_filter split: ReconcilerCmd.splits option.splits sum.splits)

lemma spawned_inv: "daemon_inv outcome spawned"
  by (simp add: daemon_inv_def spawned_def)

lemma daemon_run_inv: "daemon_run outcome evs R \<Longrightarrow> daemon_inv outcome R"
  by (induction rule: daemon_run.induct) (simp_all only: spawned_inv daemon_step_inv)

text \<open>The outcomes of the builds that the daemon runs.\<close>

definition built :: "DesiredState \<Rightarrow> build_error + TaskRecord list \<Rightarrow> bool" where
  "built d r \<longleftrightarrow> (\<exists>bw. r = run_build bw d)"

definition all_done :: "TaskRecord list \<Rightarrow> bool" where
  "all_done ts \<longleftrightarrow> list_all (\<lambda>t. case tr_status t of StOk _ \<Rightarrow> True | _ \<Rightarrow> False) ts"

lemma run_build_Inr: "run_build bw d = Inr records \<Longrightarrow> \<exists>ts. records = build_records bw ts"
  by (auto simp: run_build_def Let_def split: sum.split_asm option.split_asm)

lemma built_records: "built d (Inr records) \<Longrightarrow> all_done records"
proof -
  assume "built d (Inr records)"
  then obtain bw where "run_build bw d = Inr records" unfolding built_def by metis
  from run_build_Inr[OF this] show ?thesis by (auto simp: all_done_def build_records_def list_all_iff)
qed

lemma all_done_simps: "all_done []" "all_done ts \<Longrightarrow> all_done (filter P ts)" "all_done ts \<Longrightarrow> \<not> list_ex status_failed ts"
  by (auto simp: all_done_def list_all_iff list_ex_iff status_failed_def split: TaskStatus.splits)

lemma daemon_run_done: "daemon_run built evs R \<Longrightarrow> all_done (dm_tasks R)"
proof (induction rule: daemon_run.induct)
  case start
  then show ?case by (simp add: spawned_def all_done_simps)
next
  case (step evs R ev R')
  from step.hyps(2) show ?case
    by (rule daemon_stepE)
      (use step.IH in \<open>auto simp: reconciler_defs all_done_simps built_records split: ReconcilerCmd.splits option.splits sum.splits\<close>)
qed

text \<open>C22. In every reachable state: idle means that nothing was asked for; while the daemon converges a build runs that
  will end it, so that when nothing runs and no command waits the state is idle, ready or blocked; and the tasks
  listed are all done, also in the blocked state: a failed task is never shown.\<close>

theorem daemon_states:
  assumes "daemon_run built evs R"
  shows "(dm_state R = Idle \<longleftrightarrow> dm_desired R = None) \<and> (if dm_builds R = [] then dm_state R \<noteq> Converging else dm_desired R \<noteq> None) \<and>
    list_all (\<lambda>t. case tr_status t of StOk _ \<Rightarrow> True | _ \<Rightarrow> False) (dm_tasks R)"
  using daemon_run_inv[OF assms] daemon_run_done[OF assms] unfolding daemon_inv_def all_done_def by auto

section \<open>Builds one after the other, and builds that overlap\<close>

inductive serial_run :: "(DesiredState \<Rightarrow> build_error + TaskRecord list \<Rightarrow> bool) \<Rightarrow> Reconciler \<Rightarrow> bool" for outcome where
  start: "serial_run outcome spawned"
| step: "serial_run outcome R \<Longrightarrow> daemon_step outcome R ev R' \<Longrightarrow> length (dm_builds R') \<le> 1 \<Longrightarrow> serial_run outcome R'"

text \<open>What a state says of the build of the desired state.\<close>

definition says :: "build_error + TaskRecord list \<Rightarrow> Reconciler \<Rightarrow> bool" where
  "says r R \<longleftrightarrow> (case r of
     Inr records \<Rightarrow> dm_state R = (if list_ex status_failed records then Blocked else Ready) \<and> set (dm_tasks R) \<subseteq> set records
   | Inl _ \<Rightarrow> dm_state R = Blocked \<and> dm_tasks R = [])"

definition serial_inv :: "(DesiredState \<Rightarrow> build_error + TaskRecord list \<Rightarrow> bool) \<Rightarrow> Reconciler \<Rightarrow> bool" where
  "serial_inv outcome R \<longleftrightarrow> (case dm_builds R of
     [] \<Rightarrow> (case dm_desired R of None \<Rightarrow> dm_state R = Idle \<and> dm_tasks R = [] | Some d \<Rightarrow> \<exists>r. outcome d r \<and> says r R)
   | d # ds \<Rightarrow> ds = [] \<and> dm_desired R = Some d \<and> dm_state R = Converging \<and> dm_tasks R = [])"

lemma says_retry: "says r R \<Longrightarrow> says r (R\<lparr>dm_queue := q, dm_tasks := filter P (dm_tasks R), dm_changes := n\<rparr>)"
  by (auto simp: says_def split: sum.splits)

lemma says_send: "says r R \<Longrightarrow> says r (R\<lparr>dm_queue := q\<rparr>)"
  by (simp add: says_def split: sum.splits)

lemma serial_handle:
  assumes "serial_inv outcome R" "length (dm_builds (handle_cmd c (R\<lparr>dm_queue := q\<rparr>))) \<le> 1"
  shows "serial_inv outcome (handle_cmd c (R\<lparr>dm_queue := q\<rparr>))"
proof (cases c)
  case (RetryTask p s)
  then show ?thesis using assms says_retry
    by (auto simp: serial_inv_def handle_cmd_def split: list.splits option.splits)
next
  case (SetDesiredState d)
  then show ?thesis using assms by (auto simp: serial_inv_def reconciler_defs split: list.splits)
next
  case OnFilesChanged
  then show ?thesis using assms says_send by (auto simp: serial_inv_def reconciler_defs split: list.splits option.splits)
qed

lemma serial_run_inv: "serial_run outcome R \<Longrightarrow> serial_inv outcome R"
proof (induction rule: serial_run.induct)
  case start
  show ?case by (simp add: serial_inv_def spawned_def)
next
  case (step R ev R')
  from step.hyps(2) show ?case
  proof (rule daemon_stepE)
    fix c assume "R' = R\<lparr>dm_queue := dm_queue R @ [c]\<rparr>"
    then show ?thesis using step.IH says_send by (auto simp: serial_inv_def split: list.splits option.splits)
  next
    fix c q assume "R' = handle_cmd c (R\<lparr>dm_queue := q\<rparr>)"
    then show ?thesis using serial_handle step.IH step.hyps(3) by simp
  next
    fix before d after r
    assume "R' = finish_build r (R\<lparr>dm_builds := before @ after\<rparr>)" "dm_builds R = before @ d # after" "outcome d r"
    then show ?thesis using step.IH
      by (cases before) (auto simp: serial_inv_def finish_build_def says_def split: sum.splits intro!: exI[of _ r])
  qed
qed

text \<open>When no two builds ever run at a time, the state reached once the last one has ended is the outcome of a build
  of the desired state.\<close>

theorem daemon_serial_correct:
  assumes "serial_run outcome R" "dm_builds R = []" "dm_desired R = Some d"
  shows "\<exists>r. outcome d r \<and> (case r of
     Inr records \<Rightarrow> dm_state R = (if list_ex status_failed records then Blocked else Ready) \<and> set (dm_tasks R) \<subseteq> set records
   | Inl _ \<Rightarrow> dm_state R = Blocked \<and> dm_tasks R = [])"
  using serial_run_inv[OF assms(1)] assms(2,3) by (simp add: serial_inv_def says_def)

lemma run_Set:
  assumes "daemon_run outcome evs R" "dm_queue R = []"
  shows "daemon_run outcome (evs @ [Sent (SetDesiredState d), Handled (SetDesiredState d)])
    (start_build d (R\<lparr>dm_desired := Some d\<rparr>))"
proof -
  let ?c = "SetDesiredState d"
  have "daemon_run outcome (evs @ [Sent ?c]) (R\<lparr>dm_queue := dm_queue R @ [?c]\<rparr>)"
    by (rule daemon_run.step[OF assms(1)]) (rule daemon_step.send)
  from daemon_run.step[OF this daemon_step.handle[of _ ?c "[]"]]
  have "daemon_run outcome ((evs @ [Sent ?c]) @ [Handled ?c]) (handle_cmd ?c (R\<lparr>dm_queue := []\<rparr>))" using assms(2) by simp
  moreover have "R\<lparr>dm_queue := []\<rparr> = R" using assms(2) by simp
  ultimately show ?thesis by (simp add: handle_cmd_def)
qed

text \<open>C23. Builds are not cancelled: when the build of an earlier desired state ends last, the daemon settles on its
  outcome, though the build of the desired state failed.\<close>

theorem daemon_stale_build:
  assumes "outcome d1 (Inr records)" "list_ex status_failed records = False" "outcome d2 (Inl e)"
  shows "\<exists>evs R. daemon_run outcome evs R \<and> dm_queue R = [] \<and> dm_builds R = [] \<and> dm_desired R = Some d2 \<and>
    dm_state R = Ready \<and> dm_tasks R = records"
proof -
  define R1 where "R1 = start_build d1 (spawned\<lparr>dm_desired := Some d1\<rparr>)"
  define R2 where "R2 = start_build d2 (R1\<lparr>dm_desired := Some d2\<rparr>)"
  have "daemon_run outcome ([] @ [Sent (SetDesiredState d1), Handled (SetDesiredState d1)]) R1"
    unfolding R1_def by (rule run_Set[OF daemon_run.start]) (simp add: spawned_def)
  from run_Set[OF this, of d2] obtain evs where r2: "daemon_run outcome evs R2"
    by (auto simp: R2_def R1_def start_build_def spawned_def)
  have b2: "dm_builds R2 = [d1] @ d2 # []" by (simp add: R2_def R1_def start_build_def spawned_def)
  define R3 where "R3 = finish_build (Inl e) (R2\<lparr>dm_builds := [d1] @ []\<rparr>)"
  have r3: "daemon_run outcome (evs @ [Finished d2 (Inl e)]) R3"
    unfolding R3_def by (rule daemon_run.step[OF r2 daemon_step.finish[of R2 "[d1]" d2 "[]" outcome, OF b2 assms(3)]])
  have b3: "dm_builds R3 = [] @ d1 # []" by (simp add: R3_def finish_build_def)
  have "daemon_run outcome ((evs @ [Finished d2 (Inl e)]) @ [Finished d1 (Inr records)])
      (finish_build (Inr records) (R3\<lparr>dm_builds := [] @ []\<rparr>))"
    by (rule daemon_run.step[OF r3 daemon_step.finish[of R3 "[]" d1 "[]" outcome, OF b3 assms(1)]])
  then show ?thesis
    by (intro exI conjI) (assumption, use assms(2) in \<open>simp_all add: R3_def R2_def R1_def finish_build_def start_build_def spawned_def\<close>)
qed

text \<open>Example: a workspace with an app that needs a library, whose build succeeds or is killed.\<close>

definition ex_bw :: "RunError option \<Rightarrow> BuildWorld" where
  "ex_bw err = \<lparr>bw_outside = ex_outside, bw_run = (\<lambda>g ts. err), bw_elapsed = (\<lambda>k. 5)\<rparr>"

definition ex_de :: "string list option \<Rightarrow> DesiredState" where
  "ex_de targets = \<lparr>de_workspace = ''/w'', de_script = ''build'', de_targets = targets\<rparr>"

definition ex_records :: "TaskRecord list" where
  "ex_records = [\<lparr>tr_package = ''lib'', tr_script = ''build'', tr_status = StOk 5\<rparr>, \<lparr>tr_package = ''app'', tr_script = ''build'', tr_status = StOk 5\<rparr>]"

lemma ex_daemon_build:
  "run_build (ex_bw None) (ex_de None) = Inr ex_records" "run_build (ex_bw (Some Killed)) (ex_de (Some [''app''])) = Inl (BuildRun Killed)"
  by (simp_all add: run_build_def ex_bw_def ex_de_def ex_records_def load_config_def path_join_def is_absolute_def ex_ow_outside ex_ow_run
      ex_ow_resolved ex_ow_build ex_ow_tasks retain_targets_def build_records_def with_sandbox_def package_task_def Let_def)

lemma ex_built: "built (ex_de None) (Inr ex_records)" "built (ex_de (Some [''app''])) (Inl (BuildRun Killed))"
  unfolding built_def using ex_daemon_build by metis+

lemma ex_started: "daemon_run built [Sent (SetDesiredState d), Handled (SetDesiredState d)] (start_build d (spawned\<lparr>dm_desired := Some d\<rparr>))"
  using run_Set[where d = d, OF daemon_run.start] by (simp add: spawned_def)

lemma ex_finish:
  assumes "outcome d r"
  shows "daemon_step outcome (start_build d (spawned\<lparr>dm_desired := Some d\<rparr>)) (Finished d r)
    (finish_build r (start_build d (spawned\<lparr>dm_desired := Some d\<rparr>)\<lparr>dm_builds := []\<rparr>))"
  using daemon_step.finish[of "start_build d (spawned\<lparr>dm_desired := Some d\<rparr>)" "[]" d "[]" outcome r] assms
  by (simp add: start_build_def spawned_def)

definition ex_final :: Reconciler where
  "ex_final = finish_build (Inr ex_records) (start_build (ex_de None) (spawned\<lparr>dm_desired := Some (ex_de None)\<rparr>)\<lparr>dm_builds := []\<rparr>)"

lemma ex_final_fields: "dm_builds ex_final = []" "dm_desired ex_final = Some (ex_de None)" "dm_state ex_final = Ready" "dm_tasks ex_final = ex_records"
  by (simp_all add: ex_final_def finish_build_def start_build_def ex_records_def status_failed_def)

lemma daemon_states_witness: "dm_state ex_final \<noteq> Converging \<and> list_all (\<lambda>t. case tr_status t of StOk _ \<Rightarrow> True | _ \<Rightarrow> False) (dm_tasks ex_final)"
proof -
  from daemon_run.step[OF ex_started ex_finish[of built, OF ex_built(1)], folded ex_final_def]
  show ?thesis using daemon_states ex_final_fields by fastforce
qed

lemma daemon_serial_correct_witness: "dm_state ex_final = Ready \<and> set (dm_tasks ex_final) \<subseteq> set ex_records"
proof -
  let ?d = "ex_de None" and ?o = "\<lambda>d r. d = ex_de None \<and> r = (Inr ex_records :: build_error + TaskRecord list)"
  let ?c = "SetDesiredState ?d"
  have "serial_run ?o (spawned\<lparr>dm_queue := dm_queue spawned @ [?c]\<rparr>)"
    by (rule serial_run.step[OF serial_run.start daemon_step.send]) (simp add: spawned_def)
  from serial_run.step[OF this daemon_step.handle[of _ ?c "[]"]]
  have "serial_run ?o (start_build ?d (spawned\<lparr>dm_desired := Some ?d\<rparr>))"
    by (simp add: spawned_def handle_cmd_def start_build_def)
  from serial_run.step[OF this ex_finish[of ?o ?d "Inr ex_records"]]
  have "serial_run ?o ex_final" unfolding ex_final_def[symmetric] by (simp add: ex_final_fields)
  from daemon_serial_correct[OF this ex_final_fields(1,2)] show ?thesis
    by (auto simp: ex_records_def status_failed_def)
qed

lemma daemon_stale_build_witness:
  "\<exists>evs R. daemon_run built evs R \<and> dm_queue R = [] \<and> dm_builds R = [] \<and> dm_desired R = Some (ex_de (Some [''app''])) \<and>
    dm_state R = Ready \<and> dm_tasks R = ex_records"
  by (rule daemon_stale_build[OF ex_built(1) _ ex_built(2)]) (simp add: ex_records_def status_failed_def)

text \<open>A reply is taken before the reconciler has seen the command when it does nothing in between.\<close>

lemma reply_before_handling:
  "handle_message (MsgSetDesiredState d) (\<lambda>R. R) R = Some (snapshot R, R\<lparr>dm_queue := dm_queue R @ [SetDesiredState d]\<rparr>)"
  by (simp add: handle_message_def snapshot_def)

section \<open>Finding the daemon\<close>

record DiscoveryFile =
  df_pid :: nat
  df_endpoint :: string
  df_http_port :: nat
  df_start_time :: string
  df_version :: string
  df_workspace :: string

text \<open>The environment of the functions below: canonical paths, the hash, the home directory (\<^verbatim>\<open>HOME\<close>, else
  \<^verbatim>\<open>USERPROFILE\<close>), whether a path can be written or deleted, and the JSON of a discovery file.\<close>

record Home =
  hm_canon :: "string \<Rightarrow> string option"
  hm_hash :: "string \<Rightarrow> string"
  hm_home :: "string option"
  hm_userprofile :: "string option"
  hm_writable :: "string \<Rightarrow> bool"
  hm_json :: "DiscoveryFile codec"

definition workspace_hash :: "Home \<Rightarrow> string \<Rightarrow> string" where
  "workspace_hash h ws = take 16 (to_hex (hm_hash h (case hm_canon h ws of Some c \<Rightarrow> c | None \<Rightarrow> ws)))"

definition daemons_dir :: "Home \<Rightarrow> string option" where
  "daemons_dir h = (case (case hm_home h of Some d \<Rightarrow> Some d | None \<Rightarrow> hm_userprofile h) of
      None \<Rightarrow> None
    | Some d \<Rightarrow> (let dir = path_join (path_join d ''.rage'') ''daemons'' in if hm_writable h dir then Some dir else None))"

definition discovery_path :: "Home \<Rightarrow> string \<Rightarrow> string option" where
  "discovery_path h ws = map_option (\<lambda>dir. path_join dir (workspace_hash h ws @ ''.json'')) (daemons_dir h)"

definition write_discovery :: "Home \<Rightarrow> string \<Rightarrow> DiscoveryFile \<Rightarrow> files \<Rightarrow> files option" where
  "write_discovery h ws d fs = Option.bind (discovery_path h ws) (\<lambda>p.
     Option.bind (enc (hm_json h) d) (\<lambda>text. write_file (hm_writable h) fs p text))"

datatype 'a read_result = ReadOk 'a | ReadErr

definition read_discovery :: "Home \<Rightarrow> string \<Rightarrow> files \<Rightarrow> DiscoveryFile option read_result" where
  "read_discovery h ws fs = (case discovery_path h ws of
      None \<Rightarrow> ReadErr
    | Some p \<Rightarrow> (case fs p of
          None \<Rightarrow> ReadOk None
        | Some Unreadable \<Rightarrow> ReadErr
        | Some (Readable text) \<Rightarrow> (case dec (hm_json h) text of Some d \<Rightarrow> ReadOk (Some d) | None \<Rightarrow> ReadErr)))"

text \<open>Deleting: None when the file is there and cannot be deleted, or has no path.\<close>

definition delete_discovery :: "Home \<Rightarrow> string \<Rightarrow> files \<Rightarrow> files option" where
  "delete_discovery h ws fs = Option.bind (discovery_path h ws) (\<lambda>p.
     if fs p = None then Some fs else if hm_writable h p then Some (remove_file p fs) else None)"

datatype DaemonError = NotRunning | Stale | Transport

text \<open>\<^verbatim>\<open>listening\<close> tells the endpoints that accept a connection.\<close>

definition daemon_connect :: "Home \<Rightarrow> (string \<Rightarrow> bool) \<Rightarrow> string \<Rightarrow> files \<Rightarrow> (DaemonError + string) \<times> files" where
  "daemon_connect h listening ws fs =
     (case read_discovery h ws fs of
        ReadErr \<Rightarrow> (Inl Transport, fs)
      | ReadOk None \<Rightarrow> (Inl NotRunning, fs)
      | ReadOk (Some d) \<Rightarrow>
          if listening (df_endpoint d) then (Inr (df_endpoint d), fs)
          else (Inl Stale, (case delete_discovery h ws fs of Some fs' \<Rightarrow> fs' | None \<Rightarrow> fs)))"

text \<open>The socket of a workspace; one that is there is removed first.\<close>

definition socket_path :: "Home \<Rightarrow> string \<Rightarrow> string option" where
  "socket_path h ws = map_option (\<lambda>dir. path_join dir (workspace_hash h ws @ ''.sock'')) (daemons_dir h)"

lemma discovery_path_hash:
  "discovery_path h ws = Some p \<Longrightarrow> discovery_path h ws' = Some p' \<Longrightarrow> p = p' \<longleftrightarrow> workspace_hash h ws = workspace_hash h ws'"
proof
  assume paths: "discovery_path h ws = Some p" "discovery_path h ws' = Some p'" and "p = p'"
  obtain dir where d: "daemons_dir h = Some dir" "p = path_join dir (workspace_hash h ws @ ''.json'')"
    "p' = path_join dir (workspace_hash h ws' @ ''.json'')" using paths by (auto simp: discovery_path_def)
  have "slash \<notin> set (workspace_hash h x)" for x
    unfolding workspace_hash_def by (meson in_set_takeD to_hex_plain)
  then show "workspace_hash h ws = workspace_hash h ws'"
    using d(2,3) \<open>p = p'\<close> path_join_inj[of "workspace_hash h ws @ ''.json''" "workspace_hash h ws' @ ''.json''" dir]
    by (simp add: not_absolute)
next
  assume "discovery_path h ws = Some p" "discovery_path h ws' = Some p'" "workspace_hash h ws = workspace_hash h ws'"
  then show "p = p'" by (auto simp: discovery_path_def)
qed

lemma connect_written:
  assumes "codec_ok (hm_json h)" "write_discovery h ws d fs = Some fs1" "hm_writable h = (\<lambda>p. True)" "discovery_path h ws = Some p"
  shows "daemon_connect h l ws fs1 = (if l (df_endpoint d) then (Inr (df_endpoint d), fs1) else (Inl Stale, fs(p := None)))"
    and "delete_discovery h ws fs1 = Some (fs(p := None))" and "\<forall>q. q \<noteq> p \<longrightarrow> fs1 q = fs q"
proof -
  obtain js where js: "enc (hm_json h) d = Some js" and fs1: "fs1 = fs(p \<mapsto> Readable js)"
    using assms(2-4) by (auto simp: write_discovery_def write_file_def bind_eq_Some_conv)
  have dec: "dec (hm_json h) js = Some d" by (rule codec_okD[OF assms(1) js])
  show "daemon_connect h l ws fs1 = (if l (df_endpoint d) then (Inr (df_endpoint d), fs1) else (Inl Stale, fs(p := None)))"
    using dec assms(3,4) by (simp add: daemon_connect_def read_discovery_def delete_discovery_def remove_file_def fs1)
  show "delete_discovery h ws fs1 = Some (fs(p := None))"
    using assms(3,4) by (simp add: delete_discovery_def remove_file_def fs1)
  show "\<forall>q. q \<noteq> p \<longrightarrow> fs1 q = fs q" by (simp add: fs1)
qed

lemma connect_gone: "discovery_path h ws = Some p \<Longrightarrow> daemon_connect h l ws (fs(p := None)) = (Inl NotRunning, fs(p := None))"
  by (simp add: daemon_connect_def read_discovery_def)

text \<open>A client of the workspace finds the endpoint that a daemon has written while it listens; after that the first
  client is told that the daemon is stale and removes the file, the next that none runs; clients of workspaces with
  another hash are not affected.\<close>

theorem discovery_lifecycle:
  assumes "codec_ok (hm_json h)" "write_discovery h ws d fs = Some fs1" "hm_writable h = (\<lambda>p. True)"
    and "workspace_hash h other \<noteq> workspace_hash h ws"
  shows "daemon_connect h listening ws fs1 =
      (if listening (df_endpoint d) then (Inr (df_endpoint d), fs1) else (Inl Stale, snd (daemon_connect h listening ws fs1))) \<and>
    (if listening (df_endpoint d) then True
     else fst (daemon_connect h listening' ws (snd (daemon_connect h listening ws fs1))) = Inl NotRunning) \<and>
    fst (daemon_connect h listening' other (snd (daemon_connect h listening ws fs1))) = fst (daemon_connect h listening' other fs)"
proof -
  obtain p where p: "discovery_path h ws = Some p" using assms(2) by (auto simp: write_discovery_def bind_eq_Some_conv)
  obtain p' where p': "discovery_path h other = Some p'" using p by (auto simp: discovery_path_def)
  have ne: "p' \<noteq> p" using discovery_path_hash[OF p p'] assms(4) by auto
  note written = connect_written[OF assms(1-3) p]
  have frame: "fst (daemon_connect h listening' other fs2) = fst (daemon_connect h listening' other fs)" if "fs2 p' = fs p'" for fs2
    using that by (simp add: daemon_connect_def read_discovery_def p' split: read_result.splits option.splits file_data.splits)
  have "fst (daemon_connect h listening' other fs1) = fst (daemon_connect h listening' other fs)"
    "fst (daemon_connect h listening' other (fs(p := None))) = fst (daemon_connect h listening' other fs)"
    by (rule frame, use ne written(3) in simp)+
  then show ?thesis by (simp add: written(1) connect_gone[OF p])
qed

definition ex_df :: DiscoveryFile where
  "ex_df = \<lparr>df_pid = 1, df_endpoint = ''/h/s.sock'', df_http_port = 80, df_start_time = [], df_version = [], df_workspace = ''/a''\<rparr>"

definition ex_home :: Home where
  "ex_home = \<lparr>hm_canon = (\<lambda>p. None), hm_hash = (\<lambda>t. t), hm_home = Some ''/h'', hm_userprofile = None, hm_writable = (\<lambda>p. True),
     hm_json = \<lparr>enc = (\<lambda>d. if d = ex_df then Some ''J'' else None), dec = (\<lambda>t. Some ex_df)\<rparr>\<rparr>"

lemma discovery_lifecycle_witness:
  "\<exists>fs1. write_discovery ex_home ''/a'' ex_df (\<lambda>p. None) = Some fs1 \<and>
    fst (daemon_connect ex_home (\<lambda>e. True) ''/a'' fs1) = Inr ''/h/s.sock'' \<and>
    fst (daemon_connect ex_home (\<lambda>e. True) ''/a'' (snd (daemon_connect ex_home (\<lambda>e. False) ''/a'' fs1))) = Inl NotRunning"
proof -
  have c: "codec_ok (hm_json ex_home)" by (auto simp: codec_ok_def ex_home_def split: if_splits)
  have "\<not> Option.is_none (write_discovery ex_home ''/a'' ex_df (\<lambda>p. None))" by code_simp
  then obtain fs1 where w: "write_discovery ex_home ''/a'' ex_df (\<lambda>p. None) = Some fs1" by (auto simp: Option.is_none_def)
  have all: "hm_writable ex_home = (\<lambda>p. True)" by (simp add: ex_home_def)
  have "workspace_hash ex_home ''/b'' \<noteq> workspace_hash ex_home ''/a''" by code_simp
  note life = discovery_lifecycle[OF c w all this]
  have "df_endpoint ex_df = ''/h/s.sock''" by (simp add: ex_df_def)
  with w life[of "\<lambda>e. True"] life[of "\<lambda>e. False" "\<lambda>e. True"] show ?thesis by (intro exI[of _ fs1]) simp
qed

end
