(* ===== verification/Daemon_Life.thy ===== *)
theory Daemon_Life
  imports Daemon
begin

text \<open>
  The life of daemon processes of one workspace, which share a socket path and a discovery file: \<^verbatim>\<open>Daemon::run\<close> and its
  ends in src/crates/daemon/src/daemon.rs, the binding of the socket in transport.rs; and the streams of snapshots
  and of file changes (daemon.rs, http.rs, watcher.rs).
\<close>

section \<open>Processes\<close>

text \<open>The process whose listener the socket file leads to, the files, and the processes that serve.\<close>

record Life =
  lf_socket :: "nat option"
  lf_files :: files
  lf_serving :: "nat list"

datatype LifeStep = BindSocket nat | Advertise nat nat string | ExitQuiet nat | ExitCleaning nat | ServeFails nat | Connects

definition discovery_of :: "string \<Rightarrow> string \<Rightarrow> nat \<Rightarrow> nat \<Rightarrow> string \<Rightarrow> DiscoveryFile" where
  "discovery_of endpoint ws pid port time = \<lparr>df_pid = pid, df_endpoint = endpoint, df_http_port = port, df_start_time = time,
     df_version = ''0.0.0'', df_workspace = ws\<rparr>"

definition accepts :: "Home \<Rightarrow> string \<Rightarrow> Life \<Rightarrow> string \<Rightarrow> bool" where
  "accepts h ws L endpoint = (socket_path h ws = Some endpoint \<and>
     (case lf_socket L of Some p \<Rightarrow> p \<in> set (lf_serving L) | None \<Rightarrow> False))"

definition leave :: "nat \<Rightarrow> Life \<Rightarrow> Life" where
  "leave p L = L\<lparr>lf_serving := removeAll p (lf_serving L)\<rparr>"

text \<open>Binding removes a socket file that is there, whoever listens on it.  A daemon that cannot write its discovery
  file ends, as one whose accept fails: its server is dropped and removes the socket file, whoever bound it.  A
  shutdown message ends the process at once; the idle monitor and the signals delete the discovery file first.\<close>

fun life_step :: "Home \<Rightarrow> string \<Rightarrow> LifeStep \<Rightarrow> Life \<Rightarrow> Life option" where
  "life_step h ws (BindSocket p) L =
     (if p \<in> set (lf_serving L) \<or> socket_path h ws = None then None
      else Some (L\<lparr>lf_socket := Some p, lf_serving := lf_serving L @ [p]\<rparr>))"
| "life_step h ws (Advertise p port time) L =
     (if p \<notin> set (lf_serving L) then None
      else (case socket_path h ws of None \<Rightarrow> None
        | Some endpoint \<Rightarrow> (case write_discovery h ws (discovery_of endpoint ws p port time) (lf_files L) of
              Some fs \<Rightarrow> Some (L\<lparr>lf_files := fs\<rparr>)
            | None \<Rightarrow> Some ((leave p L)\<lparr>lf_socket := None\<rparr>))))"
| "life_step h ws (ExitQuiet p) L = (if p \<in> set (lf_serving L) then Some (leave p L) else None)"
| "life_step h ws (ExitCleaning p) L =
     (if p \<in> set (lf_serving L)
      then Some ((leave p L)\<lparr>lf_files := (case delete_discovery h ws (lf_files L) of Some fs \<Rightarrow> fs | None \<Rightarrow> lf_files L)\<rparr>) else None)"
| "life_step h ws (ServeFails p) L = (if p \<in> set (lf_serving L) then Some ((leave p L)\<lparr>lf_socket := None\<rparr>) else None)"
| "life_step h ws Connects L = Some (L\<lparr>lf_files := snd (daemon_connect h (accepts h ws L) ws (lf_files L))\<rparr>)"

fun life_run :: "Home \<Rightarrow> string \<Rightarrow> LifeStep list \<Rightarrow> Life \<Rightarrow> Life option" where
  "life_run h ws [] L = Some L"
| "life_run h ws (s # ss) L = Option.bind (life_step h ws s L) (life_run h ws ss)"

definition connect_result :: "Home \<Rightarrow> string \<Rightarrow> Life \<Rightarrow> DaemonError + string" where
  "connect_result h ws L = fst (daemon_connect h (accepts h ws L) ws (lf_files L))"

lemma life_run_append: "life_run h ws (as @ bs) L = Option.bind (life_run h ws as L) (life_run h ws bs)"
  by (induction as arbitrary: L) (auto simp: bind_assoc split: Option.bind_splits)

section \<open>One daemon\<close>

text \<open>A home where files can be written and the discovery files of the given daemons can be printed and read back.\<close>

definition home_ok :: "Home \<Rightarrow> string \<Rightarrow> (nat \<times> nat \<times> string) list \<Rightarrow> bool" where
  "home_ok h ws daemons \<longleftrightarrow> codec_ok (hm_json h) \<and> hm_writable h = (\<lambda>p. True) \<and>
     (case socket_path h ws of None \<Rightarrow> False
      | Some endpoint \<Rightarrow> list_all (\<lambda>(p, port, time). enc (hm_json h) (discovery_of endpoint ws p port time) \<noteq> None) daemons)"

lemma home_paths:
  assumes "home_ok h ws daemons"
  obtains endpoint dpath where "socket_path h ws = Some endpoint" "discovery_path h ws = Some dpath"
  using assms by (auto simp: home_ok_def socket_path_def discovery_path_def split: option.splits)

lemma home_writes:
  assumes "home_ok h ws daemons" "socket_path h ws = Some endpoint" "discovery_path h ws = Some dpath" "(p, port, time) \<in> set daemons"
  obtains fs1 where "write_discovery h ws (discovery_of endpoint ws p port time) fs = Some fs1"
proof -
  obtain js where "enc (hm_json h) (discovery_of endpoint ws p port time) = Some js"
    using assms by (auto simp: home_ok_def list_all_iff)
  with assms(1,3) that show ?thesis by (simp add: home_ok_def write_discovery_def write_file_def)
qed

lemma advertised:
  assumes "home_ok h ws daemons" "socket_path h ws = Some endpoint" "discovery_path h ws = Some dpath"
    and "write_discovery h ws (discovery_of endpoint ws p port time) fs = Some fs1"
  shows "daemon_connect h l ws fs1 = (if l endpoint then (Inr endpoint, fs1) else (Inl Stale, fs(dpath := None)))"
    and "delete_discovery h ws fs1 = Some (fs(dpath := None))"
  using connect_written[OF _ assms(4) _ assms(3)] assms(1) by (simp_all add: home_ok_def discovery_of_def)


section \<open>Two daemons\<close>

lemma socket_owner:
  "life_run h ws steps L = Some L' \<Longrightarrow> BindSocket p \<notin> set steps \<Longrightarrow> lf_socket L \<noteq> Some p \<Longrightarrow> lf_socket L' \<noteq> Some p"
proof (induction steps arbitrary: L)
  case (Cons s steps)
  then obtain L1 where L1: "life_step h ws s L = Some L1" "life_run h ws steps L1 = Some L'" by (auto simp: bind_eq_Some_conv)
  have "lf_socket L1 \<noteq> Some p"
    using L1(1) Cons.prems(2,3) by (cases s) (auto simp: leave_def split: if_splits option.splits)
  then show ?case using Cons.IH[OF L1(2)] Cons.prems(2) by simp
qed simp

text \<open>C31. A second daemon of the same workspace takes the socket over: no client reaches the first one again; and when the
  first one ends its discovery file, which is that of the second, is deleted, so that clients are told that no daemon
  runs while the second one serves, and start a third.\<close>

theorem second_daemon_orphans_first:
  assumes "home_ok h ws [(p, port, time), (q, port', time')]" "lf_serving L = []" "p \<noteq> q"
  shows "case life_run h ws [BindSocket p, Advertise p port time, BindSocket q, Advertise q port' time'] L of
     None \<Rightarrow> False
   | Some L' \<Rightarrow> lf_serving L' = [p, q] \<and> lf_socket L' = Some q \<and>
       (\<forall>steps. BindSocket p \<in> set steps \<or> (case life_run h ws steps L' of Some L2 \<Rightarrow> lf_socket L2 \<noteq> Some p | None \<Rightarrow> True)) \<and>
       (case life_run h ws [ExitCleaning p] L' of None \<Rightarrow> False
        | Some L2 \<Rightarrow> lf_serving L2 = [q] \<and> lf_socket L2 = Some q \<and> connect_result h ws L2 = Inl NotRunning)"
proof -
  obtain endpoint dpath where paths: "socket_path h ws = Some endpoint" "discovery_path h ws = Some dpath"
    using home_paths[OF assms(1)] by blast
  obtain fs1 where w1: "write_discovery h ws (discovery_of endpoint ws p port time) (lf_files L) = Some fs1"
    using home_writes[OF assms(1) paths] by (metis list.set_intros(1,2))
  obtain fs2 where w2: "write_discovery h ws (discovery_of endpoint ws q port' time') fs1 = Some fs2"
    using home_writes[OF assms(1) paths] by (metis list.set_intros(1,2))
  note adv = advertised[OF assms(1) paths w2]
  define L1 where "L1 = L\<lparr>lf_socket := Some q, lf_serving := [p, q], lf_files := fs2\<rparr>"
  have run: "life_run h ws [BindSocket p, Advertise p port time, BindSocket q, Advertise q port' time'] L = Some L1"
    using assms(2,3) by (simp add: paths w1 w2 L1_def)
  have exit: "life_run h ws [ExitCleaning p] L1 = Some (L1\<lparr>lf_serving := [q], lf_files := fs1(dpath := None)\<rparr>)"
    using assms(3) adv(2) by (simp add: L1_def leave_def)
  have "lf_socket L1 \<noteq> Some p" using assms(3) by (simp add: L1_def)
  then have "BindSocket p \<in> set steps \<or> (case life_run h ws steps L1 of Some L2 \<Rightarrow> lf_socket L2 \<noteq> Some p | None \<Rightarrow> True)" for steps
    using socket_owner[of h ws steps L1 _ p] by (cases "life_run h ws steps L1") auto
  then show ?thesis
    unfolding run option.case exit by (simp add: L1_def connect_result_def connect_gone[OF paths(2)] del: fun_upd_apply life_run.simps)
qed

text \<open>Example: two daemons of one workspace.\<close>

definition ex_socket :: string where
  "ex_socket = (case socket_path ex_home ''/a'' of Some e \<Rightarrow> e | None \<Rightarrow> [])"

definition life_home :: Home where
  "life_home = ex_home\<lparr>hm_json := \<lparr>enc = (\<lambda>d. if d = discovery_of ex_socket ''/a'' 1 80 [] then Some ''1''
       else if d = discovery_of ex_socket ''/a'' 2 81 [] then Some ''2'' else None),
     dec = (\<lambda>t. Some (if t = ''1'' then discovery_of ex_socket ''/a'' 1 80 [] else discovery_of ex_socket ''/a'' 2 81 []))\<rparr>\<rparr>"

lemma life_home_ok: "home_ok life_home ''/a'' [(1, 80, []), (2, 81, [])]" "home_ok life_home ''/a'' [(1, 80, [])]"
proof -
  have "codec_ok (hm_json life_home)" by (auto simp: codec_ok_def life_home_def split: if_splits)
  moreover have "hm_writable life_home = (\<lambda>p. True)" by (simp add: life_home_def ex_home_def)
  moreover have "daemons_dir life_home = daemons_dir ex_home" "daemons_dir ex_home \<noteq> None" "workspace_hash life_home ws = workspace_hash ex_home ws" for ws
    by (simp_all add: daemons_dir_def workspace_hash_def life_home_def ex_home_def)
  then have "socket_path life_home ''/a'' = Some ex_socket"
    by (auto simp: socket_path_def ex_socket_def)
  moreover have "enc (hm_json life_home) (discovery_of ex_socket ''/a'' 1 80 []) \<noteq> None"
    "enc (hm_json life_home) (discovery_of ex_socket ''/a'' 2 81 []) \<noteq> None" by (simp_all add: life_home_def)
  ultimately show "home_ok life_home ''/a'' [(1, 80, []), (2, 81, [])]" "home_ok life_home ''/a'' [(1, 80, [])]"
    by (simp_all add: home_ok_def)
qed

definition ex_life :: Life where
  "ex_life = \<lparr>lf_socket = None, lf_files = (\<lambda>p. None), lf_serving = []\<rparr>"

lemma ex_life_serving: "lf_serving ex_life = []"
  by (simp add: ex_life_def)


lemma second_daemon_orphans_first_witness:
  "case life_run life_home ''/a'' [BindSocket 1, Advertise 1 80 [], BindSocket 2, Advertise 2 81 []] ex_life of
     None \<Rightarrow> False
   | Some L' \<Rightarrow> (case life_run life_home ''/a'' [ExitCleaning 1] L' of None \<Rightarrow> False
        | Some L2 \<Rightarrow> lf_serving L2 = [2] \<and> connect_result life_home ''/a'' L2 = Inl NotRunning)"
  using second_daemon_orphans_first[OF life_home_ok(1) ex_life_serving] by (auto simp del: life_run.simps split: option.splits)

section \<open>Streams of snapshots and changes\<close>

text \<open>What a receiver of the broadcast channel gets: a value, or an error when it lags behind or the channel is
  closed.  Both the task that turns changes into snapshots and the one that sends snapshots to a browser end at the
  first error.\<close>

datatype 'a bcast = Got 'a | Lagged | ChannelClosed

fun forward :: "'a bcast list \<Rightarrow> 'a list" where
  "forward (Got x # rest) = x # forward rest"
| "forward _ = []"

definition broadcast_snapshots :: "(nat \<Rightarrow> Reconciler) \<Rightarrow> nat bcast list \<Rightarrow> StateSnapshot list" where
  "broadcast_snapshots state changes = snapshot (state 0) # map (\<lambda>i. snapshot (state i)) (forward changes)"

lemma forward_Lagged: "forward (map Got xs @ Lagged # rest) = xs"
  by (induction xs) simp_all

text \<open>A session of a browser: the state first, then the snapshots broadcast after that, up to the first that cannot be
  sent; \<^verbatim>\<open>sendable\<close> counts how many can.\<close>

definition ws_sent :: "StateSnapshot \<Rightarrow> nat \<Rightarrow> StateSnapshot bcast list \<Rightarrow> StateSnapshot list" where
  "ws_sent initial sendable got =
     (case sendable of 0 \<Rightarrow> [] | Suc n \<Rightarrow> initial # take n (forward got))"

text \<open>The frames of the other direction: the first that is not a text ends the reading.\<close>

datatype frame = TextFrame string | OtherFrame

definition retry_of :: "(string \<Rightarrow> json option) \<Rightarrow> string \<Rightarrow> ReconcilerCmd option" where
  "retry_of parse t = Option.bind (parse t) (\<lambda>v.
     if json_get ''type'' v = Some (JStr ''RetryTask'')
     then (case (json_get ''package'' v, json_get ''script'' v) of (Some (JStr p), Some (JStr s)) \<Rightarrow> Some (RetryTask p s) | _ \<Rightarrow> None)
     else None)"

fun ws_commands :: "(string \<Rightarrow> json option) \<Rightarrow> frame list \<Rightarrow> ReconcilerCmd list" where
  "ws_commands parse (TextFrame t # rest) = (case retry_of parse t of Some c \<Rightarrow> [c] | None \<Rightarrow> []) @ ws_commands parse rest"
| "ws_commands parse _ = []"

lemma ws_commands_until_other: "ws_commands parse (map TextFrame ts @ OtherFrame # rest) = List.map_filter (retry_of parse) ts"
  by (induction ts) (auto split: option.splits)

text \<open>The watcher: an event adds its paths, an error nothing; a pause of the length of the debounce flushes what there is.\<close>

datatype watched = Changed "string list" | WatchError | Pause

fun debounce :: "watched list \<Rightarrow> string list \<Rightarrow> string list list" where
  "debounce [] buffered = []"
| "debounce (Changed ps # rest) buffered = debounce rest (buffered @ ps)"
| "debounce (WatchError # rest) buffered = debounce rest buffered"
| "debounce (Pause # rest) buffered = (if buffered = [] then debounce rest [] else buffered # debounce rest [])"

text \<open>Every path is reported once and in order when a pause follows; without a pause none is.\<close>

lemma debounce_complete:
  "concat (debounce (evs @ [Pause]) buffered) = buffered @ concat (map (\<lambda>e. case e of Changed ps \<Rightarrow> ps | _ \<Rightarrow> []) evs)"
  by (induction evs buffered rule: debounce.induct) auto

lemma debounce_starves: "Pause \<notin> set evs \<Longrightarrow> debounce evs buffered = []"
  by (induction evs buffered rule: debounce.induct) auto

text \<open>Messages on the socket: lines that are empty or do not parse are passed over; each other one is answered.\<close>

fun socket_session :: "(string \<Rightarrow> DaemonMessage option) \<Rightarrow> (DaemonMessage \<Rightarrow> Reconciler \<Rightarrow> (StateSnapshot \<times> Reconciler) option)
    \<Rightarrow> string list \<Rightarrow> Reconciler \<Rightarrow> StateSnapshot list \<times> Reconciler option" where
  "socket_session parse handler [] R = ([], Some R)"
| "socket_session parse handler (line # lines) R =
     (if line = [] then socket_session parse handler lines R
      else (case parse line of
          None \<Rightarrow> socket_session parse handler lines R
        | Some msg \<Rightarrow> (case handler msg R of
              None \<Rightarrow> ([], None)
            | Some (resp, R') \<Rightarrow> (case socket_session parse handler lines R' of (rs, end_state) \<Rightarrow> (resp # rs, end_state)))))"

text \<open>The idle monitor looks at the clock once a minute: the minute at which it ends the process.\<close>

fun idle_monitor :: "nat \<Rightarrow> (nat \<Rightarrow> nat) \<Rightarrow> nat \<Rightarrow> nat \<Rightarrow> nat option" where
  "idle_monitor idle last_activity minute 0 = None"
| "idle_monitor idle last_activity minute (Suc fuel) =
     (if idle < 60 * (minute + 1) - last_activity (minute + 1) then Some (minute + 1)
      else idle_monitor idle last_activity (minute + 1) fuel)"

lemma idle_monitor_in_use:
  assumes "\<forall>m. 60 * m \<le> last_activity m + idle"
  shows "idle_monitor idle last_activity minute fuel = None"
proof (induction fuel arbitrary: minute)
  case (Suc fuel)
  have "\<not> idle < 60 * (minute + 1) - last_activity (minute + 1)" using assms[rule_format, of "minute + 1"] by linarith
  then show ?case using Suc by (simp only: idle_monitor.simps if_False)
qed simp

lemma idle_monitor_ends:
  assumes "\<forall>m. last_activity m \<le> latest"
  shows "idle_monitor idle last_activity minute (latest + idle + 1) \<noteq> None"
proof -
  have "idle_monitor idle last_activity minute fuel \<noteq> None" if "latest + idle < minute + fuel" "0 < fuel" for minute fuel
    using that
  proof (induction fuel arbitrary: minute)
    case (Suc fuel)
    show ?case
    proof (cases "fuel = 0")
      case True
      with Suc.prems have "latest + idle \<le> minute" by simp
      moreover have "last_activity (minute + 1) \<le> latest" using assms by blast
      ultimately have "idle + last_activity (minute + 1) \<le> minute" by (simp add: add.commute)
      then have "idle < 60 * (minute + 1) - last_activity (minute + 1)" by (simp add: less_diff_conv)
      then show ?thesis by simp
    next
      case False
      then show ?thesis using Suc by simp
    qed
  qed simp
  from this[of minute "latest + idle + 1"] show ?thesis by (simp del: idle_monitor.simps)
qed

end
