(* ===== verification/Spoke.thy ===== *)
theory Spoke
  imports Hub_Server Node_Path
begin

text \<open>
  The worker side of a distributed build: the file by which a spoke finds the hub (src/crates/hub/src/rendezvous.rs)
  and the client that connects, executes what it is given and reports it (src/crates/spoke-client/src/lib.rs).
  The clock, the connection attempts, the command and the RPC channel are parameters.
\<close>

section \<open>Rendezvous\<close>

record HubAddr =
  ha_addr :: string
  ha_token :: string
  ha_build_id :: string

definition write_hub_addr :: "HubAddr codec \<Rightarrow> (string \<Rightarrow> bool) \<Rightarrow> string \<Rightarrow> HubAddr \<Rightarrow> files \<Rightarrow> files option" where
  "write_hub_addr J writable path addr fs = Option.bind (enc J addr) (\<lambda>js. write_file writable fs path js)"

definition poll_addr :: "HubAddr codec \<Rightarrow> string \<Rightarrow> files \<Rightarrow> HubAddr option" where
  "poll_addr J path fs = Option.bind (read_file fs path) (dec J)"

datatype PollResult = TimedOut | Found HubAddr

text \<open>The loop of \<^verbatim>\<open>read_hub_addr_with_timeout\<close> from its i-th round: what it finds in the files at that time, and the
  clock after it, in milliseconds; the result comes with the number of the round.\<close>

partial_function (option) read_hub_addr :: "HubAddr codec \<Rightarrow> string \<Rightarrow> nat \<Rightarrow> (nat \<Rightarrow> files) \<Rightarrow> (nat \<Rightarrow> nat) \<Rightarrow> nat \<Rightarrow> (nat \<times> PollResult) option" where
  "read_hub_addr J path deadline files clock i =
     (case poll_addr J path (files i) of
        Some addr \<Rightarrow> Some (i, Found addr)
      | None \<Rightarrow> if deadline \<le> clock i then Some (i, TimedOut) else read_hub_addr J path deadline files clock (Suc i))"

lemma read_hub_addr_from:
  assumes "i \<le> n" "\<forall>j. i \<le> j \<and> j < n \<longrightarrow> poll_addr J path (files j) = None \<and> clock j < deadline"
    and "poll_addr J path (files n) \<noteq> None \<or> deadline \<le> clock n"
  shows "read_hub_addr J path deadline files clock i =
    Some (n, case poll_addr J path (files n) of Some addr \<Rightarrow> Found addr | None \<Rightarrow> TimedOut)"
  using assms
proof (induction "n - i" arbitrary: i)
  case 0
  then have "i = n" by simp
  with assms(3) show ?case by (subst read_hub_addr.simps) (auto split: option.splits)
next
  case (Suc k)
  then have "i < n" by simp
  with Suc.prems(2) have "poll_addr J path (files i) = None" "\<not> deadline \<le> clock i" by (simp_all add: not_le)
  moreover have "read_hub_addr J path deadline files clock (Suc i) =
      Some (n, case poll_addr J path (files n) of Some addr \<Rightarrow> Found addr | None \<Rightarrow> TimedOut)"
    using Suc.hyps(2) Suc.prems \<open>i < n\<close> by (intro Suc.hyps(1)) auto
  ultimately show ?case by (subst read_hub_addr.simps) simp
qed

text \<open>C25. The spoke sleeps half a second between the rounds, so that it stops after at most twice as many rounds as the
  seconds of the timeout, with the address of the first round that finds one, and with a timeout only when no round
  before the deadline did.\<close>

theorem rendezvous_terminates:
  assumes "start \<le> clock 0" "\<forall>i. clock i + 500 \<le> clock (Suc i)"
  shows "case read_hub_addr J path (start + timeout_secs * 1000) files clock 0 of
     None \<Rightarrow> False
   | Some (n, Found addr) \<Rightarrow> n \<le> 2 * timeout_secs \<and> poll_addr J path (files n) = Some addr \<and> list_all (\<lambda>j. poll_addr J path (files j) = None) [0..<n]
   | Some (n, TimedOut) \<Rightarrow> n \<le> 2 * timeout_secs \<and> start + timeout_secs * 1000 \<le> clock n \<and> list_all (\<lambda>j. poll_addr J path (files j) = None) [0..<Suc n]"
proof -
  let ?d = "start + timeout_secs * 1000" and ?stop = "\<lambda>n. poll_addr J path (files n) \<noteq> None \<or> start + timeout_secs * 1000 \<le> clock n"
  have late: "start + 500 * i \<le> clock i" for i
  proof (induction i)
    case (Suc i)
    then show ?case using assms(2)[rule_format, of i] by simp
  qed (use assms(1) in simp)
  define n where "n = (LEAST n. ?stop n)"
  have stop: "?stop (2 * timeout_secs)" using late[of "2 * timeout_secs"] by simp
  have n: "?stop n" "n \<le> 2 * timeout_secs" unfolding n_def using LeastI[of ?stop, OF stop] Least_le[of ?stop, OF stop] by blast+
  have before: "\<not> ?stop j" if "j < n" for j using that not_less_Least[of j ?stop] unfolding n_def by blast
  have result: "read_hub_addr J path ?d files clock 0 = Some (n, case poll_addr J path (files n) of Some addr \<Rightarrow> Found addr | None \<Rightarrow> TimedOut)"
    using before n(1) by (intro read_hub_addr_from) (auto simp: not_le)
  show ?thesis
    using n before by (auto simp: result list_all_iff split: option.splits)
qed

section \<open>Reconnecting\<close>

text \<open>The delays, in milliseconds, before the attempts that follow failed ones; None when no attempt ever ends well.\<close>

partial_function (option) spoke_run :: "(nat \<Rightarrow> bool) \<Rightarrow> nat \<Rightarrow> nat \<Rightarrow> nat list option" where
  "spoke_run ends_well i backoff =
     (if ends_well i then Some []
      else Option.bind (spoke_run ends_well (Suc i) (min (backoff * 2) 30000)) (\<lambda>delays. Some (backoff # delays)))"

definition backoff_at :: "nat \<Rightarrow> nat" where
  "backoff_at i = min (500 * 2 ^ i) 30000"

lemma backoff_Suc: "min (backoff_at i * 2) 30000 = backoff_at (Suc i)"
  by (simp add: backoff_at_def min_def)

lemma spoke_run_from:
  assumes "i \<le> n" "ends_well n" "\<forall>j. i \<le> j \<and> j < n \<longrightarrow> \<not> ends_well j"
  shows "spoke_run ends_well i (backoff_at i) = Some (map backoff_at [i..<n])"
  using assms
proof (induction "n - i" arbitrary: i)
  case 0
  then show ?case by (subst spoke_run.simps) simp
next
  case (Suc k)
  then have "i < n" by simp
  with Suc have "spoke_run ends_well (Suc i) (backoff_at (Suc i)) = Some (map backoff_at [Suc i..<n])" "\<not> ends_well i" by auto
  with \<open>i < n\<close> show ?case by (subst spoke_run.simps) (simp add: backoff_Suc upt_conv_Cons)
qed

lemma spoke_run_returns:
  assumes "spoke_run ends_well i b = Some ds"
  shows "\<exists>n. ends_well n"
proof (rule spoke_run.raw_induct[OF _ assms, where P = "\<lambda>e i b ds. \<exists>n. e n"])
  fix f e i b y
  assume "\<And>e i b y. f e i b = Some y \<Longrightarrow> \<exists>n. e n"
    and "(if e i then Some [] else Option.bind (f e (Suc i) (min (b * 2) 30000)) (\<lambda>delays. Some (b # delays))) = Some y"
  then show "\<exists>n. e n" by (auto split: if_splits simp: bind_eq_Some_conv)
qed

section \<open>Working\<close>

definition execute_item :: "Host \<Rightarrow> (string \<Rightarrow> string \<Rightarrow> string \<Rightarrow> int option option) \<Rightarrow> string \<Rightarrow> WorkItem \<Rightarrow> bool" where
  "execute_item H run root item =
     (let dir = path_join root (wi_package_path item);
          system_path = (case h_env H ''PATH'' of Some p \<Rightarrow> p | None \<Rightarrow> []) in
      run (wi_command item) dir (build_node_path H dir root system_path) = Some (Some 0))"

definition spoke_report :: "string \<Rightarrow> string \<Rightarrow> WorkItem \<Rightarrow> bool \<Rightarrow> CompletionReport" where
  "spoke_report worker err item ok = \<lparr>cr_task_id = wi_task_id item, cr_worker_id = worker, cr_success = ok,
     cr_exit_code = (if ok then 0 else 1), cr_stdout_tail = [], cr_stderr_tail = (if ok then [] else err), cr_output_sf_hash = []\<rparr>"

text \<open>The stream of a connection: an item, or an error, which ends the connection.  Each item is executed and reported;
  whether the report arrives is not looked at.  True when the stream ended well.\<close>

fun work_stream :: "(WorkItem \<Rightarrow> bool) \<Rightarrow> (WorkItem \<Rightarrow> bool \<Rightarrow> CompletionReport) \<Rightarrow> WorkItem option list \<Rightarrow> CompletionReport list \<times> bool" where
  "work_stream exec report [] = ([], True)"
| "work_stream exec report (None # rest) = ([], False)"
| "work_stream exec report (Some item # rest) =
     (case work_stream exec report rest of (rs, ok) \<Rightarrow> (report item (exec item) # rs, ok))"

text \<open>The client of a spoke: it returns exactly when some connection ends with the end of the stream, and the delays
  before the attempts double from half a second up to half a minute; on each connection, every item received is
  executed and reported once, in order, with the success of its command.\<close>

theorem spoke_client_correct:
  "(case spoke_run ends_well 0 500 of
      None \<Rightarrow> (\<forall>n. \<not> ends_well n)
    | Some delays \<Rightarrow> ends_well (length delays) \<and> delays = map backoff_at [0..<length delays] \<and> list_all (\<lambda>d. 500 \<le> d \<and> d \<le> 30000) delays) \<and>
   (case work_stream exec (spoke_report worker err) items of (rs, ok) \<Rightarrow>
      map (\<lambda>r. (cr_task_id r, cr_success r)) rs = map (\<lambda>i. (wi_task_id i, exec i)) (map the (takeWhile (\<lambda>i. i \<noteq> None) items)) \<and>
      ok = (None \<notin> set items))"
proof
  have b0: "backoff_at 0 = 500" by (simp add: backoff_at_def)
  show "case spoke_run ends_well 0 500 of
      None \<Rightarrow> (\<forall>n. \<not> ends_well n)
    | Some delays \<Rightarrow> ends_well (length delays) \<and> delays = map backoff_at [0..<length delays] \<and> list_all (\<lambda>d. 500 \<le> d \<and> d \<le> 30000) delays"
  proof (cases "\<exists>n. ends_well n")
    case True
    define n where "n = (LEAST n. ends_well n)"
    have n: "ends_well n" using True LeastI_ex[of ends_well] unfolding n_def by blast
    have "\<not> ends_well j" if "j < n" for j using that not_less_Least unfolding n_def by blast
    with n have "spoke_run ends_well 0 500 = Some (map backoff_at [0..<n])"
      using spoke_run_from[of 0 n ends_well] b0 by simp
    moreover have "500 \<le> backoff_at i \<and> backoff_at i \<le> 30000" for i by (simp add: backoff_at_def)
    ultimately show ?thesis using n by (simp add: list_all_iff)
  next
    case False
    then have "spoke_run ends_well 0 500 = None" using spoke_run_returns by (metis option.exhaust)
    with False show ?thesis by simp
  qed
  show "case work_stream exec (spoke_report worker err) items of (rs, ok) \<Rightarrow>
      map (\<lambda>r. (cr_task_id r, cr_success r)) rs = map (\<lambda>i. (wi_task_id i, exec i)) (map the (takeWhile (\<lambda>i. i \<noteq> None) items)) \<and>
      ok = (None \<notin> set items)"
  proof (induction items)
    case (Cons item rest)
    then show ?case by (cases item) (auto simp: spoke_report_def split: prod.splits)
  qed simp
qed

lemma rendezvous_terminates_witness:
  "read_hub_addr \<lparr>enc = (\<lambda>a. None), dec = (\<lambda>t. None)\<rparr> ''f'' (7 + 3 * 1000) (\<lambda>i p. None) (\<lambda>i. 7 + 600 * i) 0 \<noteq> None"
  using rendezvous_terminates[where start = 7 and clock = "\<lambda>i. 7 + 600 * i" and J = "\<lparr>enc = (\<lambda>a. None), dec = (\<lambda>t. None)\<rparr>"
    and path = "''f''" and timeout_secs = 3 and files = "\<lambda>i p. None"]
  by (simp split: option.splits)

end
