(* ===== verification/Cli.thy ===== *)
theory Cli
  imports Daemon_Life Spoke Why_Miss
begin

text \<open>
  The commands of \<^verbatim>\<open>rage\<close> that put the parts together (src/crates/cli/src/main.rs): the workspace and the cache directory
  a command works on, the dependency graph, the daemon that is started on demand, the diagnosis of a miss, and the
  two ends of a distributed build.  Numbers that are only printed are given as texts.
\<close>

section \<open>Workspace, graph, cache directory\<close>

datatype CliError = NotRecognized | CliWs ws_error | CliDag dag_error | DaemonTransport | DaemonTimeout | SpawnFailedCli | NoDaemon
  | NoHubAddress | HubAddrTimeout | HubAddrWrite | NoTasks string

text \<open>None: there is no current directory, which panics.\<close>

definition resolve_workspace :: "(string \<Rightarrow> string option) \<Rightarrow> string option \<Rightarrow> string option \<Rightarrow> string option \<Rightarrow> string option" where
  "resolve_workspace canon cwd pos named =
     (case (case pos of Some p \<Rightarrow> Some p | None \<Rightarrow> named) of
        Some p \<Rightarrow> Some (case canon p of Some c \<Rightarrow> c | None \<Rightarrow> p)
      | None \<Rightarrow> cwd)"

definition cmd_graph :: "World \<Rightarrow> toposort \<Rightarrow> string \<Rightarrow> CliError + string" where
  "cmd_graph w ts root =
     (case detect_package_manager w root of None \<Rightarrow> Inl NotRecognized | Some pm \<Rightarrow>
      (case discover_packages w root of Inl e \<Rightarrow> Inl (CliWs e) | Inr raw \<Rightarrow>
      (case build_package_graph w raw of Inl e \<Rightarrow> Inl (CliWs e) | Inr resolved \<Rightarrow>
      (case build_dag ts resolved of Inl e \<Rightarrow> Inl (CliDag e) | Inr g \<Rightarrow> Inr (to_dot g)))))"

definition resolve_cache_dir :: "World \<Rightarrow> (string \<Rightarrow> RageConfig option) \<Rightarrow> string option \<Rightarrow> string option \<Rightarrow> string \<Rightarrow> string" where
  "resolve_cache_dir w parse home userprofile root =
     (let config = (case load_config w parse root of Inr (Some c) \<Rightarrow> c | _ \<Rightarrow> rage_config_default) in
      case cc_dir (rc_cache config) of
        Some d \<Rightarrow> d
      | None \<Rightarrow> (let h = (case home of Some h \<Rightarrow> h | None \<Rightarrow> (case userprofile of Some h \<Rightarrow> h | None \<Rightarrow> ''/tmp'')) in
          path_join (path_join h ''.rage'') ''cache''))"

text \<open>The sections printed; None when there are not two snapshots.\<close>

definition cmd_why_miss :: "WhyMissSnapshot list codec \<Rightarrow> files \<Rightarrow> string \<Rightarrow> string \<Rightarrow> string \<Rightarrow> WhySection list option" where
  "cmd_why_miss c fs cache_dir pkg script =
     map_option (\<lambda>(old, new). print_why_miss_diff old new) (read_snapshots c cache_dir fs pkg script)"

section \<open>The daemon on demand\<close>

text \<open>Up to a number of further attempts, a tenth of a second apart: before the i-th one the files have changed by
  \<^verbatim>\<open>others i\<close>, and \<^verbatim>\<open>listening i\<close> are the endpoints that accept.  The number of the last attempt comes with the result.\<close>

fun connect_again :: "Home \<Rightarrow> string \<Rightarrow> (nat \<Rightarrow> files \<Rightarrow> files) \<Rightarrow> (nat \<Rightarrow> string \<Rightarrow> bool) \<Rightarrow> nat \<Rightarrow> nat \<Rightarrow> files \<Rightarrow> (CliError + string) \<times> nat \<times> files" where
  "connect_again h ws others listening 0 i fs = (Inl DaemonTimeout, i, fs)"
| "connect_again h ws others listening (Suc n) i fs =
     (case daemon_connect h (listening (Suc i)) ws (others (Suc i) fs) of
        (Inr e, fs') \<Rightarrow> (Inr e, Suc i, fs')
      | (Inl _, fs') \<Rightarrow> connect_again h ws others listening n (Suc i) fs')"

definition ensure_daemon :: "Home \<Rightarrow> string \<Rightarrow> bool \<Rightarrow> (nat \<Rightarrow> files \<Rightarrow> files) \<Rightarrow> (nat \<Rightarrow> string \<Rightarrow> bool) \<Rightarrow> files \<Rightarrow> (CliError + string) \<times> nat \<times> files" where
  "ensure_daemon h ws spawns others listening fs =
     (case daemon_connect h (listening 0) ws fs of
        (Inr e, fs') \<Rightarrow> (Inr e, 0, fs')
      | (Inl Transport, fs') \<Rightarrow> (Inl DaemonTransport, 0, fs')
      | (Inl _, fs') \<Rightarrow> if spawns then connect_again h ws others listening 50 0 fs' else (Inl SpawnFailedCli, 0, fs'))"

definition cmd_status :: "(DaemonError + string) \<Rightarrow> CliError + string option" where
  "cmd_status connected = (case connected of
     Inr endpoint \<Rightarrow> Inr (Some endpoint)
   | Inl NotRunning \<Rightarrow> Inr None
   | Inl Stale \<Rightarrow> Inr None
   | Inl Transport \<Rightarrow> Inl DaemonTransport)"

definition cmd_open :: "Home \<Rightarrow> (nat \<Rightarrow> string) \<Rightarrow> string \<Rightarrow> files \<Rightarrow> CliError + string" where
  "cmd_open h show_port ws fs = (case read_discovery h ws fs of
     ReadErr \<Rightarrow> Inl DaemonTransport
   | ReadOk None \<Rightarrow> Inl NoDaemon
   | ReadOk (Some d) \<Rightarrow> Inr (''http://127.0.0.1:'' @ show_port (df_http_port d) @ ''/''))"

text \<open>\<^verbatim>\<open>rage dev\<close>: the command the daemon receives on the connection.\<close>

definition dev_message :: "string \<Rightarrow> string \<Rightarrow> string list option \<Rightarrow> DaemonMessage" where
  "dev_message root script target = MsgSetDesiredState \<lparr>de_workspace = root, de_script = script, de_targets = target\<rparr>"

lemma connect_again_found:
  "connect_again h ws others listening n i fs = (Inr e, k, fs') \<Longrightarrow> i < k \<and> k \<le> i + n \<and> listening k e"
proof (induction n arbitrary: i fs)
  case (Suc n)
  obtain r fs1 where c: "daemon_connect h (listening (Suc i)) ws (others (Suc i) fs) = (r, fs1)" by fastforce
  show ?case
  proof (cases r)
    case (Inl err)
    then show ?thesis using Suc.IH[of "Suc i" fs1] Suc.prems c by simp
  next
    case (Inr e')
    then have "listening (Suc i) e'" using c
      by (auto simp: daemon_connect_def split: read_result.splits option.splits if_splits)
    then show ?thesis using Suc.prems c Inr by simp
  qed
qed simp

text \<open>A daemon is started at most once; when an endpoint is returned it listened at the attempt that found it, the
  first or one of fifty more.\<close>

lemma ensure_daemon_found:
  assumes "ensure_daemon h ws spawns others listening fs = (Inr e, k, fs')"
  shows "k \<le> 50 \<and> listening k e"
proof -
  obtain r fs1 where c: "daemon_connect h (listening 0) ws fs = (r, fs1)" by fastforce
  show ?thesis
  proof (cases r)
    case (Inl err)
    then show ?thesis using assms c connect_again_found[of h ws others listening 50 0 fs1 e k fs']
      by (cases err) (simp_all add: ensure_daemon_def split: if_splits)
  next
    case (Inr e')
    then have "listening 0 e'" using c
      by (auto simp: daemon_connect_def split: read_result.splits option.splits if_splits)
    then show ?thesis using assms c Inr by (simp add: ensure_daemon_def)
  qed
qed

section \<open>A distributed build\<close>

text \<open>The environment variables, the host name and the process id.\<close>

record CliEnv =
  ce_token :: "string option"
  ce_addr_file :: "string option"
  ce_address :: "string option"
  ce_hostname :: "string option"
  ce_pid :: string

definition cli_token :: "CliEnv \<Rightarrow> string option \<Rightarrow> string" where
  "cli_token E arg = (case arg of Some t \<Rightarrow> t | None \<Rightarrow> (case ce_token E of Some t \<Rightarrow> t | None \<Rightarrow> ''rage-default-token''))"

definition manifest_scripts :: "World \<Rightarrow> string \<Rightarrow> (string \<Rightarrow> string option) option" where
  "manifest_scripts w p = Option.bind (Option.bind (read_json w p) (json_get ''scripts'')) (\<lambda>ss.
     map_option (\<lambda>kvs s. Option.bind (map_of kvs s) json_str) (json_obj ss))"

definition hub_package :: "Package \<Rightarrow> HubPackage" where
  "hub_package p = \<lparr>hp_name = pkg_name p, hp_path = pkg_path p, hp_dependencies = pkg_deps p\<rparr>"

definition hub_address :: "CliEnv \<Rightarrow> string \<Rightarrow> string" where
  "hub_address E port = ''http://'' @ (case ce_hostname E of Some h \<Rightarrow> h | None \<Rightarrow> ''0.0.0.0'') @ '':'' @ port"

definition cmd_hub :: "HubAddr codec \<Rightarrow> (string \<Rightarrow> bool) \<Rightarrow> CliEnv \<Rightarrow> World \<Rightarrow> string \<Rightarrow> string \<Rightarrow> string \<Rightarrow> string option \<Rightarrow> string option
    \<Rightarrow> files \<Rightarrow> CliError + (HubServer \<times> HubState \<times> files)" where
  "cmd_hub J writable E w workspace script port addr_file token_arg fs =
     (let token = cli_token E token_arg; build_id = ''build-'' @ ce_pid E in
      case discover_packages w workspace of Inl e \<Rightarrow> Inl (CliWs e) | Inr packages \<Rightarrow>
      (case build_package_graph w packages of Inl e \<Rightarrow> Inl (CliWs e) | Inr resolved \<Rightarrow>
      (case hub_task_nodes (manifest_scripts w) (\<lambda>p. path_strip_prefix p workspace) script (map hub_package resolved) of
        Inl msg \<Rightarrow> Inl (NoTasks msg)
      | Inr nodes \<Rightarrow>
          (let hub = \<lparr>srv_token = token, srv_workspace = workspace\<rparr>; state = hub_state_new nodes build_id in
           case addr_file of
             None \<Rightarrow> Inr (hub, state, fs)
           | Some p \<Rightarrow> (case write_hub_addr J writable p \<lparr>ha_addr = hub_address E port, ha_token = token, ha_build_id = build_id\<rparr> fs of
                 None \<Rightarrow> Inl HubAddrWrite
               | Some fs' \<Rightarrow> Inr (hub, state, fs'))))))"

text \<open>The address a spoke connects to; None when the wait for the file does not end.\<close>

definition spoke_address :: "HubAddr codec \<Rightarrow> CliEnv \<Rightarrow> nat \<Rightarrow> (nat \<Rightarrow> files) \<Rightarrow> (nat \<Rightarrow> nat) \<Rightarrow> string option \<Rightarrow> string option
    \<Rightarrow> (CliError + string) option" where
  "spoke_address J E start files clock addr_file hub_addr_arg =
     (case hub_addr_arg of
        Some a \<Rightarrow> Some (Inr a)
      | None \<Rightarrow> (case (case addr_file of Some p \<Rightarrow> Some p | None \<Rightarrow> ce_addr_file E) of
            Some p \<Rightarrow> (case read_hub_addr J p (start + 60 * 1000) files clock 0 of
                None \<Rightarrow> None
              | Some (_, Found a) \<Rightarrow> Some (Inr (ha_addr a))
              | Some (_, TimedOut) \<Rightarrow> Some (Inl HubAddrTimeout))
          | None \<Rightarrow> (case ce_address E of Some a \<Rightarrow> Some (Inr a) | None \<Rightarrow> Some (Inl NoHubAddress))))"

text \<open>One connection of a spoke: it has to reach the hub and to be let in, and its stream has to end well.\<close>

definition connect_and_work :: "(nat \<Rightarrow> bool) \<Rightarrow> HubServer \<Rightarrow> WorkerInfo \<Rightarrow> (nat \<Rightarrow> WorkItem option list) \<Rightarrow> (WorkItem \<Rightarrow> bool)
    \<Rightarrow> (WorkItem \<Rightarrow> bool \<Rightarrow> CompletionReport) \<Rightarrow> nat \<Rightarrow> bool" where
  "connect_and_work reach hub info items exec report i =
     (if \<not> reach i then False
      else (case subscribe_open hub info of Inl _ \<Rightarrow> False | Inr _ \<Rightarrow> snd (work_stream exec report (items i))))"

text \<open>C32. A hub and a spoke that share the address file: the spoke gets the address of the hub from the first look at the
  file, but not the token that stands beside it; when the token it is given otherwise is another one, every
  connection is refused and the spoke tries again for ever.\<close>

theorem hub_spoke_meet:
  assumes "cmd_hub J writable E w workspace script port (Some p) token_arg fs = Inr (hub, state, fs1)" "codec_ok J" "files 0 p = fs1 p"
  shows "spoke_address J E' start files clock (Some p) None = Some (Inr (hub_address E port)) \<and>
    (if cli_token E' token_arg' = cli_token E token_arg
     then subscribe_open hub \<lparr>in_worker_id = worker, in_token = cli_token E' token_arg'\<rparr> = Inr worker
     else spoke_run (connect_and_work reach hub \<lparr>in_worker_id = worker, in_token = cli_token E' token_arg'\<rparr> items exec report) 0 500 = None)"
proof
  let ?addr = "\<lparr>ha_addr = hub_address E port, ha_token = cli_token E token_arg, ha_build_id = ''build-'' @ ce_pid E\<rparr>"
  have w: "write_hub_addr J writable p ?addr fs = Some fs1" and hub: "srv_token hub = cli_token E token_arg"
    using assms(1) by (auto simp: cmd_hub_def Let_def split: sum.splits option.splits)
  then obtain js where js: "enc J ?addr = Some js" "fs1 = fs(p \<mapsto> Readable js)"
    by (auto simp: write_hub_addr_def write_file_def bind_eq_Some_conv split: if_splits)
  then have "poll_addr J p (files 0) = Some ?addr"
    using assms(3) codec_okD[OF assms(2) js(1)] by (simp add: poll_addr_def read_file_def)
  then have "read_hub_addr J p (start + 60 * 1000) files clock 0 = Some (0, Found ?addr)"
    by (subst read_hub_addr.simps) simp
  then show "spoke_address J E' start files clock (Some p) None = Some (Inr (hub_address E port))"
    by (simp add: spoke_address_def)
  show "if cli_token E' token_arg' = cli_token E token_arg
     then subscribe_open hub \<lparr>in_worker_id = worker, in_token = cli_token E' token_arg'\<rparr> = Inr worker
     else spoke_run (connect_and_work reach hub \<lparr>in_worker_id = worker, in_token = cli_token E' token_arg'\<rparr> items exec report) 0 500 = None"
  proof (cases "cli_token E' token_arg' = cli_token E token_arg")
    case False
    let ?run = "spoke_run (connect_and_work reach hub \<lparr>in_worker_id = worker, in_token = cli_token E' token_arg'\<rparr> items exec report) 0 500"
    have "\<not> connect_and_work reach hub \<lparr>in_worker_id = worker, in_token = cli_token E' token_arg'\<rparr> items exec report i" for i
      using False hub by (simp add: connect_and_work_def subscribe_open_def)
    then have "?run = None" using spoke_run_returns by (cases ?run) blast+
    with False show ?thesis by simp
  qed (simp add: subscribe_open_def hub)
qed

text \<open>One package with a build script, and the file that the hub writes.\<close>

definition ex_hub_world :: World where
  "ex_hub_world = \<lparr>w_read = (\<lambda>p. if p = ''/w/pnpm-workspace.yaml'' then Inr ''y''
        else if p = ''/w/app/package.json'' then Inr ''a'' else Inl NotFound),
     w_exists = (\<lambda>_. True), w_is_dir = (\<lambda>_. True), w_read_dir = (\<lambda>_. None), w_canon = Some,
     w_glob = (\<lambda>_. Some [Some ''/w/app'']),
     w_json = (\<lambda>s. Some (JObj [(''name'', JStr ''app''), (''scripts'', JObj [(''build'', JStr ''tsc'')])])),
     w_pnpm_packages = (\<lambda>_. Some [''*''])\<rparr>"

definition ex_hub_env :: CliEnv where
  "ex_hub_env = \<lparr>ce_token = None, ce_addr_file = None, ce_address = None, ce_hostname = Some ''ci'', ce_pid = ''7''\<rparr>"

definition ex_hub_addr :: HubAddr where
  "ex_hub_addr = \<lparr>ha_addr = ''http://ci:80'', ha_token = ''t'', ha_build_id = ''build-7''\<rparr>"

definition ex_hub_codec :: "HubAddr codec" where
  "ex_hub_codec = \<lparr>enc = (\<lambda>a. if a = ex_hub_addr then Some ''{}'' else None), dec = (\<lambda>s. if s = ''{}'' then Some ex_hub_addr else None)\<rparr>"

lemma ex_hub_run:
  "\<exists>state. cmd_hub ex_hub_codec (\<lambda>_. True) ex_hub_env ex_hub_world ''/w'' ''build'' ''80'' (Some ''/s/hub.json'') (Some ''t'') Map.empty
     = Inr (\<lparr>srv_token = ''t'', srv_workspace = ''/w''\<rparr>, state, [''/s/hub.json'' \<mapsto> Readable ''{}''])"
proof -
  let ?pkg = "\<lparr>pkg_name = ''app'', pkg_version = ''0.0.0'', pkg_path = ''/w/app'', pkg_deps = []\<rparr>"
  have d: "discover_packages ex_hub_world ''/w'' = Inr [?pkg]"
    by (simp add: discover_packages_def detect_package_manager_def ex_hub_world_def path_join_def is_absolute_def
        Let_def resolve_glob_def from_manifest_dir_def)
  have b: "build_package_graph ex_hub_world [?pkg] = Inr [?pkg]"
    by (simp add: build_package_graph_def ex_hub_world_def resolve_package_def
        path_join_def is_absolute_def Let_def workspace_deps_def dep_fields_def field_names_def)
  have "\<exists>ns. hub_task_nodes (manifest_scripts ex_hub_world) (\<lambda>p. path_strip_prefix p ''/w'') ''build'' [hub_package ?pkg] = Inr ns"
    by (simp add: hub_task_nodes_def List.map_filter_def hub_node_def manifest_scripts_def hub_package_def read_json_def ex_hub_world_def)
  moreover have "hub_address ex_hub_env ''80'' = ''http://ci:80''" by (simp add: hub_address_def ex_hub_env_def)
  ultimately show ?thesis
    using d b by (auto simp: cmd_hub_def Let_def cli_token_def write_hub_addr_def write_file_def ex_hub_codec_def ex_hub_addr_def
        ex_hub_env_def[THEN arg_cong[of _ _ ce_pid]])
qed

lemma hub_spoke_meet_witness:
  "spoke_address ex_hub_codec ex_hub_env 0 (\<lambda>_. [''/s/hub.json'' \<mapsto> Readable ''{}'']) (\<lambda>i. 600 * i) (Some ''/s/hub.json'') None
     = Some (Inr ''http://ci:80'') \<and>
   spoke_run (connect_and_work (\<lambda>_. True) \<lparr>srv_token = ''t'', srv_workspace = ''/w''\<rparr> \<lparr>in_worker_id = ''s1'', in_token = ''u''\<rparr>
     (\<lambda>_. []) (\<lambda>_. True) (spoke_report ''s1'' ''exit'')) 0 500 = None"
proof -
  have "codec_ok ex_hub_codec" by (auto simp: codec_ok_def ex_hub_codec_def split: if_splits)
  moreover have "hub_address ex_hub_env ''80'' = ''http://ci:80''" by (simp add: hub_address_def ex_hub_env_def)
  moreover have "cli_token ex_hub_env (Some t) = t" for t by (simp add: cli_token_def)
  ultimately show ?thesis
    using ex_hub_run hub_spoke_meet[where J = ex_hub_codec and E = ex_hub_env and E' = ex_hub_env and token_arg = "Some ''t''"
      and token_arg' = "Some ''u''" and p = "''/s/hub.json''" and port = "''80''" and files = "\<lambda>_. [''/s/hub.json'' \<mapsto> Readable ''{}'']"
      and clock = "\<lambda>i. 600 * i" and start = 0 and worker = "''s1''" and reach = "\<lambda>_. True" and items = "\<lambda>_. []"
      and exec = "\<lambda>_. True" and report = "spoke_report ''s1'' ''exit''"]
    by fastforce
qed

section \<open>The command line\<close>

text \<open>Where a command works, by its option and by its position.\<close>

record Where =
  wh_named :: "string option"
  wh_pos :: "string option"

datatype Command =
    Graph_cmd Where
  | Run_cmd string Where bool "string option" bool "string option"
  | Daemon_cmd Where
  | Dev_cmd string "string list option" Where
  | Status_cmd Where
  | Open_cmd Where
  | WhyMiss_cmd string string Where
  | Hub_cmd Where string "16 word" "string option" "string option"
  | Spoke_cmd Where "string option" "string option" "string option"

text \<open>What is called, with the root of the workspace first.\<close>

datatype Invocation =
    Call_graph string
  | Call_run string string bool "string option" bool "string option"
  | Call_daemon string
  | Call_dev string string "string list option"
  | Call_status string
  | Call_open string
  | Call_why_miss string string string
  | Call_hub string string "16 word" "string option" "string option"
  | Call_spoke string "string option" "string option" "string option"

definition cli_main :: "(string \<Rightarrow> string option) \<Rightarrow> string option \<Rightarrow> Command \<Rightarrow> Invocation option" where
  "cli_main canon cwd command =
     (let at = (\<lambda>w call. map_option call (resolve_workspace canon cwd (wh_pos w) (wh_named w))) in
      case command of
        Graph_cmd w \<Rightarrow> at w Call_graph
      | Run_cmd script w no_cache since affected to \<Rightarrow> at w (\<lambda>root. Call_run root script no_cache since affected to)
      | Daemon_cmd w \<Rightarrow> at w Call_daemon
      | Dev_cmd script target w \<Rightarrow> at w (\<lambda>root. Call_dev root script target)
      | Status_cmd w \<Rightarrow> at w Call_status
      | Open_cmd w \<Rightarrow> at w Call_open
      | WhyMiss_cmd package script w \<Rightarrow> at w (\<lambda>root. Call_why_miss root package script)
      | Hub_cmd w script port addr_file token \<Rightarrow> at w (\<lambda>root. Call_hub root script port addr_file token)
      | Spoke_cmd w addr_file address token \<Rightarrow> at w (\<lambda>root. Call_spoke root addr_file address token))"

text \<open>The daemon that is started on demand is this program with two arguments.\<close>

definition detached_daemon_args :: "string \<Rightarrow> string list" where
  "detached_daemon_args root = [''daemon'', root]"

text \<open>The store of packages stands beside the cache.\<close>

definition store_root :: "string \<Rightarrow> string" where
  "store_root cache_dir = (case path_parent cache_dir of
     Some p \<Rightarrow> path_join p ''artifacts'' | None \<Rightarrow> path_join cache_dir ''artifacts'')"

text \<open>The daemon started for a canonical workspace works on that workspace, so it is found where the client looks.\<close>

lemma detached_daemon_workspace:
  assumes "canon root = Some root"
  shows "cli_main canon cwd (Daemon_cmd \<lparr>wh_named = None, wh_pos = Some root\<rparr>) = Some (Call_daemon root)"
  using assms by (simp add: cli_main_def resolve_workspace_def)

lemma store_root_default: "store_root ''/home/u/.rage/cache'' = ''/home/u/.rage/artifacts''"
  by code_simp

end
