(* ===== verification/Ts_Plugin.thy ===== *)
theory Ts_Plugin
  imports Root_Task Node_Path
begin

text \<open>
  The TypeScript plugin (src/crates/plugin-typescript/src/lib.rs): its tasks and input globs, the install task it
  infers from the lockfiles, the operations by which an install is restored, and the postinstall tasks with the
  script policies of the package managers (postinstall.rs); and the discovery of packages from a lockfile
  (pathset_extractor.rs).  The extraction of archives is a parameter.
\<close>

section \<open>Tasks and input globs\<close>

definition ts_detection_globs :: "string list" where
  "ts_detection_globs = [''tsconfig.json'', ''tsconfig.*.json'']"

definition ts_source_globs :: "string list" where
  "ts_source_globs = [''src/**/*.ts'', ''src/**/*.tsx'', ''tsconfig*.json'', ''package.json'']"

definition ts_infer_tasks :: "string \<Rightarrow> TaskDef list" where
  "ts_infer_tasks root =
     [\<lparr>td_name = ''typecheck'', td_command_template = ''tsc --noEmit'', td_input_globs = ts_source_globs, td_output_globs = []\<rparr>,
      \<lparr>td_name = ''build'', td_command_template = ''tsc'', td_input_globs = ts_source_globs,
       td_output_globs = [''dist/**'', ''lib/**'', ''**/*.d.ts'']\<rparr>]"

text \<open>Paths that the toolchain is known to read.\<close>

record AllowlistEntry =
  al_pattern :: string
  al_reason :: string

definition ts_toolchain_allowlist :: "AllowlistEntry list" where
  "ts_toolchain_allowlist = map (\<lambda>(p, r). \<lparr>al_pattern = p, al_reason = r\<rparr>)
     [(''**/node_modules/typescript/**'', ''tsc compiler internals''),
      (''**/node_modules/.pnpm/typescript@*/**'', ''tsc compiler internals (pnpm)''),
      (''/usr/lib/**'', ''system libraries''),
      (''/Library/**'', ''macOS frameworks''),
      (''/private/var/folders/**'', ''macOS temp dirs (V8 / node cache)''),
      (''**/node_modules/.bin/**'', ''locally-installed tool binaries (tsc, eslint, jest, etc.)''),
      (''**/.local/share/fnm/**'', ''fnm-managed Node.js binaries''),
      (''**/.nvm/**'', ''nvm-managed Node.js binaries''),
      (''**/.asdf/**'', ''asdf-managed runtime binaries''),
      (''**/.local/share/mise/**'', ''mise-managed runtime binaries'')]"

record PluginConfig =
  pc_extend :: "string list"
  pc_exclude :: "string list"

text \<open>The configuration as rage.json has it.\<close>

record InputGlobsConfig =
  ig_extend :: "string list"
  ig_exclude :: "string list"

definition plugin_config_from_pipeline :: "InputGlobsConfig \<Rightarrow> PluginConfig" where
  "plugin_config_from_pipeline c = \<lparr>pc_extend = ig_extend c, pc_exclude = ig_exclude c\<rparr>"

definition ts_declared_input_globs :: "PluginConfig \<Rightarrow> string \<Rightarrow> string list" where
  "ts_declared_input_globs cfg task_name =
     filter (\<lambda>g. g \<notin> set (pc_exclude cfg))
       ((if task_name = ''typecheck'' \<or> task_name = ''build'' then ts_source_globs
         else [''**/*.ts'', ''**/*.tsx'', ''package.json'']) @ pc_extend cfg)"

section \<open>The install task\<close>

record TsEnv =
  te_yarn_cache :: "string option"
  te_home :: "string option"
  te_unzip :: "string \<Rightarrow> string \<Rightarrow> LocalStore \<Rightarrow> bool \<times> LocalStore"
  te_untgz :: "string \<Rightarrow> string \<Rightarrow> string \<Rightarrow> LocalStore \<Rightarrow> bool \<times> LocalStore"

definition version_line :: "LocalStore \<Rightarrow> string \<Rightarrow> string option" where
  "version_line s p = Option.bind (read_local s p) (\<lambda>t. if trim t = [] then None else Some (trim t))"

definition ts_node_version :: "LocalStore \<Rightarrow> string \<Rightarrow> string option" where
  "ts_node_version s root =
     (case version_line s (path_join root ''.node-version'') of Some v \<Rightarrow> Some v
      | None \<Rightarrow> (case version_line s (path_join root ''.nvmrc'') of Some v \<Rightarrow> Some v
      | None \<Rightarrow> Option.bind (read_local s (path_join root ''.tool-versions'')) (\<lambda>t. tool_versions_node (str_lines t))))"

definition is_file_at :: "LocalStore \<Rightarrow> string \<Rightarrow> bool" where
  "is_file_at s p = path_is_file (ls_os s) (ls_disk s) p"

definition infer_root_tasks :: "LocalStore \<Rightarrow> string \<Rightarrow> RootTask list" where
  "infer_root_tasks s root =
     (let env = (case ts_node_version s root of Some v \<Rightarrow> [(''NODE_VERSION'', v)] | None \<Rightarrow> []);
          pnpm_lock = path_join root ''pnpm-lock.yaml''; yarn_lock = path_join root ''yarn.lock'';
          npm_lock = path_join root ''package-lock.json'';
          install = (\<lambda>command inputs. [\<lparr>rt_name = ''install'', rt_command = command, rt_input_paths = inputs, rt_env_hash_inputs = env\<rparr>]) in
      if is_file_at s pnpm_lock then install ''pnpm install'' [pnpm_lock]
      else if is_file_at s yarn_lock then install ''yarn install'' (yarn_lock #
        (case read_local s yarn_lock of Some content \<Rightarrow> collect_file_protocol_paths content root | None \<Rightarrow> []))
      else if is_file_at s npm_lock then install ''npm install'' [npm_lock]
      else [])"

definition verify_install_effects :: "Fs \<Rightarrow> LocalStore \<Rightarrow> string \<Rightarrow> bool" where
  "verify_install_effects F s root =
     (let nm = path_join root ''node_modules'' in
      fs_is_dir F s nm \<and> (case fs_list F s nm of Some (_ # _) \<Rightarrow> True | _ \<Rightarrow> False))"

definition parse_lockfile :: "Fs \<Rightarrow> LocalStore \<Rightarrow> string \<Rightarrow> LockfilePackage list option" where
  "parse_lockfile F s root =
     (case read_local s (path_join root ''pnpm-lock.yaml'') of
        Some content \<Rightarrow> Some (parse_pnpm_lockfile content)
      | None \<Rightarrow> (case read_local s (path_join root ''yarn.lock'') of
            Some content \<Rightarrow> Some (if contains_str ''__metadata:'' content then parse_yarn_berry_lockfile content
              else parse_yarn_classic_lockfile content)
          | None \<Rightarrow> map_option (parse_npm_lockfile (fs_json F)) (read_local s (path_join root ''package-lock.json''))))"

text \<open>The cache directories of a package manager are tried in turn; a lockfile without one of them falls through to
  the next package manager.\<close>

definition local_pm_cache :: "Fs \<Rightarrow> TsEnv \<Rightarrow> LocalStore \<Rightarrow> string \<Rightarrow> string option" where
  "local_pm_cache F env s root =
     (let home = (case te_home env of Some h \<Rightarrow> h | None \<Rightarrow> []);
          yarn_dirs = (case te_yarn_cache env of Some c \<Rightarrow> [c] | None \<Rightarrow> []) @
            [path_join root ''.yarn/cache'', path_join home ''.yarn/berry/cache'', path_join home ''.yarn/cache''];
          pnpm_dirs = [home @ ''/.local/share/pnpm/store/v3/files'', home @ ''/Library/pnpm/store/v3/files''];
          npm_dirs = [path_join home ''.npm/_cacache''];
          dirs = (if path_exists F s (path_join root ''yarn.lock'') then yarn_dirs else []) @
            (if path_exists F s (path_join root ''pnpm-lock.yaml'') then pnpm_dirs else []) @
            (if path_exists F s (path_join root ''package-lock.json'') then npm_dirs else []) in
      List.find (fs_is_dir F s) dirs)"

text \<open>The packages that failed and those restored; an error of the store ends the whole.\<close>

fun restore_each :: "TsEnv \<Rightarrow> string \<Rightarrow> LockfilePackage list \<Rightarrow> LocalStore \<Rightarrow> (nat \<times> nat) io \<times> LocalStore" where
  "restore_each env root [] s = (Ok (0, 0), s)"
| "restore_each env root (p # ps) s =
    (case get_bytes_by_raw_key s (compute_cas_key (ls_hash s) (lp_integrity p)) of
       Err \<Rightarrow> (Err, s)
     | Ok found \<Rightarrow>
         (let (extracted, s1) = (case found of
              None \<Rightarrow> (False, s)
            | Some bytes \<Rightarrow> if starts_with ''PK'' bytes then te_unzip env bytes root s else te_untgz env bytes (lp_name p) root s) in
          case restore_each env root ps s1 of
            (Err, s2) \<Rightarrow> (Err, s2)
          | (Ok (failed, restored), s2) \<Rightarrow> (Ok (if extracted then (failed, restored + 1) else (failed + 1, restored)), s2)))"

definition restore_from_cas :: "TsEnv \<Rightarrow> LockfilePackage list \<Rightarrow> string \<Rightarrow> LocalStore \<Rightarrow> bool \<times> LocalStore" where
  "restore_from_cas env packages root s =
     (case restore_each env root packages s of (Ok (failed, _), s1) \<Rightarrow> (failed = 0, s1) | (Err, s1) \<Rightarrow> (False, s1))"

section \<open>Script policies\<close>

datatype ScriptPolicy = AllDisabled | Allowlist "string list" | NeverList "string list" | AllEnabled

definition yarnrc_disables :: "string \<Rightarrow> bool" where
  "yarnrc_disables content = list_ex (\<lambda>line. let trimmed = trim line in \<not> starts_with ''#'' trimmed \<and>
     (case strip_pre ''enableScripts:'' trimmed of Some rest \<Rightarrow> trim rest = ''false'' | None \<Rightarrow> False)) (str_lines content)"

definition to_lower :: "char \<Rightarrow> char" where
  "to_lower c = (if CHR ''A'' \<le> c \<and> c \<le> CHR ''Z'' then char_of (of_char c + 32 :: nat) else c)"

definition eq_ignore_case :: "string \<Rightarrow> string \<Rightarrow> bool" where
  "eq_ignore_case a b = (map to_lower a = map to_lower b)"

definition npmrc_disables :: "string \<Rightarrow> bool" where
  "npmrc_disables content = list_ex (\<lambda>line. let trimmed = trim line in \<not> starts_with ''#'' trimmed \<and> \<not> starts_with '';'' trimmed \<and>
     (case split_at ''='' trimmed of
        Some (k, v) \<Rightarrow> eq_ignore_case (trim k) ''ignore-scripts'' \<and> eq_ignore_case (trim (trim_start_char (CHR ''='') (trim v))) ''true''
      | None \<Rightarrow> False)) (str_lines content)"

definition pnpm_list :: "string \<Rightarrow> json \<Rightarrow> string list option" where
  "pnpm_list field v = (case Option.bind (json_get ''pnpm'' v) (json_get field) of
     Some (JArr xs) \<Rightarrow> Some (List.map_filter json_str xs) | _ \<Rightarrow> None)"

definition read_pm_script_policy :: "Fs \<Rightarrow> LocalStore \<Rightarrow> string \<Rightarrow> ScriptPolicy" where
  "read_pm_script_policy F s root =
     (let file_has = (\<lambda>name P. case read_local s (path_join root name) of Some content \<Rightarrow> P content | None \<Rightarrow> False) in
      if file_has ''.yarnrc.yml'' yarnrc_disables then AllDisabled
      else if file_has ''.npmrc'' npmrc_disables then AllDisabled
      else (case Option.bind (read_local s (path_join root ''package.json'')) (fs_json F) of
          None \<Rightarrow> AllEnabled
        | Some v \<Rightarrow> (case pnpm_list ''onlyBuiltDependencies'' v of
              Some allowed \<Rightarrow> Allowlist allowed
            | None \<Rightarrow> (case pnpm_list ''neverBuiltDependencies'' v of Some allowed \<Rightarrow> NeverList allowed | None \<Rightarrow> AllEnabled))))"

record RawPostinstallTask =
  rp_package :: string
  rp_script :: string
  rp_cwd :: string

fun apply_policy :: "RawPostinstallTask list \<Rightarrow> ScriptPolicy \<Rightarrow> RawPostinstallTask list" where
  "apply_policy tasks AllDisabled = []"
| "apply_policy tasks AllEnabled = tasks"
| "apply_policy tasks (Allowlist allowed) = filter (\<lambda>t. rp_package t \<in> set allowed) tasks"
| "apply_policy tasks (NeverList allowed) = filter (\<lambda>t. rp_package t \<notin> set allowed) tasks"

section \<open>Postinstall tasks\<close>

definition read_postinstall_field :: "Fs \<Rightarrow> LocalStore \<Rightarrow> string \<Rightarrow> string option" where
  "read_postinstall_field F s dir =
     Option.bind (Option.bind (read_local s (path_join dir ''package.json'')) (fs_json F)) (\<lambda>v.
     Option.bind (Option.bind (Option.bind (json_get ''scripts'' v) (json_get ''postinstall'')) json_str) (\<lambda>script.
       if trim script = [] then None else Some (trim script)))"

definition scan_package :: "Fs \<Rightarrow> LocalStore \<Rightarrow> string \<Rightarrow> string \<Rightarrow> RawPostinstallTask list" where
  "scan_package F s name dir = (case read_postinstall_field F s dir of
     Some script \<Rightarrow> [\<lparr>rp_package = name, rp_script = script, rp_cwd = dir\<rparr>] | None \<Rightarrow> [])"

definition scan_entry :: "Fs \<Rightarrow> LocalStore \<Rightarrow> string \<Rightarrow> string \<Rightarrow> RawPostinstallTask list" where
  "scan_entry F s nm n =
     (let path = path_join nm n in
      if starts_with ''.'' n \<or> \<not> fs_is_dir F s path then []
      else if starts_with ''@'' n then
        (case fs_list F s path of
           None \<Rightarrow> []
         | Some inner \<Rightarrow> concat (map (\<lambda>m. if starts_with ''.'' m \<or> \<not> fs_is_dir F s (path_join path m) then []
             else scan_package F s (n @ ''/'' @ m) (path_join path m)) inner))
      else scan_package F s n path)"

definition scan_postinstall_scripts :: "Fs \<Rightarrow> LocalStore \<Rightarrow> string \<Rightarrow> RawPostinstallTask list" where
  "scan_postinstall_scripts F s root =
     (let nm = path_join root ''node_modules'' in
      case fs_list F s nm of None \<Rightarrow> [] | Some entries \<Rightarrow> concat (map (scan_entry F s nm) entries))"

definition integrity_of :: "LockfilePackage list \<Rightarrow> string \<Rightarrow> string" where
  "integrity_of lockfile name = (case List.find (\<lambda>p. lp_name p = name) lockfile of
     Some p \<Rightarrow> lp_integrity p | None \<Rightarrow> ''rage-fallback:'' @ name)"

definition read_pkg_version :: "Fs \<Rightarrow> LocalStore \<Rightarrow> string \<Rightarrow> string option" where
  "read_pkg_version F s pkg_dir = read_version F s (path_join pkg_dir ''package.json'')"

definition postinstall_tasks :: "Fs \<Rightarrow> LocalStore \<Rightarrow> string \<Rightarrow> PostinstallTask list" where
  "postinstall_tasks F s root =
     (let policy = read_pm_script_policy F s root in
      if policy = AllDisabled then []
      else (let filtered = apply_policy (scan_postinstall_scripts F s root) policy;
                lockfile = (case parse_lockfile F s root of Some ps \<Rightarrow> ps | None \<Rightarrow> []) in
        map (\<lambda>t. \<lparr>pt_name = rp_package t,
          pt_version = (case read_pkg_version F s (rp_cwd t) of Some v \<Rightarrow> v | None \<Rightarrow> []),
          pt_integrity = integrity_of lockfile (rp_package t), pt_script = rp_script t, pt_cwd = rp_cwd t\<rparr>) filtered))"

text \<open>The plugin as the install task uses it.\<close>

definition ts_install_plugin :: "Fs \<Rightarrow> TsEnv \<Rightarrow> InstallPlugin" where
  "ts_install_plugin F env = \<lparr>ip_verify = verify_install_effects F, ip_parse = parse_lockfile F, ip_pm_cache = local_pm_cache F env,
     ip_restore = restore_from_cas env, ip_postinstall = postinstall_tasks F\<rparr>"

section \<open>Which scripts run\<close>

text \<open>The postinstall tasks are those of the packages that the policy permits, each with its own script and
  directory; none when scripts are disabled.\<close>

theorem script_policy_respected:
  "case read_pm_script_policy F s root of
     AllDisabled \<Rightarrow> postinstall_tasks F s root = []
   | Allowlist allowed \<Rightarrow> map (\<lambda>t. (pt_name t, pt_script t, pt_cwd t)) (postinstall_tasks F s root) =
       map (\<lambda>t. (rp_package t, rp_script t, rp_cwd t)) (filter (\<lambda>t. rp_package t \<in> set allowed) (scan_postinstall_scripts F s root))
   | NeverList denied \<Rightarrow> map (\<lambda>t. (pt_name t, pt_script t, pt_cwd t)) (postinstall_tasks F s root) =
       map (\<lambda>t. (rp_package t, rp_script t, rp_cwd t)) (filter (\<lambda>t. rp_package t \<notin> set denied) (scan_postinstall_scripts F s root))
   | AllEnabled \<Rightarrow> map (\<lambda>t. (pt_name t, pt_script t, pt_cwd t)) (postinstall_tasks F s root) =
       map (\<lambda>t. (rp_package t, rp_script t, rp_cwd t)) (scan_postinstall_scripts F s root)"
  by (simp add: postinstall_tasks_def Let_def o_def split: ScriptPolicy.splits)

lemma npmrc_line_disables:
  assumes "l \<in> set (str_lines content)" "trim l = ''ignore-scripts=true''"
  shows "npmrc_disables content"
proof -
  have "split_at ''='' ''ignore-scripts=true'' = Some (''ignore-scripts'', ''true'')" by code_simp
  moreover have "eq_ignore_case (trim ''ignore-scripts'') ''ignore-scripts''"
    "eq_ignore_case (trim (trim_start_char (CHR ''='') (trim ''true''))) ''true''" by code_simp+
  moreover have "\<not> starts_with ''#'' ''ignore-scripts=true''" "\<not> starts_with '';'' ''ignore-scripts=true''" by code_simp+
  ultimately show ?thesis unfolding npmrc_disables_def list_ex_iff
    by (intro bexI[OF _ assms(1)]) (simp only: assms(2) Let_def option.case prod.case simp_thms)
qed


lemma task_integrity:
  "t \<in> set (postinstall_tasks F s root) \<Longrightarrow>
    pt_integrity t = integrity_of (case parse_lockfile F s root of Some ps \<Rightarrow> ps | None \<Rightarrow> []) (pt_name t)"
  by (auto simp: postinstall_tasks_def Let_def split: if_splits)

text \<open>Two tasks of one package name have one key when the first lockfile entry of that name is the same: the version
  that is installed does not matter, so that the outputs of one version are replayed for another.\<close>

theorem postinstall_key_ignores_version:
  assumes "t \<in> set (postinstall_tasks F s root)" "t' \<in> set (postinstall_tasks F s' root')" "pt_name t = pt_name t'"
    and "List.find (\<lambda>p. lp_name p = pt_name t) (case parse_lockfile F s root of Some ps \<Rightarrow> ps | None \<Rightarrow> []) =
      List.find (\<lambda>p. lp_name p = pt_name t) (case parse_lockfile F s' root' of Some ps \<Rightarrow> ps | None \<Rightarrow> [])"
    and "ls_hash s = ls_hash s'"
  shows "task_key PE t s = task_key PE t' s'"
  using task_integrity[OF assms(1)] task_integrity[OF assms(2)] assms(3-5)
  by (simp add: task_key_def postinstall_cas_key_def integrity_of_def)

section \<open>Installs that are never restored\<close>

definition no_archives :: "Fs \<Rightarrow> LocalStore \<Rightarrow> string \<Rightarrow> bool" where
  "no_archives F s dir = (case fs_list F s dir of None \<Rightarrow> True
     | Some ns \<Rightarrow> list_all (\<lambda>n. \<not> ends_with ''.zip'' n \<and> \<not> ends_with ''.tgz'' n) ns)"

lemma no_archive_found:
  assumes "case pm_cache of None \<Rightarrow> True | Some dir \<Rightarrow> no_archives F s dir"
  shows "find_tarball F s pm_cache p = None"
proof (cases pm_cache)
  case (Some dir)
  with assms have none: "\<forall>n\<in>set ns. \<not> ends_with ''.zip'' n \<and> \<not> ends_with ''.tgz'' n" if "fs_list F s dir = Some ns" for ns
    using that by (simp add: no_archives_def list_all_iff)
  have "find_yarn_berry_zip (fs_list F s) dir n v = None" "find_yarn_classic_tgz (fs_list F s) dir n v = None" for n v
    by (auto simp: find_yarn_berry_zip_def find_yarn_classic_tgz_def find_None_iff dest!: none split: option.splits)
  then show ?thesis by (simp add: find_tarball_def Some)
qed (simp add: find_tarball_def)

lemma capture_no_archives:
  assumes "case pm_cache of None \<Rightarrow> True | Some dir \<Rightarrow> no_archives F s dir"
  shows "capture_from_lockfile_packages F pm_cache ps s = (0, s)"
  by (induction ps) (simp_all add: no_archive_found[OF assms] Let_def)

text \<open>The package manager whose cache holds no archives of its packages under their names, as those of pnpm and npm
  do: the install stores nothing, the marker is written all the same, and when node_modules is gone the install is
  run again, whatever was installed.\<close>

theorem install_without_archives:
  assumes "re_plugin E = ts_install_plugin (re_fs E) env" "parse_lockfile (re_fs E) s1 (t_workspace_root t) = Some pkgs"
    and "case local_pm_cache (re_fs E) env s1 (t_workspace_root t) of None \<Rightarrow> True | Some dir \<Rightarrow> no_archives (re_fs E) s1 dir"
    and "re_command E t s = (Some 0, s1)" "marker = root_marker E (root_task_fingerprint t s3)"
    and "path_exists (re_fs E) s3 marker" "\<not> verify_install_effects (re_fs E) s3 (t_workspace_root t)"
    and "parse_lockfile (re_fs E) s3 (t_workspace_root t) = Some pkgs3"
    and "list_ex (\<lambda>p. \<not> contains_key s3 (compute_cas_key (ls_hash s3) (lp_integrity p))) pkgs3"
    and "\<not> fs_is_dir (re_fs E) s3 (artifact_dir E (root_task_fingerprint t s3))"
  shows "(case run_install E t fp s of (r, s2, evs) \<Rightarrow> r = Inr () \<and> evs = [Started s, Exited 0 s1, MarkerWritten (write_marker (root_marker E fp) s1)]) \<and>
    run_root_task_two_phase E t s3 =
      with_events [EffectsMissing] (run_install E t (root_task_fingerprint t s3) (remove_marker marker s3))"
proof
  have "capture_install E t fp s1 = s1"
    using assms(1-3) by (simp add: capture_install_def ts_install_plugin_def capture_no_archives)
  then show "case run_install E t fp s of (r, s2, evs) \<Rightarrow>
      r = Inr () \<and> evs = [Started s, Exited 0 s1, MarkerWritten (write_marker (root_marker E fp) s1)]"
    using assms(4) by (simp add: run_install_def Let_def)
  have "restore_tarballs E t s3 = (None, s3)"
    using assms(1,8,9) by (auto simp: restore_tarballs_def ts_install_plugin_def list_all_iff list_ex_iff)
  moreover have "try_restore_from_cas (re_fs E) (artifact_dir E (root_task_fingerprint t s3)) (t_workspace_root t) s3 = (Inr False, s3)"
    using assms(10) by (simp add: try_restore_from_cas_def)
  ultimately show "run_root_task_two_phase E t s3 =
      with_events [EffectsMissing] (run_install E t (root_task_fingerprint t s3) (remove_marker marker s3))"
    using assms(1,5-7) by (simp add: run_root_task_two_phase_def Let_def ts_install_plugin_def)
qed

text \<open>Examples: a workspace whose only package has version 1 or 2 and a script, one that ignores scripts, and an npm
  install.\<close>

definition tp_fs :: Fs where
  "tp_fs = \<lparr>fs_list = (\<lambda>s p. if p = ''/w/node_modules'' then Some [''x''] else None), fs_tree = (\<lambda>s p. []),
     fs_is_dir = (\<lambda>s p. p = ''/w/node_modules/x''), fs_canon = (\<lambda>s p. None),
     fs_json = (\<lambda>v. Some (JObj [(''version'', JStr v), (''scripts'', JObj [(''postinstall'', JStr ''node i'')]),
       (''packages'', JObj [(''node_modules/a'', JObj [(''integrity'', JStr ''i'')])])])),
     fs_pnpm = (\<lambda>t. None), fs_entry = \<lparr>enc = (\<lambda>m. None), dec = (\<lambda>t. None)\<rparr>, fs_diff = (\<lambda>a b. None)\<rparr>"

definition tp_store :: "string list \<Rightarrow> string \<Rightarrow> LocalStore" where
  "tp_store paths bytes = (rt_store (\<lambda>p. if p \<in> set paths then Some (Reg 0) else None))\<lparr>ls_disk :=
     \<lparr>names = (\<lambda>p. if p \<in> set paths then Some (Reg 0) else None), inodes = (\<lambda>i. \<lparr>in_bytes = bytes, in_mode = 420\<rparr>), fresh = 1\<rparr>\<rparr>"

definition tp_env :: TsEnv where
  "tp_env = \<lparr>te_yarn_cache = None, te_home = None, te_unzip = (\<lambda>b r s. (False, s)), te_untgz = (\<lambda>b n r s. (False, s))\<rparr>"

definition tp_root_env :: RootEnv where
  "tp_root_env = (rt_env 0)\<lparr>re_fs := tp_fs\<lparr>fs_list := (\<lambda>s p. None), fs_is_dir := (\<lambda>s p. False)\<rparr>,
     re_plugin := ts_install_plugin (tp_fs\<lparr>fs_list := (\<lambda>s p. None), fs_is_dir := (\<lambda>s p. False)\<rparr>) tp_env\<rparr>"

definition tp_task :: "string \<Rightarrow> PostinstallTask" where
  "tp_task v = \<lparr>pt_name = ''x'', pt_version = v, pt_integrity = ''rage-fallback:x'', pt_script = ''node i'', pt_cwd = ''/w/node_modules/x''\<rparr>"

lemma tp_tasks:
  "postinstall_tasks tp_fs (tp_store [''/w/node_modules/x/package.json''] ''1'') ''/w'' = [tp_task ''1'']"
  "postinstall_tasks tp_fs (tp_store [''/w/node_modules/x/package.json''] ''2'') ''/w'' = [tp_task ''2'']"
  by code_simp+

lemma postinstall_key_ignores_version_witness:
  "task_key (ex_env (\<lambda>p s. (None, s))) (tp_task ''1'') (tp_store [''/w/node_modules/x/package.json''] ''1'') =
   task_key (ex_env (\<lambda>p s. (None, s))) (tp_task ''2'') (tp_store [''/w/node_modules/x/package.json''] ''2'')"
proof (rule postinstall_key_ignores_version)
  show "tp_task ''1'' \<in> set (postinstall_tasks tp_fs (tp_store [''/w/node_modules/x/package.json''] ''1'') ''/w'')"
    "tp_task ''2'' \<in> set (postinstall_tasks tp_fs (tp_store [''/w/node_modules/x/package.json''] ''2'') ''/w'')"
    by (simp_all add: tp_tasks)
  have "parse_lockfile tp_fs (tp_store [''/w/node_modules/x/package.json''] ''1'') ''/w'' = None"
    "parse_lockfile tp_fs (tp_store [''/w/node_modules/x/package.json''] ''2'') ''/w'' = None" by code_simp+
  then show "List.find (\<lambda>p. lp_name p = pt_name (tp_task ''1''))
      (case parse_lockfile tp_fs (tp_store [''/w/node_modules/x/package.json''] ''1'') ''/w'' of Some ps \<Rightarrow> ps | None \<Rightarrow> []) =
    List.find (\<lambda>p. lp_name p = pt_name (tp_task ''1''))
      (case parse_lockfile tp_fs (tp_store [''/w/node_modules/x/package.json''] ''2'') ''/w'' of Some ps \<Rightarrow> ps | None \<Rightarrow> [])"
    by simp
qed (simp_all add: tp_task_def tp_store_def)


definition tp_marker :: string where
  "tp_marker = root_marker tp_root_env (root_task_fingerprint rt_task (tp_store [''/w/package-lock.json''] ''{}''))"

lemma install_without_archives_witness:
  "snd (snd (run_install tp_root_env rt_task ''f'' (tp_store [''/w/package-lock.json''] ''{}''))) =
    [Started (tp_store [''/w/package-lock.json''] ''{}''), Exited 0 (tp_store [''/w/package-lock.json''] ''{}''),
     MarkerWritten (write_marker (root_marker tp_root_env ''f'') (tp_store [''/w/package-lock.json''] ''{}''))] \<and>
   hd (snd (snd (run_root_task_two_phase tp_root_env rt_task (tp_store [''/w/package-lock.json'', tp_marker] ''{}'')))) = EffectsMissing"
proof -
  let ?s1 = "tp_store [''/w/package-lock.json''] ''{}''" and ?s3 = "tp_store [''/w/package-lock.json'', tp_marker] ''{}''"
  let ?fp = "root_task_fingerprint rt_task ?s3" and ?pkgs = "[\<lparr>lp_name = ''a'', lp_version = [], lp_integrity = ''i'', lp_tarball = None\<rparr>]"
  have a1: "re_plugin tp_root_env = ts_install_plugin (re_fs tp_root_env) tp_env" by (simp add: tp_root_env_def)
  have a2: "parse_lockfile (re_fs tp_root_env) ?s1 (t_workspace_root rt_task) = Some ?pkgs" by code_simp
  have a3: "case local_pm_cache (re_fs tp_root_env) tp_env ?s1 (t_workspace_root rt_task) of None \<Rightarrow> True
      | Some dir \<Rightarrow> no_archives (re_fs tp_root_env) ?s1 dir" by code_simp
  have a4: "re_command tp_root_env rt_task ?s1 = (Some 0, ?s1)" by (simp add: tp_root_env_def rt_env_def)
  have a6: "path_exists (re_fs tp_root_env) ?s3 (root_marker tp_root_env ?fp)" by code_simp
  have a7: "\<not> verify_install_effects (re_fs tp_root_env) ?s3 (t_workspace_root rt_task)" by code_simp
  have a8: "parse_lockfile (re_fs tp_root_env) ?s3 (t_workspace_root rt_task) = Some ?pkgs" by code_simp
  have a9: "list_ex (\<lambda>p. \<not> contains_key ?s3 (compute_cas_key (ls_hash ?s3) (lp_integrity p))) ?pkgs" by code_simp
  have a10: "\<not> fs_is_dir (re_fs tp_root_env) ?s3 (artifact_dir tp_root_env ?fp)" by (simp add: tp_root_env_def)
  from install_without_archives[OF a1 a2 a3 a4 refl a6 a7 a8 a9 a10, of "''f''"]
  show ?thesis by (auto simp: with_events_def split: prod.splits)
qed

end
