(* ===== verification/Spec2Isabelle.thy ===== *)
theory Spec2Isabelle
  imports Hub_Properties Workspace_Props Task_List Resource_Budget Task_Stats Fingerprints Why_Miss Sandbox_Modes Shell Berry_Roundtrip Root_Legacy
    Sandbox_Channels Build_Summary Build_Run Package_Refs Archives Cli Ts_Plugin
begin

text \<open>
  A model of rage, a build tool for JavaScript and TypeScript monorepos (the Rust crates under src/crates), and the
  theorems that make it correct.

  \<^bold>\<open>How the program works.\<close>  The command \<^verbatim>\<open>rage run\<close> discovers the packages of a workspace (crate workspace-tools), builds the
  graph of their dependencies (build-graph), chooses what to run (scoping, pipeline-config) and makes a list of tasks
  (cli).  The scheduler runs the install of the workspace first, as a root task, then every package task as soon as its
  dependencies are done, under a memory budget.  Each task is looked up in a two-phase cache (cache): the declared inputs give
  a weak fingerprint, under which earlier runs have left the sets of files they were seen to read; the contents of such a set
  give a strong fingerprint, under which the entry of a run is found.  A task that has to run does so in a sandbox (sandbox and
  its helpers for macOS, Windows and Linux) that reports the files it opens.  Installed packages and the effects of
  postinstall scripts are kept in a content-addressed store (artifact-store) and restored from there.  A daemon (daemon)
  keeps one build going for editors and browsers; a hub (hub) hands tasks out to spokes (spoke-client) on other
  machines.

  \<^bold>\<open>Conventions.\<close>  A struct is a record and an enum a datatype with the names of the source; a Rust string is the list of its
  bytes as characters; machine integers keep their width as words where they can wrap, saturate or be cut.  An operation
  that can fail returns an option or a sum with its errors.  State is passed explicitly; whatever happens in an order that
  the code does not fix (threads, clients, processes, hash maps) is a step relation or an order given from outside, and the
  theorems hold for all of them.  Libraries, the operating system and clocks are arguments of the definitions; what is
  assumed of them are named predicates (for instance \<^term>\<open>iteration_order\<close>, \<^term>\<open>parses_events\<close>, \<^term>\<open>unpacks_one\<close>), and every theorem
  with a hypothesis is followed by an instance where it holds.

  \<^bold>\<open>Shared theories.\<close>  Prelude: maps as association lists with the collection \<^verbatim>\<open>hm_simps\<close>, and general lemmas.  Strings: the
  string and path operations of the standard library that the code calls.  Files: a file system as a map from names to files,
  and codecs.  Disk: a file system with inodes, hard links, symbolic links and modes, for the store.  Globs: the two
  hand-written matchers, against a declarative reference.

  \<^bold>\<open>Choosing what to run.\<close>  Workspace (workspace-tools, build-graph), Scope (scoping, and \<^verbatim>\<open>transitive_dep_closure\<close> of cli) and
  Task_List (pipeline-config, and the planning of \<^verbatim>\<open>cmd_run\<close>).  Workspace_Props shows that the graph has exactly the resolved
  dependencies or one of its two errors, that the order is topological, and that the affected packages are those that
  reach a changed one; Task_List that a plan with \<^verbatim>\<open>--to\<close> is closed under dependencies.

  \<^bold>\<open>Running it.\<close>  Scheduler (waves, and the protocol of watch channels, spawning, aborting and joining in
  scheduler/src/runner.rs as the relation \<^term>\<open>sched_step\<close>), Scheduler_Props (safety, result and progress in every interleaving),
  Build_Run (the whole run with its barrier and the collection of errors; the process of a task, its pipes and the
  memory monitor), Resource_Budget (the budget with its counters of 64 and 32 bits, the reservations of any number of
  clients as \<^term>\<open>budget_step\<close>), Task_Stats (the window of sixteen observations), Build_Summary (the printed figures and the
  critical chain, cut after 51 records).

  \<^bold>\<open>The cache.\<close>  Fingerprints (weak_fp.rs, strong_fp.rs, fingerprint.rs, tool_hash.rs), Cache_Store (entries, and the locale
  \<^verbatim>\<open>cache_provider\<close>, the contract of a single-phase cache, with the local and the remote caches as interpretations), Two_Phase (lookup and
  recording, with \<^term>\<open>cache_history\<close> for what earlier runs have stored), Why_Miss, Node_Path (the tools a task finds), Run_Task (a
  package task from lookup to recording), Early_Cutoff (which dependents of a rebuilt package run again), Shell (the command line
  a task is started with).  They show that a fingerprint changes exactly with what it is made of, up to collisions
  of the hash, that a hit comes from a run with the same reads, and what a run leaves in the cache.

  \<^bold>\<open>Installed packages.\<close>  Artifact_Store (the locale \<^verbatim>\<open>content_store\<close> with the store on disk as its interpretation), Package_Store (the
  locale \<^verbatim>\<open>package_store\<close> above it: capturing and restoring a package), Artifact_Cache (capturing at most 20 new packages per run
  and restoring all), Bin_Links, Postinstall (the difference of two manifests of a directory, replayed elsewhere), Lockfile
  and Berry_Roundtrip (the parsers of four lockfile formats), Package_Refs (packages named by the files a task
  read), Archives (unpacking), Ts_Plugin (the plugin for TypeScript with the script policies of its package managers), Root_Task and
  Root_Legacy (the install task in both runners).

  \<^bold>\<open>The sandboxes.\<close>  Sandbox_Pipe (the wire format of Windows, with paths of less than 65536 UTF-16 units, and the loop that
  decodes what arrives in pieces), Sandbox_Run (the injection on Windows and the path set), Sandbox_Linux (the three programs
  in the kernel, which watch at most 4096 processes, and the ring they write to), Sandbox_Hooks (what the replaced
  functions report), Sandbox_Channels (the locale \<^verbatim>\<open>event_channel\<close>, with the pipe and the socket as interpretations),
  Sandbox_Modes (which sandbox a platform has, and what the mode of a task changes).  The theorems say
  that the recorded sets are exactly the paths of the intercepted calls, and under which conditions.

  \<^bold>\<open>Servers.\<close>  Hub_Dag, Hub_Invariant, Hub_Server and Hub_Properties (the task graph of the hub, its invariant, its RPCs as
  \<^term>\<open>hub_run\<close>, and what a build computes), Spoke (the file by which a spoke finds the hub, polled at most twice per second of
  its timeout, and the client), Daemon (the reconciler as \<^term>\<open>daemon_step\<close>, its states and its replies), Daemon_Life (daemon
  processes that start and end beside each other), Cli (the commands that put these together; a daemon is tried for 50
  times after it was started).

  \<^bold>\<open>Bounds.\<close>  No recursion is cut short by fuel where the code is not: loops recurse on what they consume, or on a bound that the
  code has (the figures above; forty symbolic links, after which the operating system gives up).  The two loops that may run for ever,
  the search for the end of a string in memory and the reconnecting of a spoke, are a partial function and a list of attempts.

  \<^bold>\<open>Not modelled.\<close>  The transports (tonic, tokio, axum, Win32 and BSD sockets) beyond the order of their messages; the parsing of
  arguments (clap), tracing and the layout of what is printed; the clients of S3 and Azure; the formats of JSON, YAML, tar and zip, and
  the hash functions; the machine code of the detours and of the interposition.  These are calls into libraries, of which the model
  keeps the results.
\<close>

end
